(* ===== verification/Prelude.thy ===== *)
theory Prelude
  imports Main
begin

text \<open>
  What every component of the development shares: the names of the model's basic types,
  the outcome type of an operation that may panic or block, the clock readings an
  operation takes, byte slices, and generic list lemmas.

  A byte is a \<^typ>\<open>char\<close> (256 values), so that byte strings of the source
  (\<open>b"GET"\<close>, \<open>&[u8]\<close>, \<open>Bytes\<close>, \<open>String\<close>) are \<open>char list\<close>s
  and its literals stay readable. Instants and durations are counted in nanoseconds.
\<close>

section \<open>Names of the model's types\<close>

type_synonym byte = char
type_synonym bytes = "char list"

text \<open>A \<open>String\<close> key is its UTF-8 bytes.\<close>

type_synonym key = "char list"

text \<open>Nanoseconds of the monotonic clock, and nanoseconds of a duration.\<close>

type_synonym instant = nat
type_synonym duration = nat

section \<open>Collections of rewrite rules\<close>

named_theorems std_simps \<open>evaluation rules of the Rust standard library model\<close>
named_theorems slice_simps \<open>rules on byte slices\<close>
named_theorems codec_simps \<open>round trips of the little-endian encoders\<close>

section \<open>Outcomes\<close>

text \<open>
  A call returns a value, panics (the task unwinds), or waits forever for a lock that the
  same task already holds.
\<close>

datatype 'a outcome = Ret 'a | Panic | Blocked

fun obind :: "'a outcome \<Rightarrow> ('a \<Rightarrow> 'b outcome) \<Rightarrow> 'b outcome" where
  "obind (Ret a) f = f a"
| "obind Panic f = Panic"
| "obind Blocked f = Blocked"

fun returns :: "'a outcome \<Rightarrow> bool" where
  "returns (Ret a) = True"
| "returns Panic = False"
| "returns Blocked = False"

lemma obind_eq_Ret_iff: "obind m f = Ret b \<longleftrightarrow> (\<exists>a. m = Ret a \<and> f a = Ret b)"
  by (cases m) auto

lemma returns_iff: "returns m \<longleftrightarrow> (\<exists>a. m = Ret a)"
  by (cases m) auto

section \<open>Clock readings\<close>

text \<open>
  \<open>Instant::now()\<close> is read several times inside one operation. A clock gives the
  readings in the order in which they are taken; \<open>later n clk\<close> are the readings
  after the first \<open>n\<close>. The monotonic clock of the standard library never goes back:
  where that matters a lemma assumes \<open>mono clk\<close>.
\<close>

type_synonym clock = "nat \<Rightarrow> instant"

definition later :: "nat \<Rightarrow> clock \<Rightarrow> clock" where
  "later n clk = (\<lambda>i. clk (n + i))"

lemma later_apply [simp]: "later n clk i = clk (n + i)"
  by (simp add: later_def)

lemma mono_later [intro]: "mono clk \<Longrightarrow> mono (later n clk)"
  by (auto simp: mono_def)

lemma later_later [simp]: "later m (later n clk) = later (n + m) clk"
  by (simp add: later_def add.assoc)

lemma later_const [simp]: "later n (\<lambda>_. t) = (\<lambda>_. t)"
  by (simp add: later_def)

section \<open>Slices\<close>

text \<open>\<open>&data[a..b]\<close> for \<open>a \<le> b \<le> data.len()\<close>; the callers state the range check.\<close>

definition subslice :: "nat \<Rightarrow> nat \<Rightarrow> 'a list \<Rightarrow> 'a list" where
  "subslice a b xs = take (b - a) (drop a xs)"

lemma length_slice [simp]: "length (subslice a b xs) = min (b - a) (length xs - a)"
  by (simp add: subslice_def min.commute)

lemma slice_append_skip [slice_simps]: "a = length ys \<Longrightarrow> subslice a (a + n) (ys @ xs) = take n xs"
  by (simp add: subslice_def)

lemma slice_whole [simp]: "subslice 0 (length xs) xs = xs"
  by (simp add: subslice_def)

lemma slice_zero: "subslice 0 n xs = take n xs"
  by (simp add: subslice_def)

lemma drop_eq_append_length: "drop n xs = ys @ zs \<Longrightarrow> length ys + length zs = length xs - n"
  by (metis length_append length_drop)

lemma slice_drop_append [slice_simps]: "drop n xs = ys @ zs \<Longrightarrow> subslice n (n + length ys) xs = ys"
  by (simp add: subslice_def)

lemma drop_add_append [slice_simps]: "drop n xs = ys @ zs \<Longrightarrow> drop (n + length ys) xs = zs"
  by (metis add.commute append_eq_conv_conj drop_drop)

section \<open>Lists\<close>

lemma dropWhile_last_id: "xs \<noteq> [] \<Longrightarrow> \<not> P (hd xs) \<Longrightarrow> dropWhile P xs = xs"
  by (cases xs) auto

lemma hd_rev_last: "xs \<noteq> [] \<Longrightarrow> hd (rev xs) = last xs"
  by (simp add: hd_rev)

text \<open>The first position with a property, after a prefix without it.\<close>

lemma first_index_unique:
  assumes "P ((ys @ c # zs) ! i)" and "\<forall>x \<in> set (take i (ys @ c # zs)). \<not> P x"
    and "\<forall>y \<in> set ys. \<not> P y" and "P c"
  shows "i = length ys"
proof (rule ccontr)
  assume "i \<noteq> length ys"
  then consider "i < length ys" | "length ys < i" by linarith
  then show False
  proof cases
    case 1
    then have "(ys @ c # zs) ! i \<in> set ys" by (simp add: nth_append)
    with assms(1,3) show False by blast
  next
    case 2
    then have "c \<in> set (take i (ys @ c # zs))" by (simp add: take_Cons')
    with assms(2,4) show False by blast
  qed
qed

lemma map_of_distinct_Some:
  "distinct (map fst xs) \<Longrightarrow> (k, v) \<in> set xs \<longleftrightarrow> map_of xs k = Some v"
  by (rule map_of_eq_Some_iff [symmetric])

lemma keyed_filter_lookup:
  assumes "distinct (map fst tbl)"
  shows "map_of (filter keep tbl) x = Option.bind (map_of tbl x) (\<lambda>y. if keep (x, y) then Some y else None)"
  using assms
proof (induction tbl)
  case (Cons row tbl)
  show ?case
  proof (cases "fst row = x")
    case True
    with Cons.prems have "x \<notin> fst ` set tbl" by simp
    hence "map_of tbl x = None" by (simp only: map_of_eq_None_iff not_False_eq_True)
    with True Cons show ?thesis by (cases row) auto
  next
    case False
    with Cons show ?thesis by (cases row) auto
  qed
qed simp

end
