(* ===== verification/Rust_Std.thy ===== *)
theory Rust_Std
  imports Prelude
begin

text \<open>
  The part of the Rust standard library the sources call: casts between integer widths,
  \<open>to_le_bytes\<close> and \<open>from_le_bytes\<close>, decimal formatting and \<open>str::parse\<close>,
  ASCII classification, UTF-8 validation and \<open>String::from_utf8_lossy\<close>, and the
  arithmetic of \<open>Instant\<close> and \<open>Duration\<close> (64-bit Linux). The crate is built
  with the release profile, in which integer overflow wraps.
\<close>

section \<open>Integers of a width\<close>

text \<open>\<open>n as u16\<close>, \<open>n as u32\<close> and the wrap-around of 64-bit arithmetic.\<close>

definition as_u16 :: "nat \<Rightarrow> nat" where
  "as_u16 n = n mod 2 ^ 16"

definition as_u32 :: "nat \<Rightarrow> nat" where
  "as_u32 n = n mod 2 ^ 32"

definition wrap_u64 :: "nat \<Rightarrow> nat" where
  "wrap_u64 n = n mod 2 ^ 64"

text \<open>Two's complement: the value of an \<open>i64\<close> congruent to the mathematical result.\<close>

definition wrap_i64 :: "int \<Rightarrow> int" where
  "wrap_i64 z = (z + 2 ^ 63) mod 2 ^ 64 - 2 ^ 63"

definition in_i64 :: "int \<Rightarrow> bool" where
  "in_i64 z \<longleftrightarrow> - (2 ^ 63) \<le> z \<and> z < 2 ^ 63"

lemma wrap_i64_id [simp]: "in_i64 z \<Longrightarrow> wrap_i64 z = z"
  by (simp add: wrap_i64_def in_i64_def)

lemma in_i64_wrap [simp]: "in_i64 (wrap_i64 z)"
proof -
  have "0 \<le> (z + 2 ^ 63) mod 2 ^ 64" and "(z + 2 ^ 63) mod 2 ^ 64 < (2::int) ^ 64"
    by simp_all
  then show ?thesis by (simp add: wrap_i64_def in_i64_def)
qed

lemma wrap_i64_wrap_add: "wrap_i64 (wrap_i64 y + z) = wrap_i64 (y + z)"
  by (simp add: wrap_i64_def mod_simps algebra_simps)

lemma wrap_i64_add_one: "wrap_i64 (2 ^ 63 - 1 + 1) = - (2 ^ 63)"
  by (simp add: wrap_i64_def)

section \<open>Little-endian bytes\<close>

text \<open>\<open>le_bytes w n\<close> is \<open>n.to_le_bytes()\<close> at a width of \<open>w\<close> bytes.\<close>

fun le_bytes :: "nat \<Rightarrow> nat \<Rightarrow> bytes" where
  "le_bytes 0 n = []"
| "le_bytes (Suc w) n = char_of (n mod 256) # le_bytes w (n div 256)"

fun from_le :: "bytes \<Rightarrow> nat" where
  "from_le [] = 0"
| "from_le (b # bs) = of_char b + 256 * from_le bs"

lemma length_le_bytes [simp]: "length (le_bytes w n) = w"
  by (induction w arbitrary: n) auto

lemma from_le_le_bytes [codec_simps]: "from_le (le_bytes w n) = n mod 256 ^ w"
proof (induction w arbitrary: n)
  case (Suc w)
  have "n mod 256 ^ Suc w = n mod 256 + 256 * (n div 256 mod 256 ^ w)"
    by (simp add: mod_mult2_eq)
  with Suc show ?case by simp
qed simp

lemma from_le_bound: "from_le bs < 256 ^ length bs"
proof (induction bs)
  case (Cons b bs)
  have b: "of_char b < (256::nat)" by simp
  have "256 * from_le bs + 256 \<le> 256 * 256 ^ length bs"
    using Cons by linarith
  with b have "of_char b + 256 * from_le bs < 256 * 256 ^ length bs" by linarith
  then show ?case by simp
qed simp

text \<open>The \<open>i64\<close> variants go through the unsigned representative.\<close>

definition le_i64 :: "int \<Rightarrow> bytes" where
  "le_i64 z = le_bytes 8 (nat (z mod 2 ^ 64))"

definition from_le_i64 :: "bytes \<Rightarrow> int" where
  "from_le_i64 bs = wrap_i64 (int (from_le bs))"

lemma length_le_i64 [simp]: "length (le_i64 z) = 8"
  by (simp add: le_i64_def)

lemma wrap_i64_mod: "wrap_i64 (z mod 2 ^ 64) = wrap_i64 z"
  by (simp add: wrap_i64_def mod_add_left_eq)

lemma from_le_i64_le_i64 [codec_simps]: "in_i64 z \<Longrightarrow> from_le_i64 (le_i64 z) = z"
proof -
  assume z: "in_i64 z"
  have n: "nat (z mod 2 ^ 64) < 2 ^ 64"
    by (simp add: nat_less_iff)
  have "from_le (le_i64 z) = nat (z mod 2 ^ 64)"
    using n by (simp add: le_i64_def from_le_le_bytes)
  then have "from_le_i64 (le_i64 z) = wrap_i64 (z mod 2 ^ 64)"
    by (simp add: from_le_i64_def)
  with z show ?thesis by (simp only: wrap_i64_mod wrap_i64_id)
qed

lemma from_le_i64_range [simp]: "in_i64 (from_le_i64 bs)"
  by (simp add: from_le_i64_def)

section \<open>Decimal numerals\<close>

definition is_ascii_digit :: "byte \<Rightarrow> bool" where
  "is_ascii_digit b \<longleftrightarrow> 48 \<le> (of_char b :: nat) \<and> (of_char b :: nat) \<le> 57"

definition digit_val :: "byte \<Rightarrow> nat" where
  "digit_val b = of_char b - 48"

definition digit_char :: "nat \<Rightarrow> byte" where
  "digit_char d = char_of (48 + d)"

lemma digit_char_digit [simp]: "d < 10 \<Longrightarrow> is_ascii_digit (digit_char d)"
  by (simp add: is_ascii_digit_def digit_char_def of_char_of)

lemma digit_val_char [simp]: "d < 10 \<Longrightarrow> digit_val (digit_char d) = d"
  by (simp add: digit_val_def digit_char_def of_char_of)

text \<open>\<open>Display\<close> of an unsigned and of a signed integer.\<close>

fun show_nat :: "nat \<Rightarrow> bytes" where
  "show_nat n = (if n < 10 then [digit_char n] else show_nat (n div 10) @ [digit_char (n mod 10)])"

declare show_nat.simps [simp del]

definition show_int :: "int \<Rightarrow> bytes" where
  "show_int z = (if z < 0 then CHR ''-'' # show_nat (nat (- z)) else show_nat (nat z))"

text \<open>The value of a digit string read from the left, \<open>None\<close> at the first other byte.\<close>

fun digits_val :: "nat \<Rightarrow> bytes \<Rightarrow> nat option" where
  "digits_val acc [] = Some acc"
| "digits_val acc (b # bs) =
     (if is_ascii_digit b then digits_val (acc * 10 + digit_val b) bs else None)"

text \<open>\<open>str::parse::<u64>()\<close>: an optional plus sign, at least one digit, in range.\<close>

definition parse_u64 :: "bytes \<Rightarrow> nat option" where
  "parse_u64 bs =
     (let ds = (case bs of [] \<Rightarrow> [] | c # cs \<Rightarrow> if c = CHR ''+'' then cs else bs)
      in if ds = [] then None
         else case digits_val 0 ds of None \<Rightarrow> None
              | Some n \<Rightarrow> if n < 2 ^ 64 then Some n else None)"

text \<open>\<open>str::parse::<i64>()\<close>: an optional sign, at least one digit, in range.\<close>

definition parse_i64 :: "bytes \<Rightarrow> int option" where
  "parse_i64 bs =
     (let neg = (case bs of [] \<Rightarrow> False | c # cs \<Rightarrow> c = CHR ''-'');
          ds = (case bs of [] \<Rightarrow> []
                | c # cs \<Rightarrow> if c = CHR ''+'' \<or> c = CHR ''-'' then cs else bs)
      in if ds = [] then None
         else case digits_val 0 ds of None \<Rightarrow> None
              | Some n \<Rightarrow> let z = (if neg then - int n else int n)
                          in if in_i64 z then Some z else None)"

lemma digits_val_append:
  "digits_val acc (xs @ ys) =
     (case digits_val acc xs of None \<Rightarrow> None | Some n \<Rightarrow> digits_val n ys)"
  by (induction xs arbitrary: acc) auto

lemma digits_val_mono: "digits_val acc bs = Some m \<Longrightarrow> acc \<le> m"
proof (induction bs arbitrary: acc)
  case (Cons b bs)
  then have "acc * 10 + digit_val b \<le> m" by (auto split: if_splits)
  then show ?case by linarith
qed simp

lemma digits_val_show_nat [simp]: "digits_val 0 (show_nat n) = Some n"
proof (induction n rule: show_nat.induct)
  case (1 n)
  show ?case
  proof (cases "n < 10")
    case True
    then show ?thesis by (simp add: show_nat.simps [of n])
  next
    case False
    with 1 have "digits_val 0 (show_nat (n div 10)) = Some (n div 10)" by simp
    with False show ?thesis
      by (subst show_nat.simps) (simp add: digits_val_append)
  qed
qed

lemma show_nat_digits: "\<forall>b \<in> set (show_nat n). is_ascii_digit b"
proof (induction n rule: show_nat.induct)
  case (1 n)
  then show ?case by (cases "n < 10") (simp_all add: show_nat.simps [of n])
qed

lemma show_nat_not_Nil [simp]: "show_nat n \<noteq> []"
  by (subst show_nat.simps) simp

lemma digit_not_sign:
  "is_ascii_digit b \<Longrightarrow> b \<noteq> CHR ''+'' \<and> b \<noteq> CHR ''-''"
  by (auto simp: is_ascii_digit_def)

lemma show_nat_Cons: "\<exists>c cs. show_nat n = c # cs \<and> c \<noteq> CHR ''+'' \<and> c \<noteq> CHR ''-''"
proof -
  obtain c cs where c: "show_nat n = c # cs"
    by (cases "show_nat n") auto
  then have "is_ascii_digit c"
    using show_nat_digits [of n] by simp
  with c digit_not_sign show ?thesis by blast
qed

lemma parse_u64_show_nat [std_simps]: "n < 2 ^ 64 \<Longrightarrow> parse_u64 (show_nat n) = Some n"
proof -
  assume n: "n < 2 ^ 64"
  obtain c cs where c: "show_nat n = c # cs" "c \<noteq> CHR ''+''"
    using show_nat_Cons by blast
  have "digits_val 0 (c # cs) = Some n"
    using c digits_val_show_nat [of n] by simp
  with n c show ?thesis by (simp add: parse_u64_def Let_def)
qed

lemma parse_i64_show_int [std_simps]: "in_i64 z \<Longrightarrow> parse_i64 (show_int z) = Some z"
proof (cases "z < 0")
  case True
  moreover assume "in_i64 z"
  ultimately show ?thesis
    by (simp add: parse_i64_def show_int_def Let_def)
next
  case False
  assume z: "in_i64 z"
  obtain c cs where c: "show_nat (nat z) = c # cs" "c \<noteq> CHR ''+''" "c \<noteq> CHR ''-''"
    using show_nat_Cons by blast
  have "digits_val 0 (c # cs) = Some (nat z)"
    using c digits_val_show_nat [of "nat z"] by simp
  with False z c show ?thesis
    by (simp add: parse_i64_def show_int_def Let_def)
qed

lemma parse_i64_in_range: "parse_i64 bs = Some z \<Longrightarrow> in_i64 z"
  by (auto simp: parse_i64_def Let_def split: if_splits option.splits)

lemma parse_u64_in_range: "parse_u64 bs = Some n \<Longrightarrow> n < 2 ^ 64"
  by (auto simp: parse_u64_def Let_def split: if_splits option.splits)

section \<open>ASCII case\<close>

text \<open>\<open>u8::eq_ignore_ascii_case\<close> compares after mapping A..Z to a..z.\<close>

definition ascii_lower :: "byte \<Rightarrow> byte" where
  "ascii_lower b =
     (let n = (of_char b :: nat) in if 65 \<le> n \<and> n \<le> 90 then char_of (n + 32) else b)"

definition byte_eq_ignore_case :: "byte \<Rightarrow> byte \<Rightarrow> bool" where
  "byte_eq_ignore_case x y \<longleftrightarrow> ascii_lower x = ascii_lower y"


lemma byte_eq_ignore_case_refl [simp]: "byte_eq_ignore_case b b"
  by (simp add: byte_eq_ignore_case_def)

section \<open>UTF-8\<close>

text \<open>
  The validator reads one sequence at a time: the width its lead byte announces, a second
  byte in the range that excludes overlong forms and surrogates, then continuation bytes.
  \<open>utf8_chunk\<close> returns the bytes of the next sequence, whether it is well formed, and
  the rest; an ill-formed sequence ends before the first byte that does not fit.
\<close>

definition utf8_width :: "byte \<Rightarrow> nat" where
  "utf8_width b =
     (let n = (of_char b :: nat)
      in if n < 128 then 1
         else if 194 \<le> n \<and> n \<le> 223 then 2
         else if 224 \<le> n \<and> n \<le> 239 then 3
         else if 240 \<le> n \<and> n \<le> 244 then 4
         else 0)"

definition utf8_cont :: "byte \<Rightarrow> bool" where
  "utf8_cont b \<longleftrightarrow> 128 \<le> (of_char b :: nat) \<and> (of_char b :: nat) \<le> 191"

definition utf8_second :: "byte \<Rightarrow> byte \<Rightarrow> bool" where
  "utf8_second a b =
     (let m = (of_char a :: nat); n = (of_char b :: nat)
      in if m = 224 then 160 \<le> n \<and> n \<le> 191
         else if m = 237 then 128 \<le> n \<and> n \<le> 159
         else if m = 240 then 144 \<le> n \<and> n \<le> 191
         else if m = 244 then 128 \<le> n \<and> n \<le> 143
         else utf8_cont b)"

fun utf8_chunk :: "bytes \<Rightarrow> bytes \<times> bool \<times> bytes" where
  "utf8_chunk [] = ([], True, [])"
| "utf8_chunk (a # xs) =
     (if utf8_width a = 1 then ([a], True, xs)
      else if utf8_width a = 0 then ([a], False, xs)
      else case xs of [] \<Rightarrow> ([a], False, [])
        | b # ys \<Rightarrow>
          if \<not> utf8_second a b then ([a], False, xs)
          else if utf8_width a = 2 then ([a, b], True, ys)
          else case ys of [] \<Rightarrow> ([a, b], False, [])
            | c # zs \<Rightarrow>
              if \<not> utf8_cont c then ([a, b], False, ys)
              else if utf8_width a = 3 then ([a, b, c], True, zs)
              else case zs of [] \<Rightarrow> ([a, b, c], False, [])
                | d # us \<Rightarrow>
                  if \<not> utf8_cont d then ([a, b, c], False, zs)
                  else ([a, b, c, d], True, us))"

lemma utf8_chunk_split: "utf8_chunk xs = (seq, ok, rest) \<Longrightarrow> xs = seq @ rest"
  by (cases xs) (auto split: if_splits list.splits)

lemma utf8_chunk_nonempty: "utf8_chunk (a # xs) = (seq, ok, rest) \<Longrightarrow> seq \<noteq> []"
  by (auto split: if_splits list.splits)

lemma utf8_chunk_shorter: "utf8_chunk (a # xs) = (seq, ok, rest) \<Longrightarrow> length rest \<le> length xs"
  using utf8_chunk_split [of "a # xs" seq ok rest] utf8_chunk_nonempty [of a xs seq ok rest]
  by (cases seq) auto

text \<open>\<open>str::from_utf8\<close> accepts a byte string when every sequence is well formed.\<close>

function valid_utf8 :: "bytes \<Rightarrow> bool" where
  "valid_utf8 [] = True"
| "valid_utf8 (a # xs) =
     (case utf8_chunk (a # xs) of (seq, ok, rest) \<Rightarrow> ok \<and> valid_utf8 rest)"
  by pat_completeness auto
termination
  by (relation "measure length") (auto dest!: utf8_chunk_shorter [OF sym] simp del: utf8_chunk.simps)

text \<open>U+FFFD, which replaces each ill-formed sequence.\<close>

definition replacement_char :: bytes where
  "replacement_char = [CHR 0xEF, CHR 0xBF, CHR 0xBD]"

function from_utf8_lossy :: "bytes \<Rightarrow> bytes" where
  "from_utf8_lossy [] = []"
| "from_utf8_lossy (a # xs) =
     (case utf8_chunk (a # xs) of (seq, ok, rest) \<Rightarrow>
        (if ok then seq else replacement_char) @ from_utf8_lossy rest)"
  by pat_completeness auto
termination
  by (relation "measure length") (auto dest!: utf8_chunk_shorter [OF sym] simp del: utf8_chunk.simps)

declare utf8_chunk.simps(2) [simp del]

lemma from_utf8_lossy_valid [std_simps]: "valid_utf8 bs \<Longrightarrow> from_utf8_lossy bs = bs"
proof (induction bs rule: valid_utf8.induct)
  case (2 a xs)
  obtain seq ok rest where c: "utf8_chunk (a # xs) = (seq, ok, rest)"
    by (cases "utf8_chunk (a # xs)") auto
  from 2 c have "ok" and "from_utf8_lossy rest = rest" by auto
  then have "from_utf8_lossy (a # xs) = seq @ rest" using c by simp
  also have "seq @ rest = a # xs" using utf8_chunk_split [OF c] by simp
  finally show ?case .
qed simp

lemma utf8_chunk_ascii: "(of_char a :: nat) < 128 \<Longrightarrow> utf8_chunk (a # xs) = ([a], True, xs)"
  by (simp add: utf8_chunk.simps utf8_width_def)

lemma valid_utf8_ascii: "\<forall>b \<in> set bs. (of_char b :: nat) < 128 \<Longrightarrow> valid_utf8 bs"
  by (induction bs) (auto simp: utf8_chunk_ascii)

lemma utf8_chunk_append: "utf8_chunk (a # xs) = (seq, True, rest) \<Longrightarrow> utf8_chunk (a # xs @ ys) = (seq, True, rest @ ys)"
  by (auto simp: utf8_chunk.simps split: if_splits list.splits)

lemma valid_utf8_append: "valid_utf8 xs \<Longrightarrow> valid_utf8 ys \<Longrightarrow> valid_utf8 (xs @ ys)"
proof (induction xs rule: valid_utf8.induct)
  case (2 a xs)
  obtain seq ok rest where c: "utf8_chunk (a # xs) = (seq, ok, rest)"
    by (cases "utf8_chunk (a # xs)") auto
  with 2 have "ok" "valid_utf8 (rest @ ys)" by auto
  with c utf8_chunk_append [of a xs seq rest ys] show ?case by simp
qed simp

lemma show_nat_ascii: "b \<in> set (show_nat n) \<Longrightarrow> (of_char b :: nat) < 128"
  using show_nat_digits [of n] by (fastforce simp: is_ascii_digit_def)

lemma valid_utf8_show_nat: "valid_utf8 (show_nat n)"
  by (intro valid_utf8_ascii ballI) (rule show_nat_ascii)

lemma valid_utf8_show_int: "valid_utf8 (show_int z)"
  by (intro valid_utf8_ascii) (auto simp: show_int_def dest: show_nat_ascii)

lemma parse_i64_lossy_show_int [std_simps]:
  "in_i64 z \<Longrightarrow> parse_i64 (from_utf8_lossy (show_int z)) = Some z"
  by (simp add: from_utf8_lossy_valid valid_utf8_show_int parse_i64_show_int)

section \<open>Durations and instants\<close>

definition from_secs :: "nat \<Rightarrow> duration" where
  "from_secs s = s * 10 ^ 9"

definition from_millis :: "nat \<Rightarrow> duration" where
  "from_millis ms = ms * 10 ^ 6"

definition as_secs :: "duration \<Rightarrow> nat" where
  "as_secs d = d div 10 ^ 9"

definition as_millis :: "duration \<Rightarrow> nat" where
  "as_millis d = d div 10 ^ 6"

text \<open>
  An \<open>Instant\<close> keeps its seconds in an \<open>i64\<close>; adding a duration past that range
  panics. Subtracting a later instant from an earlier one gives the zero duration, as
  subtraction on \<^typ>\<open>nat\<close> does.
\<close>

definition instant_max :: instant where
  "instant_max = (2 ^ 63 - 1) * 10 ^ 9 + 999999999"

definition instant_add :: "instant \<Rightarrow> duration \<Rightarrow> instant outcome" where
  "instant_add t d = (if t + d \<le> instant_max then Ret (t + d) else Panic)"

lemma instant_add_Ret_iff [simp]: "instant_add t d = Ret u \<longleftrightarrow> t + d \<le> instant_max \<and> u = t + d"
  by (auto simp: instant_add_def)

lemma instant_add_not_Blocked [simp]: "instant_add t d \<noteq> Blocked"
  by (simp add: instant_add_def)

lemma as_millis_from_millis [simp]: "as_millis (from_millis n) = n"
  by (simp add: as_millis_def from_millis_def)

lemma as_secs_from_secs [simp]: "as_secs (from_secs n) = n"
  by (simp add: as_secs_def from_secs_def)

end
