(* ===== verification/Crates.thy ===== *)
theory Crates
  imports Rust_Std "HOL-Library.DAList" "HOL-Library.Word"
begin

text \<open>
  The third-party crates the sources call are parameters of the model: the record
  \<open>crates\<close> holds \<open>memchr\<close>, \<open>itoa\<close> and \<open>crc32fast\<close>, the record
  \<open>dashmap\<close> the operations of the concurrent map. What the sources rely on is stated
  as the two locales \<open>crates_spec\<close> and \<open>dashmap_spec\<close>, from the crates'
  documentation; \<open>reference_crates\<close> and \<open>alist_dashmap\<close> are executable
  instances that satisfy them.
\<close>

unbundle bit_operations_syntax

section \<open>Byte search, integer formatting, checksum\<close>

record crates =
  memchr :: "byte \<Rightarrow> bytes \<Rightarrow> nat option"
  memchr2 :: "byte \<Rightarrow> byte \<Rightarrow> bytes \<Rightarrow> nat option"
  itoa :: "int \<Rightarrow> bytes"
  crc32 :: "bytes \<Rightarrow> nat"

locale crates_spec =
  fixes X :: crates
  assumes memchr_Some:
      "memchr X b xs = Some i \<Longrightarrow> i < length xs \<and> xs ! i = b \<and> b \<notin> set (take i xs)"
    and memchr_None: "memchr X b xs = None \<Longrightarrow> b \<notin> set xs"
    and memchr2_Some:
      "memchr2 X a b xs = Some i \<Longrightarrow>
         i < length xs \<and> (xs ! i = a \<or> xs ! i = b) \<and> a \<notin> set (take i xs) \<and> b \<notin> set (take i xs)"
    and memchr2_None: "memchr2 X a b xs = None \<Longrightarrow> a \<notin> set xs \<and> b \<notin> set xs"
    and itoa_decimal: "itoa X z = show_int z"
    and crc32_u32: "crc32 X xs < 2 ^ 32"
begin

lemma memchr_append:
  assumes "b \<notin> set ys"
  shows "memchr X b (ys @ b # zs) = Some (length ys)"
proof (cases "memchr X b (ys @ b # zs)")
  case None
  then show ?thesis using memchr_None [OF None] by simp
next
  case (Some i)
  have "i = length ys"
    using memchr_Some [OF Some] assms by (intro first_index_unique [of "\<lambda>x. x = b"]) auto
  with Some show ?thesis by simp
qed

lemma memchr_eq_None: "b \<notin> set xs \<Longrightarrow> memchr X b xs = None"
  using memchr_Some by (cases "memchr X b xs") (auto dest: nth_mem)

lemma memchr_split:
  assumes "memchr X b xs = Some i"
  shows "xs = take i xs @ b # drop (Suc i) xs" and "b \<notin> set (take i xs)" and "i < length xs"
proof -
  note i = memchr_Some [OF assms]
  show "xs = take i xs @ b # drop (Suc i) xs"
    using i id_take_nth_drop [of i xs] by simp
  show "b \<notin> set (take i xs)" and "i < length xs"
    using i by simp_all
qed

lemma memchr2_append:
  assumes "a \<notin> set ys" and "b \<notin> set ys" and "c = a \<or> c = b"
  shows "memchr2 X a b (ys @ c # zs) = Some (length ys)"
proof (cases "memchr2 X a b (ys @ c # zs)")
  case None
  then show ?thesis using memchr2_None [OF None] assms(3) by auto
next
  case (Some i)
  have "i = length ys"
    using memchr2_Some [OF Some] assms
    by (intro first_index_unique [of "\<lambda>x. x = a \<or> x = b"]) auto
  with Some show ?thesis by simp
qed

lemma memchr2_eq_None:
  assumes "a \<notin> set xs" and "b \<notin> set xs"
  shows "memchr2 X a b xs = None"
proof (rule ccontr)
  assume "memchr2 X a b xs \<noteq> None"
  then obtain i where "memchr2 X a b xs = Some i" by blast
  then have "i < length xs" and "xs ! i = a \<or> xs ! i = b"
    using memchr2_Some by blast+
  then have "xs ! i \<in> set xs" by simp
  with assms \<open>xs ! i = a \<or> xs ! i = b\<close> show False by metis
qed

end

text \<open>
  An instance: linear search, decimal digits, and the reflected CRC-32 of IEEE 802.3 with
  polynomial \<open>0xEDB88320\<close>, one bit at a time.
\<close>

fun find_index :: "(byte \<Rightarrow> bool) \<Rightarrow> bytes \<Rightarrow> nat option" where
  "find_index p [] = None"
| "find_index p (x # xs) = (if p x then Some 0 else map_option Suc (find_index p xs))"

fun crc_bits :: "nat \<Rightarrow> 32 word \<Rightarrow> 32 word" where
  "crc_bits 0 c = c"
| "crc_bits (Suc n) c =
     crc_bits n (if c AND 1 = 1 then drop_bit 1 c XOR 0xEDB88320 else drop_bit 1 c)"

fun crc_fold :: "32 word \<Rightarrow> bytes \<Rightarrow> 32 word" where
  "crc_fold c [] = c"
| "crc_fold c (b # bs) = crc_fold (crc_bits 8 (c XOR of_nat (of_char b))) bs"

definition crc32_ieee :: "bytes \<Rightarrow> nat" where
  "crc32_ieee bs = unat (NOT (crc_fold 0xFFFFFFFF bs))"

definition reference_crates :: crates where
  "reference_crates =
     \<lparr>memchr = (\<lambda>b. find_index (\<lambda>c. c = b)),
      memchr2 = (\<lambda>a b. find_index (\<lambda>c. c = a \<or> c = b)),
      itoa = show_int, crc32 = crc32_ieee\<rparr>"

lemma find_index_Some:
  "find_index p xs = Some i \<Longrightarrow> i < length xs \<and> p (xs ! i) \<and> (\<forall>x \<in> set (take i xs). \<not> p x)"
  by (induction xs arbitrary: i) (auto split: if_splits)

lemma find_index_None: "find_index p xs = None \<Longrightarrow> x \<in> set xs \<Longrightarrow> \<not> p x"
  by (induction xs) (auto split: if_splits)

lemma crc32_ieee_bound: "crc32_ieee bs < 2 ^ 32"
  using unsigned_less [of "NOT (crc_fold 0xFFFFFFFF bs)", where ?'a = nat]
  by (simp add: crc32_ieee_def)

interpretation reference_crates: crates_spec reference_crates
  by unfold_locales
    (auto simp: reference_crates_def crc32_ieee_bound [simplified]
      dest: find_index_Some find_index_None)

section \<open>DashMap\<close>

text \<open>
  \<open>dm_write m k v\<close> is an assignment through the guard of an occupied entry or of
  \<open>get_mut\<close>; \<open>dm_iter\<close> lists the entries in the map's own order, which the
  documentation leaves open. \<open>dm_reentrant\<close> tells whether a call on the map returns
  while the same task holds a guard of it; the documentation says such a call may deadlock.
\<close>

record ('k, 'v, 'm) dashmap =
  dm_new :: 'm
  dm_get :: "'m \<Rightarrow> 'k \<Rightarrow> 'v option"
  dm_insert :: "'m \<Rightarrow> 'k \<Rightarrow> 'v \<Rightarrow> 'm"
  dm_write :: "'m \<Rightarrow> 'k \<Rightarrow> 'v \<Rightarrow> 'm"
  dm_remove :: "'m \<Rightarrow> 'k \<Rightarrow> 'm"
  dm_remove_if :: "'m \<Rightarrow> 'k \<Rightarrow> ('v \<Rightarrow> bool) \<Rightarrow> 'v option \<times> 'm"
  dm_retain :: "'m \<Rightarrow> ('k \<Rightarrow> 'v \<Rightarrow> bool) \<Rightarrow> 'm"
  dm_clear :: "'m \<Rightarrow> 'm"
  dm_contains_key :: "'m \<Rightarrow> 'k \<Rightarrow> bool"
  dm_iter :: "'m \<Rightarrow> ('k \<times> 'v) list"
  dm_len :: "'m \<Rightarrow> nat"
  dm_reentrant :: bool

locale dashmap_spec =
  fixes D :: "('k, 'v, 'm) dashmap"
  assumes get_new: "dm_get D (dm_new D) k = None"
    and get_insert: "dm_get D (dm_insert D m k v) = (dm_get D m)(k \<mapsto> v)"
    and get_write: "dm_get D (dm_write D m k v) = (dm_get D m)(k \<mapsto> v)"
    and get_remove: "dm_get D (dm_remove D m k) = (dm_get D m)(k := None)"
    and remove_if: "fst (dm_remove_if D m k p) =
        (case dm_get D m k of None \<Rightarrow> None | Some v \<Rightarrow> if p v then Some v else None)"
    and get_remove_if: "dm_get D (snd (dm_remove_if D m k p)) =
        (if \<exists>v. dm_get D m k = Some v \<and> p v then (dm_get D m)(k := None) else dm_get D m)"
    and get_retain: "dm_get D (dm_retain D m q) k =
        (case dm_get D m k of None \<Rightarrow> None | Some v \<Rightarrow> if q k v then Some v else None)"
    and get_clear: "dm_get D (dm_clear D m) k = None"
    and contains_key: "dm_contains_key D m k \<longleftrightarrow> dm_get D m k \<noteq> None"
    and iter_distinct: "distinct (map fst (dm_iter D m))"
    and iter_get: "map_of (dm_iter D m) = dm_get D m"
    and len_iter: "dm_len D m = length (dm_iter D m)"
begin

lemmas get_simps [simp] =
  get_new get_insert get_write get_remove remove_if get_remove_if get_retain get_clear contains_key

lemma iter_iff: "(k, v) \<in> set (dm_iter D m) \<longleftrightarrow> dm_get D m k = Some v"
  using map_of_eq_Some_iff [OF iter_distinct, of m k v] by (simp add: iter_get)

lemma set_iter_keys: "set (map fst (dm_iter D m)) = dom (dm_get D m)"
  using dom_map_of_conv_image_fst [of "dm_iter D m"] by (simp add: iter_get)

lemma finite_dom: "finite (dom (dm_get D m))"
  using set_iter_keys by (metis List.finite_set)

lemma len_card: "dm_len D m = card (dom (dm_get D m))"
  using distinct_card [OF iter_distinct, of m] by (simp add: len_iter set_iter_keys [simplified])

lemma len_insert: "dm_len D (dm_insert D m k v) = (if dm_get D m k = None then Suc (dm_len D m) else dm_len D m)"
  using finite_dom [of m] by (auto simp: len_card insert_absorb domIff)

lemma len_write: "dm_get D m k \<noteq> None \<Longrightarrow> dm_len D (dm_write D m k v) = dm_len D m"
  by (auto simp: len_card insert_absorb domIff)

lemma len_remove: "dm_len D (dm_remove D m k) = (if dm_get D m k = None then dm_len D m else dm_len D m - 1)"
  using finite_dom [of m] by (auto simp: len_card domIff)

lemma len_remove_le: "dm_len D (dm_remove D m k) \<le> dm_len D m"
  by (simp add: len_remove)

lemma len_mono: "dom (dm_get D m) \<subseteq> dom (dm_get D m') \<Longrightarrow> dm_len D m \<le> dm_len D m'"
  using finite_dom [of m'] by (simp add: len_card card_mono)

lemma len_new: "dm_len D (dm_new D) = 0"
  by (simp add: len_card dom_def)

lemma len_clear: "dm_len D (dm_clear D m) = 0"
  by (simp add: len_card dom_def)

end

text \<open>An instance: association lists with distinct keys, iterated in list order.\<close>

definition alist_dashmap :: "('k, 'v, ('k, 'v) alist) dashmap" where
  "alist_dashmap =
     \<lparr>dm_new = DAList.empty,
      dm_get = DAList.lookup,
      dm_insert = (\<lambda>m k v. DAList.update k v m),
      dm_write = (\<lambda>m k v. DAList.update k v m),
      dm_remove = (\<lambda>m k. DAList.delete k m),
      dm_remove_if = (\<lambda>m k p. case DAList.lookup m k of None \<Rightarrow> (None, m)
          | Some v \<Rightarrow> if p v then (Some v, DAList.delete k m) else (None, m)),
      dm_retain = (\<lambda>m q. DAList.filter (\<lambda>(k, v). q k v) m),
      dm_clear = (\<lambda>m. DAList.empty),
      dm_contains_key = (\<lambda>m k. DAList.lookup m k \<noteq> None),
      dm_iter = alist.impl_of,
      dm_len = (\<lambda>m. length (alist.impl_of m)),
      dm_reentrant = False\<rparr>"

lemma lookup_retained:
  "DAList.lookup (DAList.filter keep tbl) x =
     Option.bind (DAList.lookup tbl x) (\<lambda>y. if keep (x, y) then Some y else None)"
  by (simp add: DAList.lookup.rep_eq DAList.filter.rep_eq keyed_filter_lookup)

interpretation alist_dashmap: dashmap_spec alist_dashmap
  by unfold_locales
    (auto simp: alist_dashmap_def lookup_retained fun_eq_iff DAList.lookup_update
      DAList.lookup.rep_eq [symmetric] split: option.splits Option.bind_splits)

end
