(* ===== verification/Domain.thy ===== *)
theory Domain
  imports Crates
begin

text \<open>
  The domain layer (\<open>src/src/domain/\<close>): stored values with their expiry, the commands
  in owned and in borrowed form, their classification and their append-only-file encoding,
  and the error types with their texts. A borrowed command (\<open>ParsedCommand\<close>) differs
  from an owned one only in who owns the bytes.
\<close>

section \<open>Stored values\<close>

record value_entry =
  data :: bytes
  expires_at :: "instant option"
  created_at :: "instant option"

text \<open>\<open>ValueEntry::new\<close> takes one clock reading, \<open>with_ttl\<close> two.\<close>

definition value_entry_new :: "clock \<Rightarrow> bytes \<Rightarrow> value_entry" where
  "value_entry_new clk d = \<lparr>data = d, expires_at = None, created_at = Some (clk 0)\<rparr>"

definition value_entry_with_ttl :: "clock \<Rightarrow> bytes \<Rightarrow> duration \<Rightarrow> value_entry outcome" where
  "value_entry_with_ttl clk d ttl =
     obind (instant_add (clk 0) ttl)
       (\<lambda>e. Ret \<lparr>data = d, expires_at = Some e, created_at = Some (clk 1)\<rparr>)"

definition value_entry_new_fast :: "bytes \<Rightarrow> value_entry" where
  "value_entry_new_fast d = \<lparr>data = d, expires_at = None, created_at = None\<rparr>"

text \<open>\<open>is_expired\<close> is \<open>is_expired_at\<close> at a reading of the clock.\<close>

definition is_expired_at :: "value_entry \<Rightarrow> instant \<Rightarrow> bool" where
  "is_expired_at v now = (case expires_at v of None \<Rightarrow> False | Some e \<Rightarrow> e \<le> now)"

lemma is_expired_at_mono: "is_expired_at v s \<Longrightarrow> s \<le> t \<Longrightarrow> is_expired_at v t"
  by (auto simp: is_expired_at_def split: option.splits)

lemma not_expired_no_ttl [simp]: "expires_at v = None \<Longrightarrow> \<not> is_expired_at v t"
  by (simp add: is_expired_at_def)

lemma value_entry_new_sel [simp]:
  "data (value_entry_new clk d) = d"
  "expires_at (value_entry_new clk d) = None"
  "created_at (value_entry_new clk d) = Some (clk 0)"
  by (simp_all add: value_entry_new_def)

section \<open>Errors\<close>

datatype engine_error =
    StorageError bytes
  | NotAnInteger bytes
  | OutOfMemory

datatype domain_error =
    KeyNotFound bytes
  | DomainNotAnInteger bytes
  | Engine engine_error

text \<open>The \<open>Display\<close> texts.\<close>

fun engine_error_text :: "engine_error \<Rightarrow> bytes" where
  "engine_error_text (StorageError msg) = ''storage error: '' @ msg"
| "engine_error_text (NotAnInteger k) = ''value is not an integer: '' @ k"
| "engine_error_text OutOfMemory = ''out of memory: max keys limit reached''"

fun domain_error_text :: "domain_error \<Rightarrow> bytes" where
  "domain_error_text (KeyNotFound k) = ''key not found: '' @ k"
| "domain_error_text (DomainNotAnInteger k) = ''value is not an integer: '' @ k"
| "domain_error_text (Engine e) = ''engine error: '' @ engine_error_text e"

section \<open>Commands\<close>

datatype command =
    CPing
  | CGet key
  | CSet key bytes "duration option"
  | CDel key
  | CIncr key
  | CInfo
  | CDbSize
  | CExists key
  | CTtl key
  | CExpire key nat
  | CFlushDb
  | CKeys
  | CMget "key list"
  | CMset "(key \<times> bytes) list"

datatype command_type =
    TPing | TGet | TSet | TDel | TIncr | TInfo | TDbSize | TExists
  | TTtl | TExpire | TFlushDb | TKeys | TMget | TMset

fun is_write :: "command \<Rightarrow> bool" where
  "is_write (CSet k v ttl) = True"
| "is_write (CDel k) = True"
| "is_write (CIncr k) = True"
| "is_write (CExpire k s) = True"
| "is_write CFlushDb = True"
| "is_write (CMset ps) = True"
| "is_write _ = False"

fun command_type_of :: "command \<Rightarrow> command_type" where
  "command_type_of CPing = TPing"
| "command_type_of (CGet k) = TGet"
| "command_type_of (CSet k v ttl) = TSet"
| "command_type_of (CDel k) = TDel"
| "command_type_of (CIncr k) = TIncr"
| "command_type_of CInfo = TInfo"
| "command_type_of CDbSize = TDbSize"
| "command_type_of (CExists k) = TExists"
| "command_type_of (CTtl k) = TTtl"
| "command_type_of (CExpire k s) = TExpire"
| "command_type_of CFlushDb = TFlushDb"
| "command_type_of CKeys = TKeys"
| "command_type_of (CMget ks) = TMget"
| "command_type_of (CMset ps) = TMset"

section \<open>Append-only-file entries\<close>

text \<open>
  A key is written behind the low 16 bits of its length, a value behind the low 32 bits of
  its length, and a time to live as a signed number of milliseconds, \<open>-1\<close> for none.
\<close>

definition aof_key_bytes :: "key \<Rightarrow> bytes" where
  "aof_key_bytes k = le_bytes 2 (as_u16 (length k)) @ k"

definition aof_value_bytes :: "bytes \<Rightarrow> bytes" where
  "aof_value_bytes v = le_bytes 4 (as_u32 (length v)) @ v"

definition ttl_millis :: "duration option \<Rightarrow> int" where
  "ttl_millis ttl = (case ttl of Some d \<Rightarrow> wrap_i64 (int (as_millis d)) | None \<Rightarrow> -1)"

definition aof_pair_bytes :: "key \<times> bytes \<Rightarrow> bytes" where
  "aof_pair_bytes p = aof_key_bytes (fst p) @ aof_value_bytes (snd p)"

fun to_aof_entry :: "command \<Rightarrow> bytes option" where
  "to_aof_entry (CSet k v ttl) =
     Some (CHR 0x01 # aof_key_bytes k @ aof_value_bytes v @ le_i64 (ttl_millis ttl))"
| "to_aof_entry (CDel k) = Some (CHR 0x02 # aof_key_bytes k)"
| "to_aof_entry (CIncr k) = Some (CHR 0x03 # aof_key_bytes k)"
| "to_aof_entry (CExpire k s) = Some (CHR 0x04 # aof_key_bytes k @ le_bytes 8 s)"
| "to_aof_entry CFlushDb = Some [CHR 0x05]"
| "to_aof_entry (CMset ps) =
     Some (CHR 0x06 # le_bytes 2 (as_u16 (length ps)) @ concat (map aof_pair_bytes ps))"
| "to_aof_entry _ = None"

lemma to_aof_entry_iff_write: "to_aof_entry c \<noteq> None \<longleftrightarrow> is_write c"
  by (cases c) auto

section \<open>Borrowed commands\<close>

datatype parsed_command =
    PPing
  | PGet bytes
  | PSet bytes bytes "duration option"
  | PDel bytes
  | PIncr bytes
  | PInfo
  | PDbSize
  | PExists bytes
  | PTtl bytes
  | PExpire bytes nat
  | PFlushDb
  | PKeys
  | PMget "bytes list"
  | PMset "(bytes \<times> bytes) list"

fun parsed_is_write :: "parsed_command \<Rightarrow> bool" where
  "parsed_is_write (PSet k v ttl) = True"
| "parsed_is_write (PDel k) = True"
| "parsed_is_write (PIncr k) = True"
| "parsed_is_write (PExpire k s) = True"
| "parsed_is_write PFlushDb = True"
| "parsed_is_write (PMset ps) = True"
| "parsed_is_write _ = False"

fun parsed_command_type_of :: "parsed_command \<Rightarrow> command_type" where
  "parsed_command_type_of PPing = TPing"
| "parsed_command_type_of (PGet k) = TGet"
| "parsed_command_type_of (PSet k v ttl) = TSet"
| "parsed_command_type_of (PDel k) = TDel"
| "parsed_command_type_of (PIncr k) = TIncr"
| "parsed_command_type_of PInfo = TInfo"
| "parsed_command_type_of PDbSize = TDbSize"
| "parsed_command_type_of (PExists k) = TExists"
| "parsed_command_type_of (PTtl k) = TTtl"
| "parsed_command_type_of (PExpire k s) = TExpire"
| "parsed_command_type_of PFlushDb = TFlushDb"
| "parsed_command_type_of PKeys = TKeys"
| "parsed_command_type_of (PMget ks) = TMget"
| "parsed_command_type_of (PMset ps) = TMset"

text \<open>
  \<open>bytes_to_string\<close> keeps the bytes without checking them (\<open>from_utf8_unchecked\<close>).
\<close>

definition bytes_to_string :: "bytes \<Rightarrow> key" where
  "bytes_to_string b = b"

fun to_owned :: "parsed_command \<Rightarrow> command" where
  "to_owned PPing = CPing"
| "to_owned (PGet k) = CGet (bytes_to_string k)"
| "to_owned (PSet k v ttl) = CSet (bytes_to_string k) v ttl"
| "to_owned (PDel k) = CDel (bytes_to_string k)"
| "to_owned (PIncr k) = CIncr (bytes_to_string k)"
| "to_owned PInfo = CInfo"
| "to_owned PDbSize = CDbSize"
| "to_owned (PExists k) = CExists (bytes_to_string k)"
| "to_owned (PTtl k) = CTtl (bytes_to_string k)"
| "to_owned (PExpire k s) = CExpire (bytes_to_string k) s"
| "to_owned PFlushDb = CFlushDb"
| "to_owned PKeys = CKeys"
| "to_owned (PMget ks) = CMget (map bytes_to_string ks)"
| "to_owned (PMset ps) = CMset (map (\<lambda>(k, v). (bytes_to_string k, v)) ps)"

definition parsed_to_aof_entry :: "parsed_command \<Rightarrow> bytes option" where
  "parsed_to_aof_entry p = to_aof_entry (to_owned p)"

lemma parsed_is_write_to_owned: "parsed_is_write p = is_write (to_owned p)"
  by (cases p) auto

lemma parsed_command_type_to_owned: "parsed_command_type_of p = command_type_of (to_owned p)"
  by (cases p) auto

end
