(* ===== verification/Engine.thy ===== *)
theory Engine
  imports Domain
begin

text \<open>
  The storage engine (\<open>src/src/storage/dashmap_engine.rs\<close>, \<open>engine.rs\<close> and
  \<open>ttl.rs\<close>). The state is the concurrent map and the limit on the number of keys;
  every operation takes the DashMap \<open>D\<close> it runs on, the clock readings it makes in
  order, and returns its result with the new state. The trait \<open>KvEngine\<close> is a record of
  operations, and the locale \<open>kv_engine_spec\<close> the contract its users rely on.
\<close>

section \<open>State\<close>

record 'm engine =
  emap :: 'm
  max_keys :: nat

type_synonym 'm entries = "(key, value_entry, 'm) dashmap"

definition engine_new :: "'m entries \<Rightarrow> 'm engine" where
  "engine_new D = \<lparr>emap = dm_new D, max_keys = 0\<rparr>"

definition engine_with_max_keys :: "'m entries \<Rightarrow> nat \<Rightarrow> 'm engine" where
  "engine_with_max_keys D n = \<lparr>emap = dm_new D, max_keys = n\<rparr>"

section \<open>Background sweep and eviction\<close>

text \<open>The sweeper reads the clock once per visited entry: \<open>tk k\<close> is the reading at key \<open>k\<close>.\<close>

definition sweep_expired :: "'m entries \<Rightarrow> (key \<Rightarrow> instant) \<Rightarrow> 'm engine \<Rightarrow> 'm engine" where
  "sweep_expired D tk e =
     e\<lparr>emap := dm_retain D (emap e) (\<lambda>k v. \<not> is_expired_at v (tk k))\<rparr>"

text \<open>\<open>Option<Instant>\<close> is ordered with \<open>None\<close> first.\<close>

fun opt_instant_less :: "instant option \<Rightarrow> instant option \<Rightarrow> bool" where
  "opt_instant_less _ None = False"
| "opt_instant_less None (Some _) = True"
| "opt_instant_less (Some a) (Some b) = (a < b)"

text \<open>The sampling loop: skip expired entries, keep the oldest seen, stop after five.\<close>

fun evict_scan ::
  "instant \<Rightarrow> (key \<times> value_entry) list \<Rightarrow> key option \<Rightarrow> instant option \<Rightarrow> nat \<Rightarrow> key option" where
  "evict_scan now [] oldest_key oldest_time sampled = oldest_key"
| "evict_scan now ((k, v) # rest) oldest_key oldest_time sampled =
     (if is_expired_at v now then evict_scan now rest oldest_key oldest_time sampled
      else
        let older = oldest_key = None \<or> opt_instant_less (created_at v) oldest_time;
            oldest_key' = (if older then Some k else oldest_key);
            oldest_time' = (if older then created_at v else oldest_time)
        in if 5 \<le> Suc sampled then oldest_key'
           else evict_scan now rest oldest_key' oldest_time' (Suc sampled))"

definition evict_one_if_needed :: "'m entries \<Rightarrow> instant \<Rightarrow> 'm engine \<Rightarrow> 'm engine" where
  "evict_one_if_needed D now e =
     (if max_keys e = 0 \<or> dm_len D (emap e) < max_keys e then e
      else case evict_scan now (dm_iter D (emap e)) None None 0 of
             None \<Rightarrow> e
           | Some k \<Rightarrow> e\<lparr>emap := dm_remove D (emap e) k\<rparr>)"

section \<open>Dump\<close>

text \<open>
  The calls \<open>f(key, value, remaining)\<close> that \<open>dump_entries\<close> makes, in order; the
  count it returns is their number.
\<close>

definition dump_remaining :: "instant \<Rightarrow> value_entry \<Rightarrow> int" where
  "dump_remaining now v =
     (case expires_at v of
        Some e \<Rightarrow> (let ms = wrap_i64 (int (as_millis (e - now))) in if 0 < ms then ms else -1)
      | None \<Rightarrow> -1)"

fun dump_scan :: "instant \<Rightarrow> (key \<times> value_entry) list \<Rightarrow> (key \<times> bytes \<times> int) list" where
  "dump_scan now [] = []"
| "dump_scan now ((k, v) # rest) =
     (if is_expired_at v now then dump_scan now rest
      else (k, data v, dump_remaining now v) # dump_scan now rest)"

definition dump_entries :: "'m entries \<Rightarrow> instant \<Rightarrow> 'm engine \<Rightarrow> (key \<times> bytes \<times> int) list" where
  "dump_entries D now e = dump_scan now (dm_iter D (emap e))"

section \<open>Benchmark shortcuts\<close>

definition get_fast :: "'m entries \<Rightarrow> 'm engine \<Rightarrow> key \<Rightarrow> bytes option" where
  "get_fast D e k = map_option data (dm_get D (emap e) k)"

definition set_fast_str :: "'m entries \<Rightarrow> 'm engine \<Rightarrow> key \<Rightarrow> bytes \<Rightarrow> 'm engine" where
  "set_fast_str D e k v = e\<lparr>emap := dm_insert D (emap e) k (value_entry_new_fast v)\<rparr>"

section \<open>The operations of the trait\<close>

text \<open>Remove the key if its entry is expired at the reading \<open>t\<close>.\<close>

definition drop_if_expired :: "'m entries \<Rightarrow> 'm engine \<Rightarrow> key \<Rightarrow> instant \<Rightarrow> 'm engine" where
  "drop_if_expired D e k t =
     e\<lparr>emap := snd (dm_remove_if D (emap e) k (\<lambda>v. is_expired_at v t))\<rparr>"

definition engine_get ::
  "'m entries \<Rightarrow> clock \<Rightarrow> 'm engine \<Rightarrow> key \<Rightarrow> (engine_error + value_entry option) \<times> 'm engine" where
  "engine_get D clk e k =
     (case dm_get D (emap e) k of
        None \<Rightarrow> (Inr None, e)
      | Some v \<Rightarrow>
          if is_expired_at v (clk 0) then (Inr None, drop_if_expired D e k (clk 1))
          else (Inr (Some v), e))"

definition engine_set ::
  "'m entries \<Rightarrow> clock \<Rightarrow> 'm engine \<Rightarrow> key \<Rightarrow> value_entry \<Rightarrow> (engine_error + unit) \<times> 'm engine" where
  "engine_set D clk e k v =
     (if 0 < max_keys e \<and> \<not> dm_contains_key D (emap e) k then
        let e1 = evict_one_if_needed D (clk 0) e
        in if max_keys e1 \<le> dm_len D (emap e1) then (Inl OutOfMemory, e1)
           else (Inr (), e1\<lparr>emap := dm_insert D (emap e1) k v\<rparr>)
      else (Inr (), e\<lparr>emap := dm_insert D (emap e) k v\<rparr>))"

definition engine_del ::
  "'m entries \<Rightarrow> clock \<Rightarrow> 'm engine \<Rightarrow> key \<Rightarrow> (engine_error + bool) \<times> 'm engine" where
  "engine_del D clk e k =
     (case dm_remove_if D (emap e) k (\<lambda>v. \<not> is_expired_at v (clk 0)) of
        (removed, m) \<Rightarrow> (Inr (removed \<noteq> None), e\<lparr>emap := m\<rparr>))"

text \<open>
  \<open>incr\<close> holds the guard of the map entry while it runs. On an expired entry
  \<open>occ.remove()\<close> gives the guard up before the map is asked for its length; on a vacant
  entry with a key limit the length is asked for with the guard still held.
\<close>

definition engine_incr ::
  "crates \<Rightarrow> 'm entries \<Rightarrow> clock \<Rightarrow> 'm engine \<Rightarrow> key \<Rightarrow> ((engine_error + int) \<times> 'm engine) outcome" where
  "engine_incr X D clk e k =
     (case dm_get D (emap e) k of
        Some v \<Rightarrow>
          if is_expired_at v (clk 0) then
            let e1 = e\<lparr>emap := dm_remove D (emap e) k\<rparr>
            in if 0 < max_keys e1 \<and> max_keys e1 \<le> dm_len D (emap e1) then Ret (Inl OutOfMemory, e1)
               else Ret (Inr 1, e1\<lparr>emap := dm_insert D (emap e1) k (value_entry_new (later 1 clk) ''1'')\<rparr>)
          else
            (case parse_i64 (from_utf8_lossy (data v)) of
               None \<Rightarrow> Ret (Inl (NotAnInteger k), e)
             | Some val \<Rightarrow>
                 let new_val = wrap_i64 (val + 1)
                 in Ret (Inr new_val,
                      e\<lparr>emap := dm_write D (emap e) k (v\<lparr>data := itoa X new_val\<rparr>)\<rparr>))
      | None \<Rightarrow>
          if 0 < max_keys e then
            (if \<not> dm_reentrant D then Blocked
             else if max_keys e \<le> dm_len D (emap e) then
               let e1 = evict_one_if_needed D (clk 0) e
               in if max_keys e1 \<le> dm_len D (emap e1) then Ret (Inl OutOfMemory, e1)
                  else Ret (Inr 1, e1\<lparr>emap := dm_insert D (emap e1) k (value_entry_new (later 1 clk) ''1'')\<rparr>)
             else Ret (Inr 1, e\<lparr>emap := dm_insert D (emap e) k (value_entry_new clk ''1'')\<rparr>))
          else Ret (Inr 1, e\<lparr>emap := dm_insert D (emap e) k (value_entry_new clk ''1'')\<rparr>))"

definition engine_len :: "'m entries \<Rightarrow> 'm engine \<Rightarrow> nat" where
  "engine_len D e = dm_len D (emap e)"

definition engine_exists :: "'m entries \<Rightarrow> clock \<Rightarrow> 'm engine \<Rightarrow> key \<Rightarrow> bool \<times> 'm engine" where
  "engine_exists D clk e k =
     (case dm_get D (emap e) k of
        None \<Rightarrow> (False, e)
      | Some v \<Rightarrow>
          if is_expired_at v (clk 0) then (False, drop_if_expired D e k (clk 1)) else (True, e))"

definition engine_ttl_secs :: "'m entries \<Rightarrow> clock \<Rightarrow> 'm engine \<Rightarrow> key \<Rightarrow> int \<times> 'm engine" where
  "engine_ttl_secs D clk e k =
     (case dm_get D (emap e) k of
        None \<Rightarrow> (-2, e)
      | Some v \<Rightarrow>
          if is_expired_at v (clk 0) then (-2, drop_if_expired D e k (clk 1))
          else (case expires_at v of
                  Some x \<Rightarrow> (if x \<le> clk 1 then -2 else wrap_i64 (int (as_secs (x - clk 1))), e)
                | None \<Rightarrow> (-1, e)))"

definition engine_expire ::
  "'m entries \<Rightarrow> clock \<Rightarrow> 'm engine \<Rightarrow> key \<Rightarrow> nat \<Rightarrow> (bool \<times> 'm engine) outcome" where
  "engine_expire D clk e k seconds =
     (case dm_get D (emap e) k of
        None \<Rightarrow> Ret (False, e)
      | Some v \<Rightarrow>
          if is_expired_at v (clk 0) then Ret (False, drop_if_expired D e k (clk 1))
          else obind (instant_add (clk 1) (from_secs seconds))
            (\<lambda>x. Ret (True, e\<lparr>emap := dm_write D (emap e) k (v\<lparr>expires_at := Some x\<rparr>)\<rparr>)))"

definition engine_clear :: "'m entries \<Rightarrow> 'm engine \<Rightarrow> 'm engine" where
  "engine_clear D e = e\<lparr>emap := dm_clear D (emap e)\<rparr>"

definition engine_keys :: "'m entries \<Rightarrow> clock \<Rightarrow> 'm engine \<Rightarrow> key list" where
  "engine_keys D clk e = map fst (filter (\<lambda>(k, v). \<not> is_expired_at v (clk 0)) (dm_iter D (emap e)))"

definition engine_mget :: "'m entries \<Rightarrow> clock \<Rightarrow> 'm engine \<Rightarrow> key list \<Rightarrow> value_entry option list" where
  "engine_mget D clk e ks =
     map (\<lambda>k. case dm_get D (emap e) k of None \<Rightarrow> None
              | Some v \<Rightarrow> if is_expired_at v (clk 0) then None else Some v) ks"

section \<open>The trait\<close>

record 's kv_engine =
  kv_get :: "clock \<Rightarrow> 's \<Rightarrow> key \<Rightarrow> (engine_error + value_entry option) \<times> 's"
  kv_set :: "clock \<Rightarrow> 's \<Rightarrow> key \<Rightarrow> value_entry \<Rightarrow> (engine_error + unit) \<times> 's"
  kv_del :: "clock \<Rightarrow> 's \<Rightarrow> key \<Rightarrow> (engine_error + bool) \<times> 's"
  kv_incr :: "clock \<Rightarrow> 's \<Rightarrow> key \<Rightarrow> ((engine_error + int) \<times> 's) outcome"
  kv_len :: "'s \<Rightarrow> nat"
  kv_exists :: "clock \<Rightarrow> 's \<Rightarrow> key \<Rightarrow> bool \<times> 's"
  kv_ttl_secs :: "clock \<Rightarrow> 's \<Rightarrow> key \<Rightarrow> int \<times> 's"
  kv_expire :: "clock \<Rightarrow> 's \<Rightarrow> key \<Rightarrow> nat \<Rightarrow> (bool \<times> 's) outcome"
  kv_clear :: "'s \<Rightarrow> 's"
  kv_keys :: "clock \<Rightarrow> 's \<Rightarrow> key list"
  kv_mget :: "clock \<Rightarrow> 's \<Rightarrow> key list \<Rightarrow> value_entry option list"

text \<open>The default method \<open>is_empty\<close>.\<close>

definition kv_is_empty :: "'s kv_engine \<Rightarrow> 's \<Rightarrow> bool" where
  "kv_is_empty K s \<longleftrightarrow> kv_len K s = 0"

definition dashmap_engine :: "crates \<Rightarrow> 'm entries \<Rightarrow> 'm engine kv_engine" where
  "dashmap_engine X D =
     \<lparr>kv_get = engine_get D, kv_set = engine_set D, kv_del = engine_del D,
      kv_incr = engine_incr X D, kv_len = engine_len D, kv_exists = engine_exists D,
      kv_ttl_secs = engine_ttl_secs D, kv_expire = engine_expire D, kv_clear = engine_clear D,
      kv_keys = engine_keys D, kv_mget = engine_mget D\<rparr>"

end
