(* ===== verification/Engine_Spec.thy ===== *)
theory Engine_Spec
  imports Engine
begin

text \<open>
  The contract of the storage engine and the proof that the DashMap engine fulfils it.
  The abstraction of an engine state is its live view: at an instant \<open>t\<close>, the map from
  keys to the entries that have not expired at \<open>t\<close>. The locale \<open>kv_engine_spec\<close>
  states every operation of the trait as an operation on live views; lazy removal of
  expired entries is invisible in it. Only the number of keys that \<open>len\<close> returns depends on
  the expired entries that are still stored; the contract has the set of the stored keys for it. The locale \<open>zet_engine\<close> holds what the DashMap
  engine needs of its crates, and its \<open>sublocale\<close> declaration is the refinement proof
  for the engine without a key limit, which is the engine \<open>main\<close> creates.
\<close>

section \<open>The contract\<close>

definition live_at :: "value_entry \<Rightarrow> instant \<Rightarrow> value_entry option" where
  "live_at v t = (if is_expired_at v t then None else Some v)"

text \<open>The answer of TTL for a view's entry, from the reading \<open>now\<close>.\<close>

definition spec_ttl :: "value_entry option \<Rightarrow> instant \<Rightarrow> int" where
  "spec_ttl r now =
     (case r of None \<Rightarrow> -2
      | Some v \<Rightarrow> (case expires_at v of None \<Rightarrow> -1
                   | Some x \<Rightarrow> if x \<le> now then -2 else wrap_i64 (int (as_secs (x - now)))))"

text \<open>The answer and the new entry of INCR for a view's entry; \<open>c\<close> is the creation time.\<close>

definition spec_incr :: "key \<Rightarrow> value_entry option \<Rightarrow> instant \<Rightarrow> (engine_error + int) \<times> value_entry option" where
  "spec_incr k r c =
     (case r of None \<Rightarrow> (Inr 1, Some \<lparr>data = ''1'', expires_at = None, created_at = Some c\<rparr>)
      | Some v \<Rightarrow> (case parse_i64 (from_utf8_lossy (data v)) of
                     None \<Rightarrow> (Inl (NotAnInteger k), Some v)
                   | Some z \<Rightarrow> (Inr (wrap_i64 (z + 1)), Some (v\<lparr>data := show_int (wrap_i64 (z + 1))\<rparr>))))"

locale kv_engine_spec =
  fixes K :: "'s kv_engine"
    and ok :: "'s \<Rightarrow> bool"
    and view :: "'s \<Rightarrow> instant \<Rightarrow> key \<Rightarrow> value_entry option"
    and held :: "'s \<Rightarrow> key set"
  assumes view_later:
      "u \<le> t \<Longrightarrow> view s t k = Option.bind (view s u k) (\<lambda>v. live_at v t)"
    and get_law: "ok s \<Longrightarrow> mono clk \<Longrightarrow>
      \<exists>s'. kv_get K clk s k = (Inr (view s (clk 0) k), s') \<and> ok s' \<and>
           (\<forall>t \<ge> clk 0. view s' t = view s t)"
    and set_law: "ok s \<Longrightarrow>
      \<exists>s'. kv_set K clk s k v = (Inr (), s') \<and> ok s' \<and>
           (\<forall>t. view s' t = (view s t)(k := live_at v t))"
    and del_law: "ok s \<Longrightarrow>
      \<exists>s'. kv_del K clk s k = (Inr (view s (clk 0) k \<noteq> None), s') \<and> ok s' \<and>
           (\<forall>t \<ge> clk 0. view s' t = (view s t)(k := None))"
    and incr_law: "ok s \<Longrightarrow>
      \<exists>s' c. kv_incr K clk s k = Ret (fst (spec_incr k (view s (clk 0) k) c), s') \<and> ok s' \<and>
           (\<forall>t \<ge> clk 0. view s' t =
              (view s t)(k := Option.bind (snd (spec_incr k (view s (clk 0) k) c)) (\<lambda>v. live_at v t)))"
    and exists_law: "ok s \<Longrightarrow> mono clk \<Longrightarrow>
      \<exists>s'. kv_exists K clk s k = (view s (clk 0) k \<noteq> None, s') \<and> ok s' \<and>
           (\<forall>t \<ge> clk 0. view s' t = view s t)"
    and ttl_law: "ok s \<Longrightarrow> mono clk \<Longrightarrow>
      \<exists>s'. kv_ttl_secs K clk s k = (spec_ttl (view s (clk 0) k) (clk 1), s') \<and> ok s' \<and>
           (\<forall>t \<ge> clk 0. view s' t = view s t)"
    and expire_missing_law: "ok s \<Longrightarrow> mono clk \<Longrightarrow> view s (clk 0) k = None \<Longrightarrow>
      \<exists>s'. kv_expire K clk s k n = Ret (False, s') \<and> ok s' \<and> (\<forall>t \<ge> clk 0. view s' t = view s t)"
    and expire_law: "ok s \<Longrightarrow> view s (clk 0) k = Some v \<Longrightarrow>
      clk 1 + from_secs n \<le> instant_max \<Longrightarrow>
      \<exists>s'. kv_expire K clk s k n = Ret (True, s') \<and> ok s' \<and>
           (\<forall>t \<ge> clk 0. view s' t =
              (view s t)(k := live_at (v\<lparr>expires_at := Some (clk 1 + from_secs n)\<rparr>) t))"
    and expire_overflow_law: "ok s \<Longrightarrow> view s (clk 0) k = Some v \<Longrightarrow>
      instant_max < clk 1 + from_secs n \<Longrightarrow> kv_expire K clk s k n = Panic"
    and clear_law: "ok s \<Longrightarrow> ok (kv_clear K s) \<and> view (kv_clear K s) t = Map.empty"
    and keys_law: "ok s \<Longrightarrow>
      distinct (kv_keys K clk s) \<and> set (kv_keys K clk s) = dom (view s (clk 0))"
    and mget_law: "ok s \<Longrightarrow> kv_mget K clk s ks = map (view s (clk 0)) ks"
    and held_law: "ok s \<Longrightarrow> finite (held s) \<and> dom (view s t) \<subseteq> held s"
    and len_law: "ok s \<Longrightarrow> kv_len K s = card (held s)"
    and set_held_law: "ok s \<Longrightarrow> held (snd (kv_set K clk s k v)) = insert k (held s)"
    and clear_held_law: "ok s \<Longrightarrow> held (kv_clear K s) = {}"
begin

text \<open>What users of the contract derive from it, whatever the engine.\<close>

lemma get_after_set:
  assumes "ok s" and "kv_set K clk s k v = (r, s')" and "mono clk'"
    and "\<not> is_expired_at v (clk' 0)"
  shows "fst (kv_get K clk' s' k) = Inr (Some v)"
proof -
  from set_law [OF assms(1), of clk k v] assms(2)
  have s': "ok s'" "\<forall>t. view s' t = (view s t)(k := live_at v t)" by auto
  from get_law [OF s'(1) assms(3), of k] s'(2) assms(4)
  show ?thesis by (auto simp: live_at_def)
qed

lemma get_other_after_set:
  assumes "ok s" and "kv_set K clk s k v = (r, s')" and "mono clk'" and "k' \<noteq> k"
  shows "fst (kv_get K clk' s' k') = fst (kv_get K clk' s k')"
proof -
  from set_law [OF assms(1), of clk k v] assms(2)
  have s': "ok s'" "\<forall>t. view s' t = (view s t)(k := live_at v t)" by auto
  from get_law [OF s'(1) assms(3), of k'] get_law [OF assms(1,3), of k'] s'(2) assms(4)
  show ?thesis by auto
qed

lemma get_after_del:
  assumes "ok s" and "kv_del K clk s k = (r, s')" and "mono clk'" and "clk 0 \<le> clk' 0"
  shows "fst (kv_get K clk' s' k) = Inr None"
proof -
  from del_law [OF assms(1), of clk k] assms(2)
  have s': "ok s'" "\<forall>t \<ge> clk 0. view s' t = (view s t)(k := None)" by auto
  from get_law [OF s'(1) assms(3), of k] s'(2) assms(4)
  show ?thesis by auto
qed

lemma ttl_after_expire:
  assumes "ok s" and "kv_expire K clk s k n = Ret (True, s')" and "mono clk'"
    and "mono clk" and "clk 0 \<le> clk' 0" and "clk' 1 < clk 1 + from_secs n"
  shows "fst (kv_ttl_secs K clk' s' k) = wrap_i64 (int (as_secs (clk 1 + from_secs n - clk' 1)))"
proof -
  have "view s (clk 0) k \<noteq> None"
    using expire_missing_law [OF assms(1,4), of k n] assms(2) by auto
  then obtain v where v: "view s (clk 0) k = Some v" by blast
  have bound: "clk 1 + from_secs n \<le> instant_max"
    using expire_overflow_law [where s = s and clk = clk and k = k and v = v and n = n] assms(1,2) v
    by (cases "clk 1 + from_secs n \<le> instant_max") auto
  from expire_law [where s = s and clk = clk and k = k and v = v and n = n] assms(1,2) v bound
  have s': "ok s'" "\<forall>t \<ge> clk 0. view s' t =
      (view s t)(k := live_at (v\<lparr>expires_at := Some (clk 1 + from_secs n)\<rparr>) t)" by auto
  have "clk' 0 \<le> clk' 1" using assms(3) by (simp add: mono_def)
  with assms(6) have "view s' (clk' 0) k = Some (v\<lparr>expires_at := Some (clk 1 + from_secs n)\<rparr>)"
    using s'(2) assms(5) by (simp add: live_at_def is_expired_at_def)
  with ttl_law [OF s'(1) assms(3), of k] assms(6) show ?thesis
    by (auto simp: spec_ttl_def)
qed

end

section \<open>Live views of the DashMap engine\<close>

definition live :: "'m entries \<Rightarrow> 'm engine \<Rightarrow> instant \<Rightarrow> key \<Rightarrow> value_entry option" where
  "live D e t k = Option.bind (dm_get D (emap e) k) (\<lambda>v. live_at v t)"

text \<open>The keys of all entries in the map, the expired ones included.\<close>

definition stored :: "'m entries \<Rightarrow> 'm engine \<Rightarrow> key set" where
  "stored D e = dom (dm_get D (emap e))"

lemma live_at_later: "u \<le> t \<Longrightarrow> live_at v t = Option.bind (live_at v u) (\<lambda>v. live_at v t)"
  using is_expired_at_mono by (auto simp: live_at_def)

locale zet_engine = dashmap_spec D + crates_spec X
  for D :: "(key, value_entry, 'm) dashmap" and X :: crates
begin

lemma live_drop_if_expired:
  assumes "dm_get D (emap e) k = Some v" and "is_expired_at v s" and "s \<le> t"
  shows "live D (drop_if_expired D e k u) t = live D e t"
  using assms is_expired_at_mono [of v s t]
  by (auto simp: live_def drop_if_expired_def live_at_def fun_eq_iff split: option.splits)

lemma live_later: "u \<le> t \<Longrightarrow> live D e t k = Option.bind (live D e u k) (\<lambda>v. live_at v t)"
  by (cases "dm_get D (emap e) k") (auto simp: live_def intro: live_at_later)

lemma live_None_cases:
  assumes "live D e t k = None"
  obtains (absent) "dm_get D (emap e) k = None"
    | (expired) v where "dm_get D (emap e) k = Some v" and "is_expired_at v t"
  using assms by (auto simp: live_def live_at_def split: bind_splits if_splits)

lemma live_SomeD:
  "live D e t k = Some v \<Longrightarrow> dm_get D (emap e) k = Some v \<and> \<not> is_expired_at v t"
  by (auto simp: live_def live_at_def split: bind_splits if_splits)

lemma live_insert: "live D (e\<lparr>emap := dm_insert D (emap e) k v\<rparr>) t = (live D e t)(k := live_at v t)"
  by (auto simp: live_def fun_eq_iff)

lemma live_write: "live D (e\<lparr>emap := dm_write D (emap e) k v\<rparr>) t = (live D e t)(k := live_at v t)"
  by (auto simp: live_def fun_eq_iff)

lemma live_remove: "live D (e\<lparr>emap := dm_remove D (emap e) k\<rparr>) t = (live D e t)(k := None)"
  by (auto simp: live_def fun_eq_iff)

lemma max_keys_drop_if_expired [simp]: "max_keys (drop_if_expired D e k t) = max_keys e"
  by (simp add: drop_if_expired_def)

text \<open>The read operations: the view at the first reading, and no visible change.\<close>

lemma engine_get_law:
  "\<exists>e'. engine_get D clk e k = (Inr (live D e (clk 0) k), e') \<and> max_keys e' = max_keys e \<and>
        (\<forall>t \<ge> clk 0. live D e' t = live D e t)"
  using live_drop_if_expired [of e k _ "clk 0"]
  by (fastforce simp: engine_get_def live_def live_at_def split: option.splits)

lemma engine_exists_law:
  "\<exists>e'. engine_exists D clk e k = (live D e (clk 0) k \<noteq> None, e') \<and> max_keys e' = max_keys e \<and>
        (\<forall>t \<ge> clk 0. live D e' t = live D e t)"
  using live_drop_if_expired [of e k _ "clk 0"]
  by (fastforce simp: engine_exists_def live_def live_at_def split: option.splits)

lemma engine_ttl_law:
  "\<exists>e'. engine_ttl_secs D clk e k = (spec_ttl (live D e (clk 0) k) (clk 1), e') \<and>
        max_keys e' = max_keys e \<and> (\<forall>t \<ge> clk 0. live D e' t = live D e t)"
  using live_drop_if_expired [of e k _ "clk 0"]
  by (fastforce simp: engine_ttl_secs_def live_def live_at_def spec_ttl_def split: option.splits)

lemma engine_mget_law: "engine_mget D clk e ks = map (live D e (clk 0)) ks"
  by (auto simp: engine_mget_def live_def live_at_def split: option.splits)

lemma engine_keys_law:
  "distinct (engine_keys D clk e) \<and> set (engine_keys D clk e) = dom (live D e (clk 0))"
proof
  show "distinct (engine_keys D clk e)"
    unfolding engine_keys_def by (rule DAList.distinct_map_fst_filter) (rule iter_distinct)
  have "set (engine_keys D clk e) =
      {k. \<exists>v. (k, v) \<in> set (dm_iter D (emap e)) \<and> \<not> is_expired_at v (clk 0)}"
    by (force simp: engine_keys_def)
  also have "\<dots> = dom (live D e (clk 0))"
    by (auto simp: iter_iff live_def live_at_def split: bind_splits if_splits)
  finally show "set (engine_keys D clk e) = dom (live D e (clk 0))" .
qed

text \<open>The write operations.\<close>

lemma engine_set_unlimited:
  "max_keys e = 0 \<Longrightarrow> engine_set D clk e k v = (Inr (), e\<lparr>emap := dm_insert D (emap e) k v\<rparr>)"
  by (simp add: engine_set_def)

lemma engine_del_law:
  "\<exists>e'. engine_del D clk e k = (Inr (live D e (clk 0) k \<noteq> None), e') \<and> max_keys e' = max_keys e \<and>
        (\<forall>t \<ge> clk 0. live D e' t = (live D e t)(k := None))"
proof -
  obtain removed m where rm:
    "dm_remove_if D (emap e) k (\<lambda>v. \<not> is_expired_at v (clk 0)) = (removed, m)"
    by (cases "dm_remove_if D (emap e) k (\<lambda>v. \<not> is_expired_at v (clk 0))") auto
  have removed: "removed = live D e (clk 0) k"
    using remove_if [of "emap e" k "\<lambda>v. \<not> is_expired_at v (clk 0)"]
    by (auto simp: rm live_def live_at_def split: option.splits)
  have m: "dm_get D m = (if live D e (clk 0) k = None then dm_get D (emap e)
      else (dm_get D (emap e))(k := None))"
    using get_remove_if [of "emap e" k "\<lambda>v. \<not> is_expired_at v (clk 0)"]
    by (auto simp: rm live_def live_at_def split: bind_splits if_splits)
  have "live D (e\<lparr>emap := m\<rparr>) t = (live D e t)(k := None)" if t: "clk 0 \<le> t" for t
  proof (cases "live D e (clk 0) k")
    case None
    then have "live D e t k = None" using live_later [OF t, of e k] by simp
    moreover have "live D (e\<lparr>emap := m\<rparr>) t = live D e t"
      using m None by (simp add: live_def [abs_def])
    ultimately show ?thesis by (simp add: fun_upd_idem)
  next
    case (Some v)
    then show ?thesis using m by (auto simp: live_def fun_eq_iff)
  qed
  then show ?thesis by (auto simp: engine_del_def rm removed)
qed

lemma engine_expire_missing:
  "live D e (clk 0) k = None \<Longrightarrow>
     \<exists>e'. engine_expire D clk e k n = Ret (False, e') \<and> max_keys e' = max_keys e \<and>
          (\<forall>t \<ge> clk 0. live D e' t = live D e t)"
  using live_drop_if_expired [of e k _ "clk 0"]
  by (elim live_None_cases) (fastforce simp: engine_expire_def)+

lemma engine_expire_present:
  "live D e (clk 0) k = Some v \<Longrightarrow>
     engine_expire D clk e k n =
       obind (instant_add (clk 1) (from_secs n))
         (\<lambda>x. Ret (True, e\<lparr>emap := dm_write D (emap e) k (v\<lparr>expires_at := Some x\<rparr>)\<rparr>))"
  by (auto simp: engine_expire_def dest!: live_SomeD)

lemma engine_incr_expired_or_absent:
  assumes "max_keys e = 0" and "live D e (clk 0) k = None"
  shows "\<exists>e' c. engine_incr X D clk e k = Ret (Inr 1, e') \<and> c \<in> range clk \<and> max_keys e' = 0 \<and>
      (\<forall>t. live D e' t =
         (live D e t)(k \<mapsto> \<lparr>data = ''1'', expires_at = None, created_at = Some c\<rparr>))"
  using assms(2)
proof (cases rule: live_None_cases)
  case absent
  have "engine_incr X D clk e k =
      Ret (Inr 1, e\<lparr>emap := dm_insert D (emap e) k (value_entry_new clk ''1'')\<rparr>)"
    using absent assms(1) by (simp add: engine_incr_def)
  then show ?thesis
    using assms(1) by (auto simp: live_insert value_entry_new_def live_at_def)
next
  case (expired v)
  let ?e1 = "e\<lparr>emap := dm_remove D (emap e) k\<rparr>"
  have "engine_incr X D clk e k =
      Ret (Inr 1, ?e1\<lparr>emap := dm_insert D (emap ?e1) k (value_entry_new (later 1 clk) ''1'')\<rparr>)"
    using expired assms(1) by (simp add: engine_incr_def Let_def)
  moreover have "live D (?e1\<lparr>emap := dm_insert D (emap ?e1) k w\<rparr>) t = (live D e t)(k := live_at w t)" for w t
    unfolding live_insert live_remove by simp
  ultimately show ?thesis
    using assms(1) by (auto simp: value_entry_new_def live_at_def)
qed

lemma engine_incr_present:
  assumes "live D e (clk 0) k = Some v"
  shows "engine_incr X D clk e k =
    (case parse_i64 (from_utf8_lossy (data v)) of
       None \<Rightarrow> Ret (Inl (NotAnInteger k), e)
     | Some z \<Rightarrow> Ret (Inr (wrap_i64 (z + 1)),
         e\<lparr>emap := dm_write D (emap e) k (v\<lparr>data := show_int (wrap_i64 (z + 1))\<rparr>)\<rparr>))"
  using live_SomeD [OF assms] by (auto simp: engine_incr_def itoa_decimal Let_def split: option.splits)

lemma engine_incr_law:
  assumes "max_keys e = 0"
  shows "\<exists>e' c. engine_incr X D clk e k = Ret (fst (spec_incr k (live D e (clk 0) k) c), e') \<and>
      c \<in> range clk \<and> max_keys e' = 0 \<and>
      (\<forall>t \<ge> clk 0. live D e' t =
         (live D e t)(k := Option.bind (snd (spec_incr k (live D e (clk 0) k) c)) (\<lambda>v. live_at v t)))"
proof (cases "live D e (clk 0) k")
  case None
  from engine_incr_expired_or_absent [where e = e and clk = clk and k = k] assms None
  show ?thesis by (force simp: None spec_incr_def live_at_def)
next
  case (Some v)
  show ?thesis
  proof (cases "parse_i64 (from_utf8_lossy (data v))")
    case None
    have "live D e t k = live_at v t" if "clk 0 \<le> t" for t
      using live_later [OF that, of e k] Some by simp
    then show ?thesis
      using engine_incr_present [where e = e and clk = clk and k = k and v = v] None assms Some
      by (auto simp: Some spec_incr_def fun_eq_iff)
  next
    case (Some z)
    then show ?thesis
      using engine_incr_present [where e = e and clk = clk and k = k and v = v] assms
        \<open>live D e (clk 0) k = Some v\<close>
      by (auto simp: spec_incr_def live_write)
  qed
qed

lemma live_stored: "dom (live D e t) \<subseteq> stored D e"
  by (auto simp: live_def stored_def split: bind_splits)

lemma live_clear: "live D (engine_clear D e) t = Map.empty"
  by (auto simp: live_def engine_clear_def)

end

section \<open>Refinement\<close>

sublocale zet_engine \<subseteq> kv: kv_engine_spec "dashmap_engine X D" "\<lambda>e. max_keys e = 0" "live D" "stored D"
proof (unfold_locales, goal_cases)
  case (1 u t s k) then show ?case by (rule live_later)
next
  case (2 s clk k) then show ?case using engine_get_law [of clk s k] by (auto simp: dashmap_engine_def)
next
  case (3 s clk k v)
  then show ?case by (simp add: dashmap_engine_def engine_set_unlimited live_insert)
next
  case (4 s clk k) then show ?case using engine_del_law [of clk s k] by (auto simp: dashmap_engine_def)
next
  case (5 s clk k) then show ?case using engine_incr_law [of s clk k] by (auto simp: dashmap_engine_def)
next
  case (6 s clk k) then show ?case using engine_exists_law [of clk s k] by (auto simp: dashmap_engine_def)
next
  case (7 s clk k) then show ?case using engine_ttl_law [of clk s k] by (auto simp: dashmap_engine_def)
next
  case (8 s clk k n)
  then show ?case using engine_expire_missing [of s clk k n] by (auto simp: dashmap_engine_def)
next
  case (9 s clk k v n)
  then show ?case using engine_expire_present [of s clk k v n]
    by (auto simp: dashmap_engine_def live_write instant_add_def)
next
  case (10 s clk k v n)
  then show ?case using engine_expire_present [of s clk k v n]
    by (simp add: dashmap_engine_def instant_add_def)
next
  case (11 s t)
  then show ?case using live_clear by (simp add: dashmap_engine_def engine_clear_def)
next
  case (12 s clk) then show ?case using engine_keys_law by (simp add: dashmap_engine_def)
next
  case (13 s clk ks) then show ?case using engine_mget_law by (simp add: dashmap_engine_def)
next
  case (14 s t) then show ?case using finite_dom live_stored by (simp add: stored_def)
next
  case (15 s) then show ?case by (simp add: dashmap_engine_def engine_len_def len_card stored_def)
next
  case (16 s clk k v) then show ?case by (simp add: dashmap_engine_def engine_set_unlimited stored_def)
next
  case (17 s) then show ?case by (auto simp: dashmap_engine_def engine_clear_def stored_def)
qed

interpretation reference_engine: zet_engine alist_dashmap reference_crates
  by unfold_locales

end
