(* ===== verification/Metrics.thy ===== *)
theory Metrics
  imports Domain
begin

text \<open>
  The counters of \<open>src/src/observability/metrics.rs\<close>: global atomics, and per thread a set
  of local counters that are moved to the globals in batches of 64. All are \<open>u64\<close>, so
  they are 64-bit words here, and the arrays indexed by \<open>CommandType\<close> are functions. Each
  atomic operation is one step; a thread's own counters are touched by that thread only, so
  a run of the program is a sequence of the operations below, each tagged with its thread.
\<close>

section \<open>State\<close>

type_synonym u64 = "64 word"
type_synonym thread = nat

record local_counters =
  local_total :: u64
  local_by_type :: "command_type \<Rightarrow> u64"
  local_hits :: u64
  local_misses :: u64
  local_errors :: u64

record metrics =
  commands_total :: u64
  commands_by_type :: "command_type \<Rightarrow> u64"
  connections_total :: u64
  connections_active :: u64
  keyspace_hits :: u64
  keyspace_misses :: u64
  errors_total :: u64
  start_time :: instant
  locals :: "thread \<Rightarrow> local_counters"

definition flush_batch_size :: u64 where
  "flush_batch_size = 64"

definition local_counters_default :: local_counters where
  "local_counters_default =
     \<lparr>local_total = 0, local_by_type = (\<lambda>_. 0), local_hits = 0, local_misses = 0, local_errors = 0\<rparr>"

text \<open>The state after \<open>metrics()\<close> has initialised it, with the clock reading of that call.\<close>

definition metrics_init :: "instant \<Rightarrow> metrics" where
  "metrics_init now =
     \<lparr>commands_total = 0, commands_by_type = (\<lambda>_. 0), connections_total = 0, connections_active = 0,
      keyspace_hits = 0, keyspace_misses = 0, errors_total = 0, start_time = now,
      locals = (\<lambda>_. local_counters_default)\<rparr>"

section \<open>Operations\<close>

definition set_local :: "thread \<Rightarrow> local_counters \<Rightarrow> metrics \<Rightarrow> metrics" where
  "set_local i l m = m\<lparr>locals := (locals m)(i := l)\<rparr>"

definition record_command :: "thread \<Rightarrow> command_type \<Rightarrow> metrics \<Rightarrow> metrics" where
  "record_command i cmd m =
     (let l = locals m i;
          l = l\<lparr>local_total := local_total l + 1,
                local_by_type := (local_by_type l)(cmd := local_by_type l cmd + 1)\<rparr>
      in if local_total l mod flush_batch_size = 0 then
           set_local i
             (l\<lparr>local_total := local_total l - flush_batch_size,
                local_by_type := (local_by_type l)(cmd := local_by_type l cmd - flush_batch_size)\<rparr>)
             (m\<lparr>commands_total := commands_total m + flush_batch_size,
                commands_by_type := (commands_by_type m)(cmd := commands_by_type m cmd + flush_batch_size)\<rparr>)
         else set_local i l m)"

definition command_count :: "thread \<Rightarrow> command_type \<Rightarrow> metrics \<Rightarrow> u64" where
  "command_count i cmd m = commands_by_type m cmd + local_by_type (locals m i) cmd"

definition total_commands :: "thread \<Rightarrow> metrics \<Rightarrow> u64" where
  "total_commands i m = commands_total m + local_total (locals m i)"

definition uptime_secs :: "clock \<Rightarrow> metrics \<Rightarrow> nat" where
  "uptime_secs clk m = as_secs (clk 0 - start_time m)"

definition record_hit :: "thread \<Rightarrow> metrics \<Rightarrow> metrics" where
  "record_hit i m =
     (let l = locals m i; l = l\<lparr>local_hits := local_hits l + 1\<rparr>
      in if local_hits l mod flush_batch_size = 0 then
           set_local i (l\<lparr>local_hits := local_hits l - flush_batch_size\<rparr>)
             (m\<lparr>keyspace_hits := keyspace_hits m + flush_batch_size\<rparr>)
         else set_local i l m)"

definition record_miss :: "thread \<Rightarrow> metrics \<Rightarrow> metrics" where
  "record_miss i m =
     (let l = locals m i; l = l\<lparr>local_misses := local_misses l + 1\<rparr>
      in if local_misses l mod flush_batch_size = 0 then
           set_local i (l\<lparr>local_misses := local_misses l - flush_batch_size\<rparr>)
             (m\<lparr>keyspace_misses := keyspace_misses m + flush_batch_size\<rparr>)
         else set_local i l m)"

definition record_error :: "thread \<Rightarrow> metrics \<Rightarrow> metrics" where
  "record_error i m =
     (let l = locals m i; l = l\<lparr>local_errors := local_errors l + 1\<rparr>
      in if local_errors l mod flush_batch_size = 0 then
           set_local i (l\<lparr>local_errors := local_errors l - flush_batch_size\<rparr>)
             (m\<lparr>errors_total := errors_total m + flush_batch_size\<rparr>)
         else set_local i l m)"

definition connection_opened :: "metrics \<Rightarrow> metrics" where
  "connection_opened m =
     m\<lparr>connections_total := connections_total m + 1, connections_active := connections_active m + 1\<rparr>"

definition connection_closed :: "metrics \<Rightarrow> metrics" where
  "connection_closed m = m\<lparr>connections_active := connections_active m - 1\<rparr>"

text \<open>\<open>if local > 0 { global.fetch_add(local); local = 0 }\<close> for each counter.\<close>

definition flushed :: "u64 \<Rightarrow> u64 \<Rightarrow> u64" where
  "flushed g l = (if l > 0 then g + l else g)"

definition flush_all :: "thread \<Rightarrow> metrics \<Rightarrow> metrics" where
  "flush_all i m =
     (let l = locals m i in
      set_local i local_counters_default
        (m\<lparr>commands_total := flushed (commands_total m) (local_total l),
           keyspace_hits := flushed (keyspace_hits m) (local_hits l),
           keyspace_misses := flushed (keyspace_misses m) (local_misses l),
           errors_total := flushed (errors_total m) (local_errors l),
           commands_by_type := (\<lambda>t. flushed (commands_by_type m t) (local_by_type l t))\<rparr>))"

lemma flushed_add [simp]: "flushed g l = g + l"
  by (cases "l = 0") (auto simp: flushed_def word_neq_0_conv)

section \<open>Counting\<close>

datatype metric_event =
    Recorded thread command_type
  | Hit thread
  | Miss thread
  | Failed thread
  | Flushed thread
  | Opened
  | Closed

fun metric_step :: "metric_event \<Rightarrow> metrics \<Rightarrow> metrics" where
  "metric_step (Recorded i cmd) m = record_command i cmd m"
| "metric_step (Hit i) m = record_hit i m"
| "metric_step (Miss i) m = record_miss i m"
| "metric_step (Failed i) m = record_error i m"
| "metric_step (Flushed i) m = flush_all i m"
| "metric_step Opened m = connection_opened m"
| "metric_step Closed m = connection_closed m"

fun metric_run :: "metric_event list \<Rightarrow> metrics \<Rightarrow> metrics" where
  "metric_run [] m = m"
| "metric_run (e # es) m = metric_run es (metric_step e m)"

fun thread_of :: "metric_event \<Rightarrow> thread set" where
  "thread_of (Recorded i cmd) = {i}"
| "thread_of (Hit i) = {i}"
| "thread_of (Miss i) = {i}"
| "thread_of (Failed i) = {i}"
| "thread_of (Flushed i) = {i}"
| "thread_of _ = {}"

text \<open>A global counter with the threads' shares of it.\<close>

definition grand_total :: "thread set \<Rightarrow> (metrics \<Rightarrow> u64) \<Rightarrow> (local_counters \<Rightarrow> u64) \<Rightarrow> metrics \<Rightarrow> u64" where
  "grand_total T g l m = g m + (\<Sum>i \<in> T. l (locals m i))"

lemma set_local_globals [simp]:
  "commands_total (set_local i c m) = commands_total m"
  "commands_by_type (set_local i c m) = commands_by_type m"
  "keyspace_hits (set_local i c m) = keyspace_hits m"
  by (simp_all add: set_local_def)

lemma sum_set_local:
  fixes h :: "local_counters \<Rightarrow> u64"
  assumes "finite T" and "i \<in> T"
  shows "(\<Sum>j \<in> T. h (locals (set_local i c m) j)) = (\<Sum>j \<in> T. h (locals m j)) - h (locals m i) + h c"
proof -
  have "(\<Sum>j \<in> T - {i}. h (locals (set_local i c m) j)) = (\<Sum>j \<in> T - {i}. h (locals m j))"
    by (rule sum.cong) (auto simp: set_local_def)
  then show ?thesis
    using assms by (simp add: sum.remove [of T i] set_local_def)
qed

lemmas sum_set_locals =
  sum_set_local [where h = local_total] sum_set_local [where h = local_hits]
  sum_set_local [where h = "\<lambda>l. local_by_type l t" for t]

lemmas metric_op_defs = record_command_def record_hit_def record_miss_def record_error_def
  flush_all_def connection_opened_def connection_closed_def local_counters_default_def

lemma step_by_type:
  assumes "finite T" and "thread_of e \<subseteq> T"
  shows "grand_total T (\<lambda>m. commands_by_type m t) (\<lambda>l. local_by_type l t) (metric_step e m) =
           grand_total T (\<lambda>m. commands_by_type m t) (\<lambda>l. local_by_type l t) m +
             (if \<exists>i. e = Recorded i t then 1 else 0)"
  using assms
  by (cases e) (auto simp: grand_total_def metric_op_defs Let_def sum_set_locals)

lemma step_total:
  assumes "finite T" and "thread_of e \<subseteq> T"
  shows "grand_total T commands_total local_total (metric_step e m) =
           grand_total T commands_total local_total m +
             (if \<exists>i t. e = Recorded i t then 1 else 0)"
  using assms
  by (cases e) (auto simp: grand_total_def metric_op_defs Let_def sum_set_locals)

lemma step_hits:
  assumes "finite T" and "thread_of e \<subseteq> T"
  shows "grand_total T keyspace_hits local_hits (metric_step e m) =
           grand_total T keyspace_hits local_hits m + (if \<exists>i. e = Hit i then 1 else 0)"
  using assms
  by (cases e) (auto simp: grand_total_def metric_op_defs Let_def sum_set_locals)

lemma grand_total_run:
  assumes step: "\<And>e m. thread_of e \<subseteq> T \<Longrightarrow>
      grand_total T g l (metric_step e m) = grand_total T g l m + (if P e then 1 else 0)"
    and "\<forall>e \<in> set es. thread_of e \<subseteq> T"
  shows "grand_total T g l (metric_run es m) = grand_total T g l m + of_nat (length (filter P es))"
  using assms(2) by (induction es arbitrary: m) (auto simp: step)

lemma grand_total_init:
  "grand_total T (\<lambda>m. commands_by_type m t) (\<lambda>l. local_by_type l t) (metrics_init now) = 0"
  "grand_total T commands_total local_total (metrics_init now) = 0"
  "grand_total T keyspace_hits local_hits (metrics_init now) = 0"
  by (simp_all add: grand_total_def metrics_init_def local_counters_default_def)

text \<open>
  (C28) No count is lost or invented by the batching: after any interleaving of operations
  of any threads, the global counter of a command type plus the shares of all threads is
  the number of commands of that type, modulo $2^{64}$, although a batch credits all of
  its 64 commands to the type of the last one; likewise for all commands and for hits.
\<close>

theorem metrics_count_commands:
  assumes "finite T" and "\<forall>e \<in> set es. thread_of e \<subseteq> T"
  shows "grand_total T (\<lambda>m. commands_by_type m t) (\<lambda>l. local_by_type l t) (metric_run es (metrics_init now)) =
           of_nat (length (filter (\<lambda>e. \<exists>i. e = Recorded i t) es)) \<and>
         grand_total T commands_total local_total (metric_run es (metrics_init now)) =
           of_nat (length (filter (\<lambda>e. \<exists>i t. e = Recorded i t) es)) \<and>
         grand_total T keyspace_hits local_hits (metric_run es (metrics_init now)) =
           of_nat (length (filter (\<lambda>e. \<exists>i. e = Hit i) es))"
  using grand_total_run [OF step_by_type [OF assms(1)] assms(2), where m = "metrics_init now"]
    grand_total_run [OF step_total [OF assms(1)] assms(2), where m = "metrics_init now"]
    grand_total_run [OF step_hits [OF assms(1)] assms(2), where m = "metrics_init now"]
  by (simp add: grand_total_init)

definition demo_events :: "metric_event list" where
  "demo_events = [Recorded 0 TGet, Recorded 1 TGet, Hit 1, Flushed 1, Recorded 1 TSet]"

theorem metrics_count_commands_witness:
  "grand_total {0, 1} (\<lambda>m. commands_by_type m TGet) (\<lambda>l. local_by_type l TGet)
     (metric_run demo_events (metrics_init 0)) = 2 \<and>
   grand_total {0, 1} commands_total local_total (metric_run demo_events (metrics_init 0)) = 3 \<and>
   grand_total {0, 1} keyspace_hits local_hits (metric_run demo_events (metrics_init 0)) = 1"
  using metrics_count_commands [of "{0, 1}" demo_events TGet 0]
  by (simp add: demo_events_def)

text \<open>
  The batch credits the type of its last command: with 63 reads followed by a write, the
  global counters of another thread show 64 writes, and the thread's own share of writes
  is \<open>-63\<close> as a \<open>u64\<close>.
\<close>

lemma record_command_batch:
  assumes "local_total (locals m i) = 63"
  shows "commands_by_type (record_command i t m) = (commands_by_type m)(t := commands_by_type m t + 64)"
    and "local_by_type (locals (record_command i t m) i) t = local_by_type (locals m i) t - 63"
  using assms by (simp_all add: record_command_def Let_def set_local_def flush_batch_size_def)

end
