(* ===== verification/Response.thy ===== *)
theory Response
  imports Domain
begin

text \<open>
  The replies of the server (\<open>src/src/protocol/response.rs\<close>) and their wire formats: the
  inline format answers a value as a simple string, the RESP format as a bulk string; the
  legacy \<open>serialize\<close> builds a \<open>String\<close> in the inline format. Below them, what a client
  reads: a RESP reply reader, stated independently of the writer, recovers every reply but
  the errors whose text breaks the line.
\<close>

section \<open>Replies and their wire formats\<close>

datatype response_error =
    UnknownCommand bytes
  | SyntaxError bytes
  | TypeError bytes
  | NotFound bytes
  | InternalError bytes

datatype response =
    Pong
  | Ok
  | Value "bytes option"
  | Integer int
  | Error response_error
  | Array "bytes option list"

fun is_success :: "response \<Rightarrow> bool" where
  "is_success (Error e) = False"
| "is_success _ = True"

definition crlf :: bytes where
  "crlf = [CHR 0x0D, CHR 0x0A]"

definition null_bulk :: bytes where
  "null_bulk = ''$-1'' @ crlf"

fun write_error :: "response_error \<Rightarrow> bytes" where
  "write_error (UnknownCommand cmd) = ''-ERR unknown command '' @ [CHR 0x27] @ cmd @ [CHR 0x27] @ crlf"
| "write_error (SyntaxError msg) = ''-ERR syntax: '' @ msg @ crlf"
| "write_error (TypeError msg) = ''-ERR type: '' @ msg @ crlf"
| "write_error (NotFound k) = ''-ERR not found: '' @ k @ crlf"
| "write_error (InternalError msg) = ''-ERR internal: '' @ msg @ crlf"

definition write_bulk :: "crates \<Rightarrow> bytes option \<Rightarrow> bytes" where
  "write_bulk X item =
     (case item of
        Some d \<Rightarrow> ''$'' @ itoa X (int (length d)) @ crlf @ d @ crlf
      | None \<Rightarrow> null_bulk)"

definition write_array :: "crates \<Rightarrow> bytes option list \<Rightarrow> bytes" where
  "write_array X items =
     ''*'' @ itoa X (int (length items)) @ crlf @ concat (map (write_bulk X) items)"

text \<open>The bytes that \<open>write_to_impl\<close> appends to the buffer, and the buffer after it.\<close>

fun response_bytes :: "crates \<Rightarrow> bool \<Rightarrow> response \<Rightarrow> bytes" where
  "response_bytes X resp_mode Pong = ''+PONG'' @ crlf"
| "response_bytes X resp_mode Ok = ''+OK'' @ crlf"
| "response_bytes X resp_mode (Value (Some d)) =
     (if resp_mode then write_bulk X (Some d) else ''+'' @ d @ crlf)"
| "response_bytes X resp_mode (Value None) = null_bulk"
| "response_bytes X resp_mode (Integer n) = '':'' @ itoa X n @ crlf"
| "response_bytes X resp_mode (Error e) = write_error e"
| "response_bytes X resp_mode (Array items) = write_array X items"

definition write_to_impl :: "crates \<Rightarrow> response \<Rightarrow> bytes \<Rightarrow> bool \<Rightarrow> bytes" where
  "write_to_impl X r buf resp_mode = buf @ response_bytes X resp_mode r"

definition write_to :: "crates \<Rightarrow> response \<Rightarrow> bytes \<Rightarrow> bytes" where
  "write_to X r buf = write_to_impl X r buf False"

definition write_to_resp :: "crates \<Rightarrow> response \<Rightarrow> bytes \<Rightarrow> bytes" where
  "write_to_resp X r buf = write_to_impl X r buf True"

lemmas write_defs = write_to_def write_to_resp_def write_to_impl_def

text \<open>\<open>serialize\<close> formats with \<open>Display\<close> and replaces ill-formed UTF-8.\<close>

fun serialize_item :: "bytes option \<Rightarrow> bytes" where
  "serialize_item (Some d) = ''$'' @ show_nat (length d) @ crlf @ from_utf8_lossy d @ crlf"
| "serialize_item None = null_bulk"

fun serialize :: "response \<Rightarrow> bytes" where
  "serialize Pong = ''+PONG'' @ crlf"
| "serialize Ok = ''+OK'' @ crlf"
| "serialize (Value (Some d)) = ''+'' @ from_utf8_lossy d @ crlf"
| "serialize (Value None) = null_bulk"
| "serialize (Integer n) = '':'' @ show_int n @ crlf"
| "serialize (Error e) = write_error e"
| "serialize (Array items) =
     ''*'' @ show_nat (length items) @ crlf @ concat (map serialize_item items)"

fun utf8_reply :: "response \<Rightarrow> bool" where
  "utf8_reply (Value (Some d)) = valid_utf8 d"
| "utf8_reply (Array items) = list_all (\<lambda>i. case i of None \<Rightarrow> True | Some d \<Rightarrow> valid_utf8 d) items"
| "utf8_reply _ = True"

lemma show_int_of_nat [simp]: "show_int (int n) = show_nat n"
  by (simp add: show_int_def)

context crates_spec
begin

lemma serialize_item_eq:
  "(case i of None \<Rightarrow> True | Some d \<Rightarrow> valid_utf8 d) \<Longrightarrow> serialize_item i = write_bulk X i"
  by (cases i) (auto simp: write_bulk_def itoa_decimal from_utf8_lossy_valid)

lemma serialize_eq_write_to:
  assumes "utf8_reply r"
  shows "serialize r = write_to X r []"
proof (cases r)
  case (Value v)
  with assms show ?thesis by (cases v) (auto simp: write_defs from_utf8_lossy_valid)
next
  case (Array items)
  with assms have "map serialize_item items = map (write_bulk X) items"
    by (auto simp: list_all_iff serialize_item_eq)
  with Array show ?thesis by (simp add: write_defs write_array_def itoa_decimal del: map_eq_conv)
qed (simp_all add: write_defs itoa_decimal)

end

section \<open>What a client reads\<close>

text \<open>
  A reader of RESP replies: it takes one line up to CRLF, and for a bulk string the
  announced number of bytes and their CRLF. It knows nothing of the writer above.
\<close>

datatype reply =
    Simple_Reply bytes
  | Error_Reply bytes
  | Int_Reply int
  | Bulk_Reply "bytes option"
  | Array_Reply "bytes option list"

fun cut_reply_line :: "bytes \<Rightarrow> (bytes \<times> bytes) option" where
  "cut_reply_line [] = None"
| "cut_reply_line [b] = None"
| "cut_reply_line (b # c # cs) =
     (if b = CHR 0x0D \<and> c = CHR 0x0A then Some ([], cs)
      else map_option (\<lambda>(l, r). (b # l, r)) (cut_reply_line (c # cs)))"

definition read_bulk_item :: "bytes \<Rightarrow> (bytes option \<times> bytes) option" where
  "read_bulk_item bs =
     (case cut_reply_line bs of
        None \<Rightarrow> None
      | Some (line, rest) \<Rightarrow>
          (case line of
             [] \<Rightarrow> None
           | c # num \<Rightarrow>
               if c \<noteq> CHR ''$'' then None
               else case parse_i64 num of
                 None \<Rightarrow> None
               | Some n \<Rightarrow>
                   if n = -1 then Some (None, rest)
                   else if n < 0 \<or> length rest < nat n + 2 then None
                   else Some (Some (take (nat n) rest), drop (nat n + 2) rest)))"

fun read_items :: "nat \<Rightarrow> bytes \<Rightarrow> (bytes option list \<times> bytes) option" where
  "read_items 0 bs = Some ([], bs)"
| "read_items (Suc n) bs =
     (case read_bulk_item bs of
        None \<Rightarrow> None
      | Some (i, rest) \<Rightarrow> map_option (\<lambda>(is, r). (i # is, r)) (read_items n rest))"

definition read_reply :: "bytes \<Rightarrow> (reply \<times> bytes) option" where
  "read_reply bs =
     (case bs of
        [] \<Rightarrow> None
      | c # cs \<Rightarrow>
          if c = CHR ''+'' then map_option (\<lambda>(l, r). (Simple_Reply l, r)) (cut_reply_line cs)
          else if c = CHR ''-'' then map_option (\<lambda>(l, r). (Error_Reply l, r)) (cut_reply_line cs)
          else if c = CHR '':'' then
            (case cut_reply_line cs of None \<Rightarrow> None
             | Some (l, r) \<Rightarrow> map_option (\<lambda>z. (Int_Reply z, r)) (parse_i64 l))
          else if c = CHR ''$'' then map_option (\<lambda>(i, r). (Bulk_Reply i, r)) (read_bulk_item bs)
          else if c = CHR ''*'' then
            (case cut_reply_line cs of None \<Rightarrow> None
             | Some (l, r) \<Rightarrow>
                 (case parse_i64 l of None \<Rightarrow> None
                  | Some z \<Rightarrow> map_option (\<lambda>(is, r'). (Array_Reply is, r')) (read_items (nat z) r)))
          else None)"

text \<open>The error line without its leading minus sign and its CRLF.\<close>

definition error_line :: "response_error \<Rightarrow> bytes" where
  "error_line e = butlast (butlast (tl (write_error e)))"

fun reply_of :: "response \<Rightarrow> reply" where
  "reply_of Pong = Simple_Reply ''PONG''"
| "reply_of Ok = Simple_Reply ''OK''"
| "reply_of (Value v) = Bulk_Reply v"
| "reply_of (Integer n) = Int_Reply n"
| "reply_of (Error e) = Error_Reply (error_line e)"
| "reply_of (Array items) = Array_Reply items"

fun error_text :: "response_error \<Rightarrow> bytes" where
  "error_text (UnknownCommand t) = t"
| "error_text (SyntaxError t) = t"
| "error_text (TypeError t) = t"
| "error_text (NotFound t) = t"
| "error_text (InternalError t) = t"

text \<open>
  Replies whose lengths and numbers fit an \<open>i64\<close>, as those of the server do. Values and
  error texts are arbitrary bytes.
\<close>

fun short_item :: "bytes option \<Rightarrow> bool" where
  "short_item None = True"
| "short_item (Some d) = (length d < 2 ^ 63)"

fun sized_reply :: "response \<Rightarrow> bool" where
  "sized_reply (Value v) = short_item v"
| "sized_reply (Integer n) = in_i64 n"
| "sized_reply (Array items) = (length items < 2 ^ 63 \<and> list_all short_item items)"
| "sized_reply _ = True"

text \<open>The replies with a line break in the text of an error, which is written as it is.\<close>

fun has_crlf :: "bytes \<Rightarrow> bool" where
  "has_crlf (b # c # cs) = (b = CHR 0x0D \<and> c = CHR 0x0A \<or> has_crlf (c # cs))"
| "has_crlf _ = False"

fun breaks_line :: "response \<Rightarrow> bool" where
  "breaks_line (Error e) = has_crlf (error_text e)"
| "breaks_line _ = False"

lemma has_crlf_append_left: "has_crlf l \<Longrightarrow> has_crlf (l @ l')"
  by (induction l rule: has_crlf.induct) auto

lemma has_crlf_append_right: "has_crlf l' \<Longrightarrow> has_crlf (l @ l')"
proof (induction l)
  case (Cons b l)
  then show ?case by (cases "l @ l'") auto
qed simp

lemma no_cr_has_crlf: "CHR 0x0D \<notin> set l \<Longrightarrow> \<not> has_crlf l"
  by (induction l rule: has_crlf.induct) auto

lemma has_crlf_split: "has_crlf l \<Longrightarrow> \<exists>l1 l2. l = l1 @ crlf @ l2 \<and> \<not> has_crlf l1"
proof (induction l rule: has_crlf.induct)
  case (1 b c cs)
  show ?case
  proof (cases "b = CHR 0x0D \<and> c = CHR 0x0A")
    case True
    then show ?thesis by (intro exI [of _ "[]"] exI [of _ cs]) (simp add: crlf_def)
  next
    case False
    with 1 obtain l1 l2 where l: "c # cs = l1 @ crlf @ l2" "\<not> has_crlf l1" by auto
    from False l have "\<not> has_crlf (b # l1)" by (cases l1) (auto simp: crlf_def)
    with l(1) show ?thesis by (intro exI [of _ "b # l1"] exI [of _ l2]) simp
  qed
qed simp_all

lemma cut_reply_line_no_crlf: "\<not> has_crlf l \<Longrightarrow> cut_reply_line (l @ crlf @ rest) = Some (l, rest)"
  by (induction l rule: has_crlf.induct) (auto simp: crlf_def)

lemmas cut_reply_line_crlf = cut_reply_line_no_crlf [OF no_cr_has_crlf]

text \<open>A line that holds a line break is cut there.\<close>

lemma cut_reply_line_has_crlf:
  assumes "has_crlf l"
  shows "\<exists>l1 l2. l = l1 @ crlf @ l2 \<and> cut_reply_line (l @ rest) = Some (l1, l2 @ rest)"
  using has_crlf_split [OF assms] cut_reply_line_no_crlf by fastforce

lemma no_cr_show_nat [simp]: "CHR 0x0D \<notin> set (show_nat n)"
  using show_nat_digits [of n] by (auto simp: is_ascii_digit_def)

lemma no_cr_show_int [simp]: "CHR 0x0D \<notin> set (show_int z)"
  by (simp add: show_int_def)

lemma write_error_line: "write_error e = ''-'' @ error_line e @ crlf"
  by (cases e) (simp_all add: error_line_def crlf_def butlast_append)

text \<open>The text of an error stands between words without line breaks.\<close>

lemma error_line_text: "\<exists>pre. error_line e = pre @ error_text e \<and> CHR 0x0D \<notin> set pre \<or>
    error_line e = pre @ error_text e @ [CHR 0x27] \<and> CHR 0x0D \<notin> set pre"
  by (cases e) (force simp: error_line_def crlf_def butlast_append)+

lemma has_crlf_around:
  assumes "CHR 0x0D \<notin> set pre"
  shows "has_crlf (pre @ l) \<longleftrightarrow> has_crlf l" and "has_crlf (l @ [CHR 0x27]) \<longleftrightarrow> has_crlf l"
proof -
  have "has_crlf (pre @ l) \<Longrightarrow> has_crlf l"
    using assms
  proof (induction pre)
    case (Cons b pre)
    then show ?case by (cases "pre @ l") auto
  qed simp
  then show "has_crlf (pre @ l) \<longleftrightarrow> has_crlf l" using has_crlf_append_right by blast
  have "has_crlf (l @ [CHR 0x27]) \<Longrightarrow> has_crlf l" by (induction l rule: has_crlf.induct) auto
  then show "has_crlf (l @ [CHR 0x27]) \<longleftrightarrow> has_crlf l" using has_crlf_append_left by blast
qed

lemma has_crlf_error_line: "has_crlf (error_line e) \<longleftrightarrow> has_crlf (error_text e)"
  using error_line_text [of e] has_crlf_around by fastforce

lemma in_i64_int: "n < 2 ^ 63 \<Longrightarrow> in_i64 (int n)"
  by (simp add: in_i64_def)

context crates_spec
begin

lemma read_bulk_item_write:
  assumes "short_item i"
  shows "read_bulk_item (write_bulk X i @ rest) = Some (i, rest)"
proof (cases i)
  case None
  have "cut_reply_line ((''$-1'' :: bytes) @ crlf @ rest) = Some (''$-1'', rest)"
    by (rule cut_reply_line_crlf) simp
  moreover have "parse_i64 ''-1'' = Some (-1)" by code_simp
  ultimately show ?thesis using None by (simp add: read_bulk_item_def write_bulk_def null_bulk_def)
next
  case (Some d)
  let ?n = "show_int (int (length d))"
  have "cut_reply_line ((''$'' @ ?n) @ crlf @ (d @ crlf @ rest)) = Some (''$'' @ ?n, d @ crlf @ rest)"
    by (rule cut_reply_line_crlf) simp
  moreover have "parse_i64 ?n = Some (int (length d))"
    using assms Some by (intro parse_i64_show_int in_i64_int) simp
  ultimately show ?thesis
    using Some by (simp add: read_bulk_item_def write_bulk_def itoa_decimal crlf_def)
qed

lemma read_items_write:
  assumes "list_all short_item items"
  shows "read_items (length items) (concat (map (write_bulk X) items) @ rest) = Some (items, rest)"
  using assms by (induction items) (simp_all add: read_bulk_item_write)

lemma read_reply_write_error:
  assumes "\<not> has_crlf (error_line e)"
  shows "read_reply (write_error e @ rest) = Some (Error_Reply (error_line e), rest)"
  using assms by (simp add: write_error_line read_reply_def cut_reply_line_no_crlf)

lemma read_reply_write_array:
  assumes "sized_reply (Array items)"
  shows "read_reply (write_array X items @ rest) = Some (Array_Reply items, rest)"
proof -
  have "parse_i64 (show_nat (length items)) = Some (int (length items))"
    using parse_i64_show_int [OF in_i64_int, of "length items"] assms by simp
  then show ?thesis
    using assms cut_reply_line_crlf [of "show_nat (length items)"]
    by (simp add: read_reply_def write_array_def itoa_decimal read_items_write)
qed

lemma read_reply_write_to_resp:
  assumes "sized_reply r" and "\<not> breaks_line r"
  shows "read_reply (write_to_resp X r [] @ rest) = Some (reply_of r, rest)"
proof (cases r)
  case Pong
  then show ?thesis using cut_reply_line_crlf [of "''PONG''" rest] by (simp add: write_defs read_reply_def)
next
  case Ok
  then show ?thesis using cut_reply_line_crlf [of "''OK''" rest] by (simp add: write_defs read_reply_def)
next
  case (Value v)
  have "\<exists>cs. write_bulk X v = CHR ''$'' # cs" by (cases v) (auto simp: write_bulk_def null_bulk_def)
  then obtain cs where "write_bulk X v = CHR ''$'' # cs" ..
  moreover have "response_bytes X True (Value v) = write_bulk X v"
    by (cases v) (simp_all add: write_bulk_def)
  moreover have "read_bulk_item (write_bulk X v @ rest) = Some (v, rest)"
    using assms Value by (intro read_bulk_item_write) auto
  ultimately show ?thesis using Value by (simp add: write_defs read_reply_def)
next
  case (Integer n)
  then show ?thesis
    using assms cut_reply_line_crlf [of "show_int n" rest]
    by (simp add: write_defs read_reply_def itoa_decimal parse_i64_show_int)
next
  case (Error e)
  then show ?thesis using assms by (simp add: write_defs read_reply_write_error has_crlf_error_line)
next
  case (Array items)
  then show ?thesis using assms by (simp add: write_defs read_reply_write_array)
qed

end

text \<open>An error whose text breaks the line is cut short, and its rest is read as more replies.\<close>

lemma read_reply_broken_error:
  assumes "has_crlf (error_text e)"
  shows "\<exists>l1 l2. error_line e = l1 @ crlf @ l2 \<and>
    read_reply (write_error e @ rest) = Some (Error_Reply l1, l2 @ crlf @ rest)"
proof -
  have "has_crlf (error_line e)" using assms by (simp add: has_crlf_error_line)
  from cut_reply_line_has_crlf [OF this, of "crlf @ rest"] show ?thesis
    by (auto simp: write_error_line [of e] read_reply_def)
qed

text \<open>
  (C20) A client that reads the stream of RESP replies gets a reply exactly as it was sent,
  and the bytes after it, unless the reply is an error whose text contains CRLF. Values and
  array elements are binary safe, an empty value differs from a missing one, and consecutive
  replies stay apart. The texts of errors are not escaped: with CRLF inside, the client reads
  a shorter error and takes what follows for other replies.
\<close>

theorem write_to_resp_read_back:
  assumes "crates_spec X" and "sized_reply r"
  shows "read_reply (write_to_resp X r [] @ rest) = Some (reply_of r, rest) \<longleftrightarrow> \<not> breaks_line r"
proof (cases "breaks_line r")
  case True
  then obtain e where e: "r = Error e" "has_crlf (error_text e)" by (cases r) auto
  from read_reply_broken_error [OF e(2), of rest] obtain l1 l2 where
    "error_line e = l1 @ crlf @ l2" "read_reply (write_error e @ rest) = Some (Error_Reply l1, l2 @ crlf @ rest)"
    by blast
  with e True show ?thesis by (simp add: write_defs crlf_def)
qed (use crates_spec.read_reply_write_to_resp [OF assms] in simp)

theorem write_to_resp_read_back_witness:
  "read_reply (write_to_resp reference_crates (Array [Some [CHR 0x0D, CHR 0x0A], None, Some []]) [] @ ''+OK'')
     = Some (Array_Reply [Some [CHR 0x0D, CHR 0x0A], None, Some []], ''+OK'')"
  using write_to_resp_read_back [OF reference_crates.crates_spec_axioms,
      of "Array [Some [CHR 0x0D, CHR 0x0A], None, Some []]" "''+OK''"]
  by simp

text \<open>
  The two serializers agree: on replies whose payloads are UTF-8, the legacy
  \<open>serialize\<close> produces the bytes that \<open>write_to\<close> appends.
\<close>

theorem serialize_agrees_with_write_to:
  assumes "crates_spec X" and "utf8_reply r"
  shows "write_to X r buf = buf @ serialize r"
  using crates_spec.serialize_eq_write_to [OF assms] by (simp add: write_defs)

theorem serialize_agrees_with_write_to_witness:
  "write_to reference_crates (Array [Some ''abc'', None]) ''x'' = ''x'' @ serialize (Array [Some ''abc'', None])"
  by (rule serialize_agrees_with_write_to [OF reference_crates.crates_spec_axioms]) code_simp

end
