(* ===== verification/Parser.thy ===== *)
theory Parser
  imports Response
begin

text \<open>
  The parser of the protocol (\<open>src/src/protocol/parser.rs\<close>): inline command lines,
  RESP arrays of bulk strings, and the choice between them for one frame at the front of
  the connection buffer. No function here can panic: every subslice is behind a range check,
  so the results are values of the source's \<open>Result\<close>, with \<open>Inl\<close> the error.
\<close>

section \<open>Results\<close>

datatype parse_error =
    PE_EmptyCommand
  | PE_UnknownCommand bytes
  | PE_SyntaxError bytes

datatype frame_result =
    Complete nat command
  | Incomplete
  | Skip nat

section \<open>Byte helpers\<close>

definition is_whitespace :: "byte \<Rightarrow> bool" where
  "is_whitespace b \<longleftrightarrow> b = CHR '' '' \<or> b = CHR 0x09 \<or> b = CHR 0x0D \<or> b = CHR 0x0A"

definition trim :: "bytes \<Rightarrow> bytes" where
  "trim buf = rev (dropWhile is_whitespace (rev (dropWhile is_whitespace buf)))"

definition split_first_word :: "bytes \<Rightarrow> bytes \<times> bytes" where
  "split_first_word buf =
     (takeWhile (\<lambda>b. \<not> is_whitespace b) buf, dropWhile (\<lambda>b. \<not> is_whitespace b) buf)"

definition eq_ignore_ascii_case :: "bytes \<Rightarrow> bytes \<Rightarrow> bool" where
  "eq_ignore_ascii_case a b \<longleftrightarrow> length a = length b \<and> list_all2 byte_eq_ignore_case a b"

text \<open>\<open>b as char\<close> formatted: bytes from 128 on are Latin-1 code points, two bytes of UTF-8.\<close>

definition latin1_char :: "byte \<Rightarrow> bytes" where
  "latin1_char b =
     (let n = (of_char b :: nat)
      in if n < 128 then [b] else [char_of (192 + n div 64), char_of (128 + n mod 64)])"

definition quoted :: "bytes \<Rightarrow> bytes" where
  "quoted t = [CHR 0x27] @ t @ [CHR 0x27]"

lemma length_trim: "length (trim buf) \<le> length buf"
proof -
  have "length (trim buf) \<le> length (dropWhile is_whitespace buf)"
    by (simp add: trim_def) (metis length_dropWhile_le length_rev)
  also have "\<dots> \<le> length buf" by (rule length_dropWhile_le)
  finally show ?thesis .
qed

lemma hd_trim: "trim buf \<noteq> [] \<Longrightarrow> \<not> is_whitespace (hd (trim buf))"
proof -
  let ?d = "dropWhile is_whitespace buf"
  assume ne: "trim buf \<noteq> []"
  obtain ws where ws: "?d = trim buf @ ws"
    by (metis trim_def rev_append rev_rev_ident takeWhile_dropWhile_id)
  with ne have "?d \<noteq> []" and "hd ?d = hd (trim buf)" by auto
  then show ?thesis by (metis hd_dropWhile)
qed

lemma split_trim_shorter:
  assumes "trim buf \<noteq> []" and "split_first_word (trim buf) = (w, rest)"
  shows "w \<noteq> []" and "length rest < length buf"
proof -
  obtain c cs where c: "trim buf = c # cs" "\<not> is_whitespace c"
    using assms(1) hd_trim [OF assms(1)] by (cases "trim buf") auto
  then show "w \<noteq> []" using assms(2) by (auto simp: split_first_word_def)
  have "length rest \<le> length cs"
    using assms(2) c by (auto simp: split_first_word_def length_dropWhile_le)
  then show "length rest < length buf"
    using length_trim [of buf] c(1) by simp
qed

lemma split_first_word_shorter: "length (snd (split_first_word buf)) \<le> length buf"
  by (simp add: split_first_word_def length_dropWhile_le)

section \<open>Inline commands\<close>

definition one_key_usage :: "bytes \<Rightarrow> bytes" where
  "one_key_usage name = name @ '' requires exactly 1 argument: '' @ name @ '' <key>''"

definition parse_get_bytes :: "bytes \<Rightarrow> parse_error + command" where
  "parse_get_bytes rest =
     (let rest = trim rest in
      if rest = [] then Inl (PE_SyntaxError (one_key_usage ''GET''))
      else let (key, trailing) = split_first_word rest; trailing = trim trailing in
        if trailing \<noteq> [] then Inl (PE_SyntaxError (one_key_usage ''GET''))
        else Inr (CGet (bytes_to_string key)))"

text \<open>The optional suffix of SET: \<open>EX\<close> seconds or \<open>PX\<close> milliseconds.\<close>

definition parse_ttl_option :: "bytes \<Rightarrow> parse_error + duration option" where
  "parse_ttl_option inp =
     (let (opt, rest) = split_first_word inp; rest = trim rest in
      if eq_ignore_ascii_case opt ''EX'' then
        (let (val, trailing) = split_first_word rest; trailing = trim trailing in
         if trailing \<noteq> [] then Inl (PE_SyntaxError ''SET EX: unexpected extra arguments'')
         else case parse_u64 (bytes_to_string val) of
             None \<Rightarrow> Inl (PE_SyntaxError ''SET EX: expected integer seconds'')
           | Some secs \<Rightarrow> Inr (Some (from_secs secs)))
      else if eq_ignore_ascii_case opt ''PX'' then
        (let (val, trailing) = split_first_word rest; trailing = trim trailing in
         if trailing \<noteq> [] then Inl (PE_SyntaxError ''SET PX: unexpected extra arguments'')
         else case parse_u64 (bytes_to_string val) of
             None \<Rightarrow> Inl (PE_SyntaxError ''SET PX: expected integer milliseconds'')
           | Some millis \<Rightarrow> Inr (Some (from_millis millis)))
      else Inl (PE_SyntaxError (''SET: unknown option '' @ quoted (from_utf8_lossy opt))))"

definition set_usage :: bytes where
  "set_usage = ''SET requires at least 2 arguments: SET <key> <value> [EX seconds | PX millis]''"

definition parse_set_bytes :: "bytes \<Rightarrow> parse_error + command" where
  "parse_set_bytes rest =
     (let rest = trim rest in
      if rest = [] then Inl (PE_SyntaxError set_usage)
      else let (key, rest) = split_first_word rest in
      if key = [] then Inl (PE_SyntaxError set_usage)
      else let rest = trim rest in
      if rest = [] then Inl (PE_SyntaxError set_usage)
      else let (val, rest) = split_first_word rest; trailing = trim rest in
      case (if trailing \<noteq> [] then parse_ttl_option trailing else Inr None) of
        Inl e \<Rightarrow> Inl e
      | Inr ttl \<Rightarrow> Inr (CSet (bytes_to_string key) val ttl))"

definition parse_del_bytes :: "bytes \<Rightarrow> parse_error + command" where
  "parse_del_bytes rest =
     (let rest = trim rest in
      if rest = [] then Inl (PE_SyntaxError (one_key_usage ''DEL''))
      else let (key, trailing) = split_first_word rest; trailing = trim trailing in
        if trailing \<noteq> [] then Inl (PE_SyntaxError (one_key_usage ''DEL''))
        else Inr (CDel (bytes_to_string key)))"

definition parse_incr_bytes :: "bytes \<Rightarrow> parse_error + command" where
  "parse_incr_bytes rest =
     (let rest = trim rest in
      if rest = [] then Inl (PE_SyntaxError (one_key_usage ''INCR''))
      else let (key, trailing) = split_first_word rest; trailing = trim trailing in
        if trailing \<noteq> [] then Inl (PE_SyntaxError (one_key_usage ''INCR''))
        else Inr (CIncr (bytes_to_string key)))"

definition parse_single_key_bytes :: "bytes \<Rightarrow> bytes \<Rightarrow> (key \<Rightarrow> command) \<Rightarrow> parse_error + command" where
  "parse_single_key_bytes rest cmd_name constructor =
     (let rest = trim rest in
      if rest = [] then Inl (PE_SyntaxError (one_key_usage cmd_name))
      else let (key, trailing) = split_first_word rest; trailing = trim trailing in
        if trailing \<noteq> [] then Inl (PE_SyntaxError (one_key_usage cmd_name))
        else Inr (constructor (bytes_to_string key)))"

definition parse_expire_bytes :: "bytes \<Rightarrow> parse_error + command" where
  "parse_expire_bytes rest =
     (let rest = trim rest in
      if rest = [] then Inl (PE_SyntaxError ''EXPIRE requires 2 arguments: EXPIRE <key> <seconds>'')
      else let (key, rest) = split_first_word rest in
      if key = [] then Inl (PE_SyntaxError ''EXPIRE requires 2 arguments: EXPIRE <key> <seconds>'')
      else let rest = trim rest in
      if rest = [] then Inl (PE_SyntaxError ''EXPIRE requires 2 arguments: EXPIRE <key> <seconds>'')
      else let (secs, trailing) = split_first_word rest; trailing = trim trailing in
      if trailing \<noteq> [] then
        Inl (PE_SyntaxError ''EXPIRE requires exactly 2 arguments: EXPIRE <key> <seconds>'')
      else case parse_u64 (bytes_to_string secs) of
        None \<Rightarrow> Inl (PE_SyntaxError ''EXPIRE: seconds must be a positive integer'')
      | Some seconds \<Rightarrow> Inr (CExpire (bytes_to_string key) seconds))"

text \<open>The token loop of MGET; each round consumes a non-empty word.\<close>

function mget_tokens :: "bytes \<Rightarrow> key list" where
  "mget_tokens remaining =
     (if remaining = [] then []
      else if trim remaining = [] then []
      else case split_first_word (trim remaining) of (key, rest) \<Rightarrow>
        bytes_to_string key # mget_tokens rest)"
  by pat_completeness auto
termination
  by (relation "measure length") (auto dest: split_trim_shorter(2) [OF _ sym])

declare mget_tokens.simps [simp del]

definition parse_mget_bytes :: "bytes \<Rightarrow> parse_error + command" where
  "parse_mget_bytes rest =
     (let rest = trim rest in
      if rest = [] then Inl (PE_SyntaxError ''MGET requires at least 1 argument: MGET <key> [key ...]'')
      else let keys = mget_tokens rest in
      if keys = [] then Inl (PE_SyntaxError ''MGET requires at least 1 argument: MGET <key> [key ...]'')
      else Inr (CMget keys))"

text \<open>The pair loop of MSET.\<close>

function mset_tokens :: "(key \<times> bytes) list \<Rightarrow> bytes \<Rightarrow> parse_error + (key \<times> bytes) list" where
  "mset_tokens pairs remaining =
     (if trim remaining = [] then Inr pairs
      else case split_first_word (trim remaining) of (key, rest) \<Rightarrow>
        if key = [] then Inr pairs
        else if trim rest = [] then Inl (PE_SyntaxError ''MSET requires matching key-value pairs'')
        else case split_first_word (trim rest) of (val, rest') \<Rightarrow>
          mset_tokens (pairs @ [(bytes_to_string key, val)]) rest')"
  by pat_completeness auto
termination
  by (relation "measure (length \<circ> snd)")
    (auto dest!: split_trim_shorter(2) [OF _ sym])

declare mset_tokens.simps [simp del]

definition mset_usage :: bytes where
  "mset_usage = ''MSET requires at least 2 arguments: MSET <key> <value> [key value ...]''"

definition parse_mset_bytes :: "bytes \<Rightarrow> parse_error + command" where
  "parse_mset_bytes rest =
     (let rest = trim rest in
      if rest = [] then Inl (PE_SyntaxError mset_usage)
      else case mset_tokens [] rest of
        Inl e \<Rightarrow> Inl e
      | Inr pairs \<Rightarrow> if pairs = [] then Inl (PE_SyntaxError mset_usage) else Inr (CMset pairs))"

definition parse_bytes :: "bytes \<Rightarrow> parse_error + command" where
  "parse_bytes inp =
     (let inp = trim inp in
      if inp = [] then Inl PE_EmptyCommand
      else let (verb, rest) = split_first_word inp in
      if eq_ignore_ascii_case verb ''GET'' then parse_get_bytes rest
      else if eq_ignore_ascii_case verb ''SET'' then parse_set_bytes rest
      else if eq_ignore_ascii_case verb ''PING'' then Inr CPing
      else if eq_ignore_ascii_case verb ''DEL'' then parse_del_bytes rest
      else if eq_ignore_ascii_case verb ''INCR'' then parse_incr_bytes rest
      else if eq_ignore_ascii_case verb ''INFO'' then Inr CInfo
      else if eq_ignore_ascii_case verb ''DBSIZE'' then Inr CDbSize
      else if eq_ignore_ascii_case verb ''EXISTS'' then parse_single_key_bytes rest ''EXISTS'' CExists
      else if eq_ignore_ascii_case verb ''TTL'' then parse_single_key_bytes rest ''TTL'' CTtl
      else if eq_ignore_ascii_case verb ''EXPIRE'' then parse_expire_bytes rest
      else if eq_ignore_ascii_case verb ''FLUSHDB'' then
        (if trim rest \<noteq> [] then Inl (PE_SyntaxError ''FLUSHDB takes no arguments'') else Inr CFlushDb)
      else if eq_ignore_ascii_case verb ''KEYS'' then
        (if trim rest \<noteq> [] then Inl (PE_SyntaxError ''KEYS takes no arguments'') else Inr CKeys)
      else if eq_ignore_ascii_case verb ''MGET'' then parse_mget_bytes rest
      else if eq_ignore_ascii_case verb ''MSET'' then parse_mset_bytes rest
      else Inl (PE_UnknownCommand (from_utf8_lossy verb)))"

definition parse :: "bytes \<Rightarrow> parse_error + command" where
  "parse inp = parse_bytes inp"

definition try_parse_frame_inline :: "crates \<Rightarrow> bytes \<Rightarrow> parse_error + frame_result" where
  "try_parse_frame_inline X buf =
     (case memchr X (CHR 0x0A) buf of
        None \<Rightarrow> Inr Incomplete
      | Some pos \<Rightarrow>
          (case parse_bytes (take pos buf) of
             Inr cmd \<Rightarrow> Inr (Complete (pos + 1) cmd)
           | Inl PE_EmptyCommand \<Rightarrow> Inr (Skip (pos + 1))
           | Inl e \<Rightarrow> Inl e))"

section \<open>RESP lines and bulk strings\<close>

text \<open>The decimal loop on an \<open>i64\<close> accumulator, which wraps around.\<close>

fun resp_digits :: "int \<Rightarrow> bytes \<Rightarrow> parse_error + int" where
  "resp_digits n [] = Inr n"
| "resp_digits n (b # bs) =
     (if \<not> is_ascii_digit b then Inl (PE_SyntaxError ''RESP: expected integer'')
      else resp_digits (wrap_i64 (wrap_i64 (n * 10) + int (digit_val b))) bs)"

definition resp_number :: "bytes \<Rightarrow> parse_error + int" where
  "resp_number num_slice =
     (if num_slice = [] then Inl (PE_SyntaxError ''RESP: empty integer'')
      else if hd num_slice = CHR ''-'' then
        (if length num_slice = 1 then Inl (PE_SyntaxError ''RESP: invalid negative integer'')
         else case resp_digits 0 (tl num_slice) of
             Inl e \<Rightarrow> Inl e
           | Inr n \<Rightarrow> Inr (wrap_i64 (- n)))
      else resp_digits 0 num_slice)"

definition read_resp_line_int ::
    "crates \<Rightarrow> bytes \<Rightarrow> byte \<Rightarrow> parse_error + (int \<times> nat) option" where
  "read_resp_line_int X buf prefix =
     (if buf = [] then Inr None
      else if buf ! 0 \<noteq> prefix then
        Inl (PE_SyntaxError (''RESP: expected '' @ quoted (latin1_char prefix) @
               '', got '' @ quoted (latin1_char (buf ! 0))))
      else case memchr X (CHR 0x0A) buf of
        None \<Rightarrow> Inr None
      | Some pos \<Rightarrow>
          let num_end = (if 0 < pos \<and> buf ! (pos - 1) = CHR 0x0D then pos - 1 else pos) in
          (case resp_number (subslice 1 num_end buf) of
             Inl e \<Rightarrow> Inl e
           | Inr n \<Rightarrow> Inr (Some (n, pos + 1))))"

definition read_resp_bulk :: "crates \<Rightarrow> bytes \<Rightarrow> parse_error + (bytes \<times> nat) option" where
  "read_resp_bulk X buf =
     (case read_resp_line_int X buf (CHR ''$'') of
        Inl e \<Rightarrow> Inl e
      | Inr None \<Rightarrow> Inr None
      | Inr (Some (len, pos)) \<Rightarrow>
          if len < 0 then Inr (Some ([], pos))
          else if pos + nat len + 2 > length buf then Inr None
          else Inr (Some (subslice pos (pos + nat len) buf, pos + (nat len + 2))))"

section \<open>RESP frames\<close>

text \<open>
  \<open>let v = match r? { Some(v) => v, None => return Ok(Incomplete) }\<close>, and the loops that
  read the next \<open>n\<close> bulk strings, or pairs of them, from position \<open>pos\<close>.
\<close>

fun need :: "parse_error + 'a option \<Rightarrow> ('a \<Rightarrow> parse_error + frame_result) \<Rightarrow>
    parse_error + frame_result" where
  "need (Inl e) f = Inl e"
| "need (Inr None) f = Inr Incomplete"
| "need (Inr (Some a)) f = f a"

definition read_arg :: "crates \<Rightarrow> bytes \<Rightarrow> nat \<Rightarrow> parse_error + (bytes \<times> nat) option" where
  "read_arg X buf pos =
     (case read_resp_bulk X (drop pos buf) of
        Inl e \<Rightarrow> Inl e
      | Inr None \<Rightarrow> Inr None
      | Inr (Some (d, n)) \<Rightarrow> Inr (Some (d, pos + n)))"

fun read_args :: "crates \<Rightarrow> nat \<Rightarrow> bytes \<Rightarrow> nat \<Rightarrow> parse_error + (bytes list \<times> nat) option" where
  "read_args X 0 buf pos = Inr (Some ([], pos))"
| "read_args X (Suc n) buf pos =
     (case read_arg X buf pos of
        Inl e \<Rightarrow> Inl e
      | Inr None \<Rightarrow> Inr None
      | Inr (Some (d, pos1)) \<Rightarrow>
          (case read_args X n buf pos1 of
             Inl e \<Rightarrow> Inl e
           | Inr None \<Rightarrow> Inr None
           | Inr (Some (ds, pos2)) \<Rightarrow> Inr (Some (d # ds, pos2))))"

fun read_pairs ::
    "crates \<Rightarrow> nat \<Rightarrow> bytes \<Rightarrow> nat \<Rightarrow> parse_error + ((key \<times> bytes) list \<times> nat) option" where
  "read_pairs X 0 buf pos = Inr (Some ([], pos))"
| "read_pairs X (Suc n) buf pos =
     (case read_args X 2 buf pos of
        Inl e \<Rightarrow> Inl e
      | Inr None \<Rightarrow> Inr None
      | Inr (Some (kv, pos1)) \<Rightarrow>
          (case read_pairs X n buf pos1 of
             Inl e \<Rightarrow> Inl e
           | Inr None \<Rightarrow> Inr None
           | Inr (Some (ps, pos2)) \<Rightarrow> Inr (Some ((bytes_to_string (kv ! 0), kv ! 1) # ps, pos2))))"

text \<open>The verbs with one key share their code up to the name and the constructor.\<close>

definition resp_one_key ::
    "crates \<Rightarrow> bytes \<Rightarrow> (key \<Rightarrow> command) \<Rightarrow> nat \<Rightarrow> bytes \<Rightarrow> nat \<Rightarrow> parse_error + frame_result" where
  "resp_one_key X name constructor args_remaining buf pos =
     (if args_remaining \<noteq> 1 then Inl (PE_SyntaxError (one_key_usage name))
      else need (read_arg X buf pos) (\<lambda>(key_data, pos).
        Inr (Complete pos (constructor (bytes_to_string key_data)))))"

definition resp_frame_get :: "crates \<Rightarrow> nat \<Rightarrow> bytes \<Rightarrow> nat \<Rightarrow> parse_error + frame_result" where
  "resp_frame_get X = resp_one_key X ''GET'' CGet"

definition resp_set_option :: "bytes \<Rightarrow> bytes \<Rightarrow> parse_error + duration option" where
  "resp_set_option opt_data int_data =
     (if eq_ignore_ascii_case opt_data ''EX'' then
        (case parse_u64 (bytes_to_string int_data) of
           None \<Rightarrow> Inl (PE_SyntaxError ''SET EX: expected integer'')
         | Some secs \<Rightarrow> Inr (Some (from_secs secs)))
      else if eq_ignore_ascii_case opt_data ''PX'' then
        (case parse_u64 (bytes_to_string int_data) of
           None \<Rightarrow> Inl (PE_SyntaxError ''SET PX: expected integer'')
         | Some ms \<Rightarrow> Inr (Some (from_millis ms)))
      else Inl (PE_SyntaxError (''SET: unknown option '' @ quoted (from_utf8_lossy opt_data))))"

definition resp_frame_set :: "crates \<Rightarrow> nat \<Rightarrow> bytes \<Rightarrow> nat \<Rightarrow> parse_error + frame_result" where
  "resp_frame_set X args_remaining buf pos =
     (if args_remaining < 2 then
        Inl (PE_SyntaxError ''SET requires at least 2 arguments: SET <key> <value> [EX sec | PX ms]'')
      else need (read_arg X buf pos) (\<lambda>(key_data, pos).
        need (read_arg X buf pos) (\<lambda>(val_data, pos).
          if args_remaining - 2 \<ge> 2 then
            need (read_arg X buf pos) (\<lambda>(opt_data, pos).
              need (read_arg X buf pos) (\<lambda>(int_data, pos).
                case resp_set_option opt_data int_data of
                  Inl e \<Rightarrow> Inl e
                | Inr ttl \<Rightarrow>
                    need (read_args X (args_remaining - 4) buf pos) (\<lambda>(_, pos).
                      Inr (Complete pos (CSet (bytes_to_string key_data) val_data ttl)))))
          else
            need (read_args X (args_remaining - 2) buf pos) (\<lambda>(_, pos).
              Inr (Complete pos (CSet (bytes_to_string key_data) val_data None))))))"

definition resp_del :: "crates \<Rightarrow> nat \<Rightarrow> bytes \<Rightarrow> nat \<Rightarrow> parse_error + frame_result" where
  "resp_del X = resp_one_key X ''DEL'' CDel"

definition resp_incr :: "crates \<Rightarrow> nat \<Rightarrow> bytes \<Rightarrow> nat \<Rightarrow> parse_error + frame_result" where
  "resp_incr X = resp_one_key X ''INCR'' CIncr"

definition resp_exists :: "crates \<Rightarrow> nat \<Rightarrow> bytes \<Rightarrow> nat \<Rightarrow> parse_error + frame_result" where
  "resp_exists X = resp_one_key X ''EXISTS'' CExists"

definition resp_ttl :: "crates \<Rightarrow> nat \<Rightarrow> bytes \<Rightarrow> nat \<Rightarrow> parse_error + frame_result" where
  "resp_ttl X = resp_one_key X ''TTL'' CTtl"

definition resp_expire :: "crates \<Rightarrow> nat \<Rightarrow> bytes \<Rightarrow> nat \<Rightarrow> parse_error + frame_result" where
  "resp_expire X args_remaining buf pos =
     (if args_remaining \<noteq> 2 then
        Inl (PE_SyntaxError ''EXPIRE requires 2 arguments: EXPIRE <key> <seconds>'')
      else need (read_arg X buf pos) (\<lambda>(key_data, pos).
        need (read_arg X buf pos) (\<lambda>(secs_data, pos).
          case parse_u64 (bytes_to_string secs_data) of
            None \<Rightarrow> Inl (PE_SyntaxError ''EXPIRE: seconds must be a positive integer'')
          | Some seconds \<Rightarrow> Inr (Complete pos (CExpire (bytes_to_string key_data) seconds)))))"

definition resp_mget :: "crates \<Rightarrow> nat \<Rightarrow> bytes \<Rightarrow> nat \<Rightarrow> parse_error + frame_result" where
  "resp_mget X args_remaining buf pos =
     (if args_remaining < 1 then
        Inl (PE_SyntaxError ''MGET requires at least 1 argument: MGET <key> [key ...]'')
      else need (read_args X args_remaining buf pos) (\<lambda>(keys, pos).
        Inr (Complete pos (CMget (map bytes_to_string keys)))))"

definition resp_mset :: "crates \<Rightarrow> nat \<Rightarrow> bytes \<Rightarrow> nat \<Rightarrow> parse_error + frame_result" where
  "resp_mset X args_remaining buf pos =
     (if args_remaining < 2 \<or> args_remaining mod 2 \<noteq> 0 then
        Inl (PE_SyntaxError ''MSET requires matching key-value pairs: MSET <key> <value> [key value ...]'')
      else need (read_pairs X (args_remaining div 2) buf pos) (\<lambda>(pairs, pos).
        Inr (Complete pos (CMset pairs))))"

text \<open>The switch on the verb, with \<open>pos\<close> behind it.\<close>

definition resp_command ::
    "crates \<Rightarrow> bytes \<Rightarrow> nat \<Rightarrow> bytes \<Rightarrow> nat \<Rightarrow> parse_error + frame_result" where
  "resp_command X verb args_remaining buf pos =
     (if eq_ignore_ascii_case verb ''PING'' then Inr (Complete pos CPing)
      else if eq_ignore_ascii_case verb ''INFO'' then Inr (Complete pos CInfo)
      else if eq_ignore_ascii_case verb ''DBSIZE'' then Inr (Complete pos CDbSize)
      else if eq_ignore_ascii_case verb ''GET'' then resp_frame_get X args_remaining buf pos
      else if eq_ignore_ascii_case verb ''SET'' then resp_frame_set X args_remaining buf pos
      else if eq_ignore_ascii_case verb ''DEL'' then resp_del X args_remaining buf pos
      else if eq_ignore_ascii_case verb ''INCR'' then resp_incr X args_remaining buf pos
      else if eq_ignore_ascii_case verb ''EXISTS'' then resp_exists X args_remaining buf pos
      else if eq_ignore_ascii_case verb ''TTL'' then resp_ttl X args_remaining buf pos
      else if eq_ignore_ascii_case verb ''EXPIRE'' then resp_expire X args_remaining buf pos
      else if eq_ignore_ascii_case verb ''FLUSHDB'' then Inr (Complete pos CFlushDb)
      else if eq_ignore_ascii_case verb ''KEYS'' then Inr (Complete pos CKeys)
      else if eq_ignore_ascii_case verb ''MGET'' then resp_mget X args_remaining buf pos
      else if eq_ignore_ascii_case verb ''MSET'' then resp_mset X args_remaining buf pos
      else Inl (PE_UnknownCommand (bytes_to_string verb)))"

definition parse_resp_frame :: "crates \<Rightarrow> bytes \<Rightarrow> parse_error + frame_result" where
  "parse_resp_frame X buf =
     need (read_resp_line_int X buf (CHR ''*'')) (\<lambda>(count, pos).
       if count < 0 then Inl (PE_SyntaxError ''RESP: null array'')
       else if count > 1024 then Inl (PE_SyntaxError ''RESP: array too large'')
       else if count = 0 then Inl PE_EmptyCommand
       else need (read_arg X buf pos) (\<lambda>(verb, pos).
         resp_command X verb (nat count - 1) buf pos))"

definition try_parse_frame :: "crates \<Rightarrow> bytes \<Rightarrow> parse_error + frame_result" where
  "try_parse_frame X buf =
     (if buf = [] then Inr Incomplete
      else if buf ! 0 = CHR ''*'' then parse_resp_frame X buf
      else try_parse_frame_inline X buf)"

lemmas resp_one_key_defs =
  resp_frame_get_def resp_del_def resp_incr_def resp_exists_def resp_ttl_def resp_one_key_def

lemmas resp_verb_defs = resp_frame_set_def resp_expire_def resp_mget_def resp_mset_def

end
