(* ===== verification/Parser_Inline.thy ===== *)
theory Parser_Inline
  imports Parser
begin

text \<open>
  What the inline parser computes. The source walks the line with \<open>trim\<close> and
  \<open>split_first_word\<close>; the reference definition here first splits the line into its
  words, in one pass over the bytes, and then reads the command off the word list. The two
  agree on every input, so the parser does not depend on the amount or kind of white space.
\<close>

section \<open>Words of a line\<close>

fun words_from :: "bytes \<Rightarrow> bytes \<Rightarrow> bytes list" where
  "words_from w [] = (if w = [] then [] else [w])"
| "words_from w (b # bs) =
     (if is_whitespace b then (if w = [] then words_from [] bs else w # words_from [] bs)
      else words_from (w @ [b]) bs)"

definition words :: "bytes \<Rightarrow> bytes list" where
  "words bs = words_from [] bs"

lemma words_Nil [simp]: "words [] = []"
  by (simp add: words_def)

lemma words_from_word:
  assumes "\<forall>b \<in> set v. \<not> is_whitespace b"
  shows "words_from w (v @ bs) = words_from (w @ v) bs"
  using assms by (induction v arbitrary: w) auto

lemma words_dropWhile: "words (dropWhile is_whitespace bs) = words bs"
  by (induction bs) (auto simp: words_def)

lemma words_from_trailing:
  assumes "\<forall>b \<in> set ws. is_whitespace b"
  shows "words_from w (bs @ ws) = words_from w bs"
proof -
  have "words_from w ws = (if w = [] then [] else [w])" for w
    using assms by (induction ws arbitrary: w) auto
  then show ?thesis by (induction bs arbitrary: w) auto
qed

lemma trim_split: "\<exists>ws. dropWhile is_whitespace bs = trim bs @ ws \<and> (\<forall>b \<in> set ws. is_whitespace b)"
proof -
  let ?d = "dropWhile is_whitespace bs"
  have "?d = rev (takeWhile is_whitespace (rev ?d) @ dropWhile is_whitespace (rev ?d))" by simp
  then have "?d = trim bs @ rev (takeWhile is_whitespace (rev ?d))"
    by (simp only: rev_append trim_def)
  moreover have "\<forall>b \<in> set (rev (takeWhile is_whitespace (rev ?d))). is_whitespace b"
    by (auto dest: set_takeWhileD)
  ultimately show ?thesis by blast
qed

lemma words_trim [simp]: "words (trim bs) = words bs"
proof -
  obtain ws where "dropWhile is_whitespace bs = trim bs @ ws" "\<forall>b \<in> set ws. is_whitespace b"
    using trim_split by blast
  then have "words (dropWhile is_whitespace bs) = words (trim bs)"
    by (simp add: words_def words_from_trailing)
  then show ?thesis by (simp add: words_dropWhile)
qed

lemma words_split_first:
  assumes "split_first_word bs = (w, rest)" and "w \<noteq> []"
  shows "words bs = w # words rest"
proof -
  have bs: "bs = w @ rest" and w: "\<forall>b \<in> set w. \<not> is_whitespace b"
    and r: "rest \<noteq> [] \<Longrightarrow> is_whitespace (hd rest)"
    using assms(1) hd_dropWhile [of "\<lambda>b. \<not> is_whitespace b" bs]
    by (auto simp: split_first_word_def dest: set_takeWhileD)
  show ?thesis
    using assms(2) r words_from_word [OF w, of "[]" rest]
    by (cases rest) (auto simp: words_def bs)
qed

text \<open>The parser's step: trim, stop on an empty line, otherwise split off a word.\<close>

lemma words_step:
  "words bs = (if trim bs = [] then []
     else fst (split_first_word (trim bs)) # words (snd (split_first_word (trim bs))))"
proof (cases "trim bs = []")
  case True
  then show ?thesis using words_trim [of bs] by simp
next
  case False
  obtain w rest where s: "split_first_word (trim bs) = (w, rest)"
    by (cases "split_first_word (trim bs)")
  from words_split_first [OF s] split_trim_shorter(1) [OF False s] False s
  show ?thesis using words_trim [of bs] by simp
qed

lemma words_eq_Nil: "words bs = [] \<longleftrightarrow> trim bs = []"
  by (subst words_step) simp

lemma words_eq_Cons:
  "words bs = w # ws \<longleftrightarrow>
     trim bs \<noteq> [] \<and> fst (split_first_word (trim bs)) = w \<and> words (snd (split_first_word (trim bs))) = ws"
  by (subst words_step) simp

lemma first_word_not_Nil: "trim bs \<noteq> [] \<Longrightarrow> fst (split_first_word (trim bs)) \<noteq> []"
  using split_trim_shorter(1) by (metis prod.collapse)

lemma words_ConsE:
  assumes "words bs = w # ws"
  obtains rest where "trim bs \<noteq> []" "split_first_word (trim bs) = (w, rest)" "w \<noteq> []" "words rest = ws"
  using assms first_word_not_Nil [of bs] that by (cases "split_first_word (trim bs)") (auto simp: words_eq_Cons)

lemma trim_Nil [simp]: "trim [] = []"
  by (simp add: trim_def)

section \<open>Commands of word lists\<close>

definition one_key_words :: "bytes \<Rightarrow> (key \<Rightarrow> command) \<Rightarrow> bytes list \<Rightarrow> parse_error + command" where
  "one_key_words name constructor args =
     (case args of [k] \<Rightarrow> Inr (constructor k) | _ \<Rightarrow> Inl (PE_SyntaxError (one_key_usage name)))"

definition ttl_words :: "bytes \<Rightarrow> (nat \<Rightarrow> duration) \<Rightarrow> bytes \<Rightarrow> bytes list \<Rightarrow> parse_error + duration option" where
  "ttl_words name conv unit args =
     (case args of
        _ # _ # _ \<Rightarrow> Inl (PE_SyntaxError (''SET '' @ name @ '': unexpected extra arguments''))
      | [n] \<Rightarrow> (case parse_u64 n of Some t \<Rightarrow> Inr (Some (conv t))
           | None \<Rightarrow> Inl (PE_SyntaxError (''SET '' @ name @ '': expected integer '' @ unit)))
      | [] \<Rightarrow> Inl (PE_SyntaxError (''SET '' @ name @ '': expected integer '' @ unit)))"

definition set_option_words :: "bytes list \<Rightarrow> parse_error + duration option" where
  "set_option_words args =
     (case args of
        [] \<Rightarrow> Inr None
      | opt # rest \<Rightarrow>
          if eq_ignore_ascii_case opt ''EX'' then ttl_words ''EX'' from_secs ''seconds'' rest
          else if eq_ignore_ascii_case opt ''PX'' then ttl_words ''PX'' from_millis ''milliseconds'' rest
          else Inl (PE_SyntaxError (''SET: unknown option '' @ quoted (from_utf8_lossy opt))))"

definition set_words :: "bytes list \<Rightarrow> parse_error + command" where
  "set_words args =
     (case args of
        k # v # opts \<Rightarrow> map_sum id (\<lambda>ttl. CSet k v ttl) (set_option_words opts)
      | _ \<Rightarrow> Inl (PE_SyntaxError set_usage))"

definition expire_words :: "bytes list \<Rightarrow> parse_error + command" where
  "expire_words args =
     (case args of
        [k, s] \<Rightarrow> (case parse_u64 s of Some n \<Rightarrow> Inr (CExpire k n)
           | None \<Rightarrow> Inl (PE_SyntaxError ''EXPIRE: seconds must be a positive integer''))
      | _ # _ # _ \<Rightarrow> Inl (PE_SyntaxError ''EXPIRE requires exactly 2 arguments: EXPIRE <key> <seconds>'')
      | _ \<Rightarrow> Inl (PE_SyntaxError ''EXPIRE requires 2 arguments: EXPIRE <key> <seconds>''))"

fun pair_words :: "bytes list \<Rightarrow> (key \<times> bytes) list option" where
  "pair_words [] = Some []"
| "pair_words [k] = None"
| "pair_words (k # v # ws) = map_option ((#) (k, v)) (pair_words ws)"

definition mset_words :: "bytes list \<Rightarrow> parse_error + command" where
  "mset_words args =
     (if args = [] then Inl (PE_SyntaxError mset_usage)
      else case pair_words args of
        None \<Rightarrow> Inl (PE_SyntaxError ''MSET requires matching key-value pairs'')
      | Some ps \<Rightarrow> Inr (CMset ps))"

definition no_args :: "bytes \<Rightarrow> command \<Rightarrow> bytes list \<Rightarrow> parse_error + command" where
  "no_args name c args =
     (if args = [] then Inr c else Inl (PE_SyntaxError (name @ '' takes no arguments'')))"

definition command_of_words :: "bytes list \<Rightarrow> parse_error + command" where
  "command_of_words ws =
     (case ws of [] \<Rightarrow> Inl PE_EmptyCommand
      | verb # args \<Rightarrow>
          let is = eq_ignore_ascii_case verb in
          if is ''GET'' then one_key_words ''GET'' CGet args
          else if is ''SET'' then set_words args
          else if is ''PING'' then Inr CPing
          else if is ''DEL'' then one_key_words ''DEL'' CDel args
          else if is ''INCR'' then one_key_words ''INCR'' CIncr args
          else if is ''INFO'' then Inr CInfo
          else if is ''DBSIZE'' then Inr CDbSize
          else if is ''EXISTS'' then one_key_words ''EXISTS'' CExists args
          else if is ''TTL'' then one_key_words ''TTL'' CTtl args
          else if is ''EXPIRE'' then expire_words args
          else if is ''FLUSHDB'' then no_args ''FLUSHDB'' CFlushDb args
          else if is ''KEYS'' then no_args ''KEYS'' CKeys args
          else if is ''MGET'' then
            (if args = [] then Inl (PE_SyntaxError ''MGET requires at least 1 argument: MGET <key> [key ...]'')
             else Inr (CMget args))
          else if is ''MSET'' then mset_words args
          else Inl (PE_UnknownCommand (from_utf8_lossy verb)))"

section \<open>The parser computes them\<close>

lemma bytes_to_string_id [simp]: "bytes_to_string = id"
  by (simp add: bytes_to_string_def fun_eq_iff)

lemma single_key_words:
  "parse_single_key_bytes rest name c = one_key_words name c (words rest)"
  by (auto simp: parse_single_key_bytes_def one_key_words_def Let_def words_eq_Nil words_eq_Cons
      split: prod.splits list.splits)

lemma get_words: "parse_get_bytes rest = one_key_words ''GET'' CGet (words rest)"
  by (simp add: parse_get_bytes_def single_key_words [symmetric] parse_single_key_bytes_def)

lemma del_words: "parse_del_bytes rest = one_key_words ''DEL'' CDel (words rest)"
  by (simp add: parse_del_bytes_def single_key_words [symmetric] parse_single_key_bytes_def)

lemma incr_words: "parse_incr_bytes rest = one_key_words ''INCR'' CIncr (words rest)"
  by (simp add: parse_incr_bytes_def single_key_words [symmetric] parse_single_key_bytes_def)

lemma mget_tokens_words: "mget_tokens bs = words bs"
proof (induction bs rule: mget_tokens.induct)
  case (1 bs)
  show ?case
  proof (cases "trim bs = []")
    case True
    with words_eq_Nil [of bs] show ?thesis by (subst mget_tokens.simps) simp
  next
    case False
    obtain w rest where s: "split_first_word (trim bs) = (w, rest)"
      by (cases "split_first_word (trim bs)")
    from False have "bs \<noteq> []" by (auto simp: trim_def)
    with 1 False s have "mget_tokens rest = words rest" by simp
    with False s \<open>bs \<noteq> []\<close> show ?thesis
      by (subst mget_tokens.simps, subst words_step) simp
  qed
qed

lemma mset_tokens_words:
  "mset_tokens ps bs =
     (case pair_words (words bs) of
        None \<Rightarrow> Inl (PE_SyntaxError ''MSET requires matching key-value pairs'')
      | Some qs \<Rightarrow> Inr (ps @ qs))"
proof (induction ps bs rule: mset_tokens.induct)
  case (1 ps bs)
  show ?case
  proof (cases "words bs" rule: pair_words.cases)
    case 1
    with words_eq_Nil [of bs] show ?thesis by (subst mset_tokens.simps) simp
  next
    case (2 k)
    then obtain rest where "trim bs \<noteq> []" "split_first_word (trim bs) = (k, rest)" "k \<noteq> []" "words rest = []"
      by (rule words_ConsE)
    with 2 words_eq_Nil [of rest] show ?thesis by (subst mset_tokens.simps) simp
  next
    case (3 k v ws)
    obtain rest where r: "trim bs \<noteq> []" "split_first_word (trim bs) = (k, rest)"
      and k: "k \<noteq> []" and rest: "words rest = v # ws"
      using 3 by (rule words_ConsE)
    obtain rest' where r': "trim rest \<noteq> []" "split_first_word (trim rest) = (v, rest')" "words rest' = ws"
      using rest by (rule words_ConsE)
    have "mset_tokens ps bs = mset_tokens (ps @ [(k, v)]) rest'"
      using r r' k by (subst mset_tokens.simps) simp
    also have "\<dots> = (case pair_words ws of
        None \<Rightarrow> Inl (PE_SyntaxError ''MSET requires matching key-value pairs'')
      | Some qs \<Rightarrow> Inr ((ps @ [(k, v)]) @ qs))"
      using "1.IH" r r' k by (simp split: option.splits)
    finally show ?thesis using 3 by (simp split: option.splits)
  qed
qed

lemma mget_words:
  "parse_mget_bytes rest =
     (if words rest = [] then Inl (PE_SyntaxError ''MGET requires at least 1 argument: MGET <key> [key ...]'')
      else Inr (CMget (words rest)))"
  by (simp add: parse_mget_bytes_def mget_tokens_words words_eq_Nil Let_def)

lemma pair_words_Nil_iff: "pair_words ws = Some [] \<longleftrightarrow> ws = []"
  by (cases ws rule: pair_words.cases) auto

lemma mset_words_eq: "parse_mset_bytes rest = mset_words (words rest)"
  by (auto simp: parse_mset_bytes_def mset_words_def mset_tokens_words words_eq_Nil Let_def
      pair_words_Nil_iff split: option.splits)

lemma parse_u64_Nil [simp]: "parse_u64 [] = None"
  by (simp add: parse_u64_def)

lemma split_first_word_Nil [simp]: "split_first_word [] = ([], [])"
  by (simp add: split_first_word_def)

lemma ttl_words_split:
  "ttl_words name conv unit (words rest) =
     (let (val, trailing) = split_first_word (trim rest) in
      if trim trailing \<noteq> [] then Inl (PE_SyntaxError (''SET '' @ name @ '': unexpected extra arguments''))
      else case parse_u64 val of
        None \<Rightarrow> Inl (PE_SyntaxError (''SET '' @ name @ '': expected integer '' @ unit))
      | Some t \<Rightarrow> Inr (Some (conv t)))"
proof (cases "trim rest = []")
  case True
  then have "words rest = []" by (simp add: words_eq_Nil)
  with True show ?thesis by (simp add: ttl_words_def)
next
  case False
  obtain w r where s: "split_first_word (trim rest) = (w, r)" by (cases "split_first_word (trim rest)")
  with False have "words rest = w # words r" by (simp add: words_eq_Cons)
  with s words_eq_Nil [of r] show ?thesis
    by (cases "words r") (auto simp: ttl_words_def split: option.splits)
qed

lemma ttl_option_words:
  assumes "trim rest \<noteq> []"
  shows "parse_ttl_option (trim rest) = set_option_words (words rest)"
proof -
  obtain opt r where s: "split_first_word (trim rest) = (opt, r)" by (cases "split_first_word (trim rest)")
  with assms have "words rest = opt # words r" by (simp add: words_eq_Cons)
  with s show ?thesis
    by (simp add: parse_ttl_option_def set_option_words_def ttl_words_split Let_def
        split: prod.splits option.splits)
qed

lemma set_words_eq: "parse_set_bytes rest = set_words (words rest)"
proof (cases "words rest" rule: pair_words.cases)
  case 1
  with words_eq_Nil [of rest] show ?thesis by (simp add: parse_set_bytes_def set_words_def)
next
  case (2 k)
  then obtain r where "trim rest \<noteq> []" "split_first_word (trim rest) = (k, r)" "words r = []"
    by (rule words_ConsE)
  with 2 words_eq_Nil [of r] show ?thesis by (simp add: parse_set_bytes_def set_words_def)
next
  case (3 k v ws)
  obtain r where r: "trim rest \<noteq> []" "split_first_word (trim rest) = (k, r)"
    and k: "k \<noteq> []" and rw: "words r = v # ws"
    using 3 by (rule words_ConsE)
  obtain r' where r': "trim r \<noteq> []" "split_first_word (trim r) = (v, r')" "words r' = ws"
    using rw by (rule words_ConsE)
  have "(if trim r' \<noteq> [] then parse_ttl_option (trim r') else Inr None) = set_option_words ws"
    using r'(3) words_eq_Nil [of r'] by (auto simp: ttl_option_words set_option_words_def)
  with 3 r r' k show ?thesis
    by (auto simp: parse_set_bytes_def set_words_def split: sum.splits)
qed

lemma expire_words_eq: "parse_expire_bytes rest = expire_words (words rest)"
proof (cases "words rest" rule: pair_words.cases)
  case 1
  with words_eq_Nil [of rest] show ?thesis by (simp add: parse_expire_bytes_def expire_words_def)
next
  case (2 k)
  then obtain r where "trim rest \<noteq> []" "split_first_word (trim rest) = (k, r)" "words r = []"
    by (rule words_ConsE)
  with 2 words_eq_Nil [of r] show ?thesis by (simp add: parse_expire_bytes_def expire_words_def)
next
  case (3 k v ws)
  obtain r where r: "trim rest \<noteq> []" "split_first_word (trim rest) = (k, r)"
    and k: "k \<noteq> []" and rw: "words r = v # ws"
    using 3 by (rule words_ConsE)
  obtain r' where r': "trim r \<noteq> []" "split_first_word (trim r) = (v, r')" "words r' = ws"
    using rw by (rule words_ConsE)
  have "trim r' = [] \<longleftrightarrow> ws = []" using r'(3) words_eq_Nil by blast
  with 3 r r' k show ?thesis
    by (cases ws) (auto simp: parse_expire_bytes_def expire_words_def split: option.splits)
qed

lemmas verb_words = get_words del_words incr_words single_key_words set_words_eq expire_words_eq
  mget_words mset_words_eq

lemma parse_bytes_words: "parse_bytes line = command_of_words (words line)"
proof (cases "trim line = []")
  case True
  then have "words line = []" by (simp add: words_eq_Nil)
  with True show ?thesis by (simp add: parse_bytes_def command_of_words_def)
next
  case False
  obtain verb rest where s: "split_first_word (trim line) = (verb, rest)"
    by (cases "split_first_word (trim line)")
  with False have w: "words line = verb # words rest" by (simp add: words_eq_Cons)
  have f: "(if trim rest \<noteq> [] then Inl (PE_SyntaxError ''FLUSHDB takes no arguments'') else Inr CFlushDb)
      = no_args ''FLUSHDB'' CFlushDb (words rest)"
    by (simp add: no_args_def words_eq_Nil)
  have k: "(if trim rest \<noteq> [] then Inl (PE_SyntaxError ''KEYS takes no arguments'') else Inr CKeys)
      = no_args ''KEYS'' CKeys (words rest)"
    by (simp add: no_args_def words_eq_Nil)
  show ?thesis
    using False s w
    by (simp only: parse_bytes_def command_of_words_def Let_def f k verb_words split_conv
        list.case if_False)
qed

text \<open>
  (C19) The inline parser is its specification on word lists: for every byte string,
  walking the line with \<open>trim\<close> and \<open>split_first_word\<close> yields the command or the
  error that the list of its words determines. Leading, trailing and repeated white space
  never matters.
\<close>

theorem parse_bytes_reads_words: "parse_bytes line = command_of_words (words line)"
  by (rule parse_bytes_words)

end
