(* ===== verification/Parser_Resp.thy ===== *)
theory Parser_Resp
  imports Parser_Inline
begin

text \<open>
  The frame parser as a reader of a stream. A connection delivers bytes in pieces; the
  session parses the front of its buffer and advances by the number of bytes the frame
  consumed. Correctness of that loop rests on three facts proved here: a frame never
  consumes more than the buffer holds nor nothing at all, a result other than
  \<open>Incomplete\<close> does not change when more bytes arrive, and the RESP encoding of a
  command is incomplete until its last byte and is then read back as that command.
\<close>

section \<open>Frames stay inside the buffer\<close>

fun frame_within :: "nat \<Rightarrow> parse_error + frame_result \<Rightarrow> bool" where
  "frame_within n (Inr (Complete k c)) = (0 < k \<and> k \<le> n)"
| "frame_within n (Inr (Skip k)) = (0 < k \<and> k \<le> n)"
| "frame_within n _ = True"

fun pos_within :: "nat \<Rightarrow> nat \<Rightarrow> parse_error + ('a \<times> nat) option \<Rightarrow> bool" where
  "pos_within lo n (Inr (Some (a, k))) = (lo < k \<and> k \<le> n)"
| "pos_within lo n _ = True"

lemma pos_withinI:
  "(\<And>a k. r = Inr (Some (a, k)) \<Longrightarrow> lo < k \<and> k \<le> n) \<Longrightarrow> pos_within lo n r"
  by (cases "(lo, n, r)" rule: pos_within.cases) auto

lemma pos_withinD: "pos_within lo n r \<Longrightarrow> r = Inr (Some (a, k)) \<Longrightarrow> lo < k \<and> k \<le> n"
  by simp

lemma need_cases_within:
  assumes "\<And>v. r = Inr (Some v) \<Longrightarrow> frame_within n (f v)"
  shows "frame_within n (need r f)"
  using assms by (cases "(r, f)" rule: need.cases) auto

lemma need_within:
  assumes "pos_within lo n r" and "\<And>a k. lo < k \<Longrightarrow> k \<le> n \<Longrightarrow> frame_within n (f (a, k))"
  shows "frame_within n (need r f)"
  using assms by (intro need_cases_within) auto

context crates_spec
begin

lemma line_int_within: "pos_within 0 (length buf) (read_resp_line_int X buf p)"
  by (rule pos_withinI)
    (auto simp: read_resp_line_int_def Let_def Suc_le_eq dest!: memchr_Some
      split: if_splits option.splits sum.splits)

lemma bulk_within: "pos_within 0 (length buf) (read_resp_bulk X buf)"
  using line_int_within [of buf "CHR ''$''"]
  by (intro pos_withinI)
    (auto simp: read_resp_bulk_def split: if_splits option.splits sum.splits prod.splits)

lemma read_arg_within: "pos_within pos (length buf) (read_arg X buf pos)"
  using bulk_within [of "drop pos buf"]
  by (intro pos_withinI) (auto simp: read_arg_def split: option.splits sum.splits prod.splits)

lemma read_args_within:
  "read_args X n buf pos = Inr (Some (ds, k)) \<Longrightarrow> pos \<le> length buf \<Longrightarrow>
     pos \<le> k \<and> k \<le> length buf \<and> length ds = n"
proof (induction n arbitrary: pos ds)
  case (Suc n)
  then obtain d p ds' where "read_arg X buf pos = Inr (Some (d, p))"
    and rest: "read_args X n buf p = Inr (Some (ds', k))" "ds = d # ds'"
    by (auto split: option.splits sum.splits prod.splits)
  then have "pos < p" and "p \<le> length buf"
    using pos_withinD [OF read_arg_within] by blast+
  with Suc.IH [OF rest(1)] rest(2) show ?case by simp
qed simp

lemma read_pairs_within:
  "read_pairs X n buf pos = Inr (Some (ps, k)) \<Longrightarrow> pos \<le> length buf \<Longrightarrow> pos \<le> k \<and> k \<le> length buf"
proof (induction n arbitrary: pos ps)
  case (Suc n)
  then obtain kv p ps' where "read_args X 2 buf pos = Inr (Some (kv, p))"
    and rest: "read_pairs X n buf p = Inr (Some (ps', k))"
    by (auto split: option.splits sum.splits prod.splits simp del: read_args.simps)
  then have "pos \<le> p" and "p \<le> length buf"
    using read_args_within Suc.prems(2) by blast+
  with Suc.IH [OF rest] show ?case by simp
qed simp

lemma need_args_within:
  assumes "pos \<le> length buf" and "\<And>ds k. pos \<le> k \<Longrightarrow> k \<le> length buf \<Longrightarrow> frame_within m (f (ds, k))"
  shows "frame_within m (need (read_args X n buf pos) f)"
  using assms read_args_within by (intro need_cases_within) fastforce

lemma need_pairs_within:
  assumes "pos \<le> length buf" and "\<And>ps k. pos \<le> k \<Longrightarrow> k \<le> length buf \<Longrightarrow> frame_within m (f (ps, k))"
  shows "frame_within m (need (read_pairs X n buf pos) f)"
  using assms read_pairs_within by (intro need_cases_within) fastforce

lemma one_key_within:
  "pos \<le> length buf \<Longrightarrow> frame_within (length buf) (resp_one_key X name c n buf pos)"
  by (auto simp: resp_one_key_def intro!: need_within [OF read_arg_within])

lemma resp_set_within:
  "pos \<le> length buf \<Longrightarrow> frame_within (length buf) (resp_frame_set X n buf pos)"
  by (auto simp: resp_frame_set_def split: sum.splits
      intro!: need_within [OF read_arg_within] need_args_within)

lemma resp_expire_within:
  "pos \<le> length buf \<Longrightarrow> frame_within (length buf) (resp_expire X n buf pos)"
  by (auto simp: resp_expire_def split: option.splits intro!: need_within [OF read_arg_within])

lemma resp_mget_within:
  "0 < pos \<Longrightarrow> pos \<le> length buf \<Longrightarrow> frame_within (length buf) (resp_mget X n buf pos)"
  by (auto simp: resp_mget_def intro!: need_args_within)

lemma resp_mset_within:
  "0 < pos \<Longrightarrow> pos \<le> length buf \<Longrightarrow> frame_within (length buf) (resp_mset X n buf pos)"
  by (auto simp: resp_mset_def intro!: need_pairs_within)

lemma resp_command_within:
  "0 < pos \<Longrightarrow> pos \<le> length buf \<Longrightarrow> frame_within (length buf) (resp_command X verb n buf pos)"
  by (simp add: resp_command_def resp_frame_get_def resp_del_def resp_incr_def resp_exists_def resp_ttl_def
      one_key_within resp_set_within resp_expire_within resp_mget_within resp_mset_within)

lemma parse_resp_frame_within: "frame_within (length buf) (parse_resp_frame X buf)"
  unfolding parse_resp_frame_def
  by (auto intro!: need_within [OF line_int_within] need_within [OF read_arg_within] resp_command_within)

lemma inline_within: "frame_within (length buf) (try_parse_frame_inline X buf)"
  by (auto simp: try_parse_frame_inline_def Suc_le_eq dest!: memchr_Some
      split: option.splits sum.splits parse_error.splits)

end

section \<open>Frames are stable\<close>

text \<open>A read that did not run out of bytes gives the same result on a longer buffer.\<close>

lemma need_stable:
  assumes "r \<noteq> Inr None \<Longrightarrow> r' = r"
    and "\<And>a. r = Inr (Some a) \<Longrightarrow> f a \<noteq> Inr Incomplete \<Longrightarrow> f' a = f a"
    and "need r f \<noteq> Inr Incomplete"
  shows "need r' f' = need r f"
  using assms by (cases "(r, f)" rule: need.cases) auto

lemma if_stable:
  assumes "(if c then a else b) \<noteq> Inr Incomplete"
    and "a \<noteq> Inr Incomplete \<Longrightarrow> a' = a" and "b \<noteq> Inr Incomplete \<Longrightarrow> b' = b"
  shows "(if c then a' else b') = (if c then a else b)"
  using assms by (simp split: if_splits)

context crates_spec
begin

lemma memchr_stable: "memchr X b buf = Some i \<Longrightarrow> memchr X b (buf @ extra) = Some i"
proof -
  assume i: "memchr X b buf = Some i"
  note s = memchr_split [OF i]
  have "memchr X b (take i buf @ b # (drop (Suc i) buf @ extra)) = Some (length (take i buf))"
    using s(2) by (rule memchr_append)
  moreover have "take i buf @ b # (drop (Suc i) buf @ extra) = buf @ extra"
    using arg_cong [OF s(1), of "\<lambda>l. l @ extra"] by simp
  ultimately show ?thesis using s(3) by simp
qed

lemma line_int_stable:
  assumes "read_resp_line_int X buf p \<noteq> Inr None"
  shows "read_resp_line_int X (buf @ extra) p = read_resp_line_int X buf p"
proof -
  from assms have buf: "buf \<noteq> []" by (auto simp: read_resp_line_int_def)
  show ?thesis
  proof (cases "buf ! 0 = p \<and> memchr X (CHR 0x0A) buf \<noteq> None")
    case True
    then obtain i where i: "memchr X (CHR 0x0A) buf = Some i" by blast
    have "i < length buf" using memchr_Some [OF i] by simp
    with True i buf memchr_stable [OF i] show ?thesis
      by (simp add: read_resp_line_int_def Let_def nth_append subslice_def)
  next
    case False
    with assms buf show ?thesis
      by (auto simp: read_resp_line_int_def nth_append split: if_splits)
  qed
qed

lemma bulk_stable:
  assumes "read_resp_bulk X buf \<noteq> Inr None"
  shows "read_resp_bulk X (buf @ extra) = read_resp_bulk X buf"
proof -
  have ne: "read_resp_line_int X buf (CHR ''$'') \<noteq> Inr None"
    using assms by (auto simp: read_resp_bulk_def)
  show ?thesis
    using assms
    by (auto simp: read_resp_bulk_def line_int_stable [OF ne] subslice_def
        split: option.splits sum.splits prod.splits if_splits)
qed

lemma read_arg_stable:
  assumes "pos \<le> length buf" and "read_arg X buf pos \<noteq> Inr None"
  shows "read_arg X (buf @ extra) pos = read_arg X buf pos"
proof -
  have "read_resp_bulk X (drop pos buf) \<noteq> Inr None"
    using assms(2) by (auto simp: read_arg_def)
  from bulk_stable [OF this, of extra] show ?thesis using assms(1) by (simp add: read_arg_def)
qed

lemma read_args_stable:
  assumes "pos \<le> length buf" and "read_args X n buf pos \<noteq> Inr None"
  shows "read_args X n (buf @ extra) pos = read_args X n buf pos"
  using assms
proof (induction n arbitrary: pos)
  case (Suc n)
  have ne: "read_arg X buf pos \<noteq> Inr None" using Suc.prems(2) by auto
  have "read_args X n (buf @ extra) p = read_args X n buf p"
    if "read_arg X buf pos = Inr (Some (d, p))" for d p
  proof (rule Suc.IH)
    show "p \<le> length buf" using pos_withinD [OF read_arg_within that] by simp
    show "read_args X n buf p \<noteq> Inr None" using Suc.prems(2) that by auto
  qed
  with Suc.prems(1) read_arg_stable [OF _ ne, of extra] show ?case
    by (auto split: option.splits sum.splits)
qed simp

lemma read_pairs_stable:
  assumes "pos \<le> length buf" and "read_pairs X n buf pos \<noteq> Inr None"
  shows "read_pairs X n (buf @ extra) pos = read_pairs X n buf pos"
  using assms
proof (induction n arbitrary: pos)
  case (Suc n)
  have ne: "read_args X 2 buf pos \<noteq> Inr None" using Suc.prems(2) by (auto simp del: read_args.simps)
  have "read_pairs X n (buf @ extra) p = read_pairs X n buf p"
    if "read_args X 2 buf pos = Inr (Some (kv, p))" for kv p
  proof (rule Suc.IH)
    show "p \<le> length buf" using read_args_within [OF that Suc.prems(1)] by simp
    show "read_pairs X n buf p \<noteq> Inr None" using Suc.prems(2) that by (auto simp del: read_args.simps)
  qed
  with Suc.prems(1) read_args_stable [OF _ ne, of extra] show ?case
    by (auto split: option.splits sum.splits simp del: read_args.simps)
qed simp

text \<open>The next read starts where the last one ended, inside the buffer.\<close>

lemma need_arg_stable:
  assumes "pos \<le> length buf"
    and "\<And>d p. p \<le> length buf \<Longrightarrow> f (d, p) \<noteq> Inr Incomplete \<Longrightarrow> f' (d, p) = f (d, p)"
    and "need (read_arg X buf pos) f \<noteq> Inr Incomplete"
  shows "need (read_arg X (buf @ extra) pos) f' = need (read_arg X buf pos) f"
proof (rule need_stable [OF _ _ assms(3)])
  show "read_arg X buf pos \<noteq> Inr None \<Longrightarrow> read_arg X (buf @ extra) pos = read_arg X buf pos"
    using assms(1) by (rule read_arg_stable)
  show "f' a = f a" if "read_arg X buf pos = Inr (Some a)" and "f a \<noteq> Inr Incomplete" for a
    using assms(2) pos_withinD [OF read_arg_within, of buf pos "fst a" "snd a"] that by (cases a) auto
qed

lemma need_args_stable:
  assumes "pos \<le> length buf" and "need (read_args X n buf pos) f \<noteq> Inr Incomplete"
  shows "need (read_args X n (buf @ extra) pos) f = need (read_args X n buf pos) f"
  by (rule need_stable [OF _ _ assms(2)]) (simp_all add: assms(1) read_args_stable)

lemma need_pairs_stable:
  assumes "pos \<le> length buf" and "need (read_pairs X n buf pos) f \<noteq> Inr Incomplete"
  shows "need (read_pairs X n (buf @ extra) pos) f = need (read_pairs X n buf pos) f"
  by (rule need_stable [OF _ _ assms(2)]) (simp_all add: assms(1) read_pairs_stable)

lemma one_key_stable:
  assumes "pos \<le> length buf" and "resp_one_key X name c n buf pos \<noteq> Inr Incomplete"
  shows "resp_one_key X name c n (buf @ extra) pos = resp_one_key X name c n buf pos"
  using assms by (auto simp: resp_one_key_def intro!: need_arg_stable split: if_splits)

lemma resp_set_stable:
  assumes "pos \<le> length buf" and "resp_frame_set X n buf pos \<noteq> Inr Incomplete"
  shows "resp_frame_set X n (buf @ extra) pos = resp_frame_set X n buf pos"
  using assms unfolding resp_frame_set_def
  by (auto intro!: need_arg_stable need_args_stable split: if_splits sum.splits)

lemma resp_expire_stable:
  assumes "pos \<le> length buf" and "resp_expire X n buf pos \<noteq> Inr Incomplete"
  shows "resp_expire X n (buf @ extra) pos = resp_expire X n buf pos"
  using assms unfolding resp_expire_def
  by (auto intro!: need_arg_stable split: if_splits)

lemma resp_mget_stable:
  assumes "pos \<le> length buf" and "resp_mget X n buf pos \<noteq> Inr Incomplete"
  shows "resp_mget X n (buf @ extra) pos = resp_mget X n buf pos"
  using assms unfolding resp_mget_def
  by (auto intro!: need_args_stable split: if_splits)

lemma resp_mset_stable:
  assumes "pos \<le> length buf" and "resp_mset X n buf pos \<noteq> Inr Incomplete"
  shows "resp_mset X n (buf @ extra) pos = resp_mset X n buf pos"
  using assms unfolding resp_mset_def
  by (auto intro!: need_pairs_stable split: if_splits)

lemma resp_command_stable:
  assumes "pos \<le> length buf" and "resp_command X verb n buf pos \<noteq> Inr Incomplete"
  shows "resp_command X verb n (buf @ extra) pos = resp_command X verb n buf pos"
  using assms(2) unfolding resp_command_def
  by (elim if_stable)
    (simp_all add: assms(1) resp_frame_get_def resp_del_def resp_incr_def resp_exists_def resp_ttl_def
      one_key_stable resp_set_stable resp_expire_stable resp_mget_stable resp_mset_stable)

lemma parse_resp_frame_stable:
  assumes "parse_resp_frame X buf \<noteq> Inr Incomplete"
  shows "parse_resp_frame X (buf @ extra) = parse_resp_frame X buf"
  using assms unfolding parse_resp_frame_def
proof (rule need_stable [rotated 2])
  show "read_resp_line_int X buf (CHR ''*'') \<noteq> Inr None \<Longrightarrow>
      read_resp_line_int X (buf @ extra) (CHR ''*'') = read_resp_line_int X buf (CHR ''*'')"
    by (rule line_int_stable)
qed (auto dest: pos_withinD [OF line_int_within]
    intro!: need_arg_stable resp_command_stable split: if_splits)

lemma inline_stable:
  assumes "try_parse_frame_inline X buf \<noteq> Inr Incomplete"
  shows "try_parse_frame_inline X (buf @ extra) = try_parse_frame_inline X buf"
proof -
  obtain i where i: "memchr X (CHR 0x0A) buf = Some i"
    using assms by (auto simp: try_parse_frame_inline_def split: option.splits)
  with memchr_stable [OF i] memchr_Some [OF i] show ?thesis by (simp add: try_parse_frame_inline_def)
qed
lemma frame_within_buffer: "frame_within (length buf) (try_parse_frame X buf)"
  using parse_resp_frame_within inline_within by (simp add: try_parse_frame_def)

lemma frame_stable:
  "try_parse_frame X buf \<noteq> Inr Incomplete \<Longrightarrow> try_parse_frame X (buf @ extra) = try_parse_frame X buf"
  using parse_resp_frame_stable inline_stable
  by (auto simp: try_parse_frame_def nth_append split: if_splits)

end

definition demo_line :: bytes where
  "demo_line = ''get  k'' @ crlf"

lemma demo_line_parses: "try_parse_frame reference_crates demo_line = Inr (Complete 8 (CGet ''k''))"
  by code_simp

text \<open>
  One frame never reaches beyond the buffer and never stalls the session: a complete
  command and a skipped line consume at least one byte and at most the bytes received, on
  both protocols and on every input, however malformed.
\<close>

theorem try_parse_frame_consumes:
  assumes "crates_spec X"
  shows "(case try_parse_frame X buf of
            Inr (Complete n c) \<Rightarrow> 0 < n \<and> n \<le> length buf
          | Inr (Skip n) \<Rightarrow> 0 < n \<and> n \<le> length buf
          | _ \<Rightarrow> True)"
  using crates_spec.frame_within_buffer [OF assms, of buf]
  by (cases "(length buf, try_parse_frame X buf)" rule: frame_within.cases) auto

theorem try_parse_frame_consumes_witness:
  "try_parse_frame reference_crates demo_line = Inr (Complete 8 (CGet ''k'')) \<and> 8 \<le> length demo_line"
  using try_parse_frame_consumes [OF reference_crates.crates_spec_axioms, of demo_line]
  by (simp add: demo_line_parses)

text \<open>
  (C21) How the network cuts the stream does not matter: once the front of the buffer has
  been parsed to a command, a skipped line or an error, every longer buffer with the same
  front gives the same result.
\<close>

theorem try_parse_frame_stable:
  assumes "crates_spec X" and "try_parse_frame X buf \<noteq> Inr Incomplete"
  shows "try_parse_frame X (buf @ extra) = try_parse_frame X buf"
  using assms by (rule crates_spec.frame_stable)

theorem try_parse_frame_stable_witness:
  "try_parse_frame reference_crates demo_line = Inr (Complete 8 (CGet ''k'')) \<and>
   try_parse_frame reference_crates (demo_line @ ''PI'') = Inr (Complete 8 (CGet ''k''))"
  using try_parse_frame_stable [OF reference_crates.crates_spec_axioms, of demo_line "''PI''"]
  by (simp add: demo_line_parses)

end
