(* ===== verification/Wire.thy ===== *)
theory Wire
  imports Parser_Resp
begin

text \<open>
  Commands on the wire. \<open>command_args\<close> is the argument vector a client sends for a
  command; both protocols carry it, RESP as an array of bulk strings written with the
  server's own array writer, the inline protocol as words on a line. The parser reads each
  encoding back, and reads no proper prefix of it.
\<close>

section \<open>Argument vectors\<close>

fun flat_pairs :: "('a \<times> 'a) list \<Rightarrow> 'a list" where
  "flat_pairs [] = []"
| "flat_pairs ((k, v) # ps) = k # v # flat_pairs ps"

fun command_args :: "command \<Rightarrow> bytes list" where
  "command_args CPing = [''PING'']"
| "command_args (CGet k) = [''GET'', k]"
| "command_args (CSet k v None) = [''SET'', k, v]"
| "command_args (CSet k v (Some ttl)) = [''SET'', k, v, ''PX'', show_nat (as_millis ttl)]"
| "command_args (CDel k) = [''DEL'', k]"
| "command_args (CIncr k) = [''INCR'', k]"
| "command_args CInfo = [''INFO'']"
| "command_args CDbSize = [''DBSIZE'']"
| "command_args (CExists k) = [''EXISTS'', k]"
| "command_args (CTtl k) = [''TTL'', k]"
| "command_args (CExpire k s) = [''EXPIRE'', k, show_nat s]"
| "command_args CFlushDb = [''FLUSHDB'']"
| "command_args CKeys = [''KEYS'']"
| "command_args (CMget ks) = ''MGET'' # ks"
| "command_args (CMset ps) = ''MSET'' # flat_pairs ps"

text \<open>
  The commands that can be sent: a time to live of whole milliseconds and a number of
  seconds that fit a \<open>u64\<close>, at least one key for MGET and one pair for MSET.
\<close>

fun sendable :: "command \<Rightarrow> bool" where
  "sendable (CSet k v (Some ttl)) = (ttl = from_millis (as_millis ttl) \<and> as_millis ttl < 2 ^ 64)"
| "sendable (CExpire k s) = (s < 2 ^ 64)"
| "sendable (CMget ks) = (ks \<noteq> [])"
| "sendable (CMset ps) = (ps \<noteq> [])"
| "sendable _ = True"

lemma command_args_not_Nil [simp]: "command_args c \<noteq> []"
  by (cases c rule: command_args.cases) auto

lemma pair_words_pairs [simp]: "pair_words (flat_pairs ps) = Some ps"
  by (induction ps rule: flat_pairs.induct) auto

lemma length_flat_pairs [simp]: "length (flat_pairs ps) = 2 * length ps"
  by (induction ps rule: flat_pairs.induct) auto

lemma flat_pairs_Nil_iff [simp]: "flat_pairs ps = [] \<longleftrightarrow> ps = []"
  by (cases ps rule: flat_pairs.cases) auto

text \<open>The verbs are pairwise distinct up to case.\<close>

lemma eq_ignore_literal [code_unfold]:
  "eq_ignore_ascii_case a b \<longleftrightarrow> map ascii_lower a = map ascii_lower b"
  by (auto simp: eq_ignore_ascii_case_def byte_eq_ignore_case_def list_all2_conv_all_nth
      list_eq_iff_nth_eq)

lemmas verb_simps = eq_ignore_literal ascii_lower_def Let_def

lemma command_of_words_args: "sendable c \<Longrightarrow> command_of_words (command_args c) = Inr c"
  by (cases c rule: command_args.cases)
    (simp_all add: command_of_words_def verb_simps one_key_words_def set_words_def
      set_option_words_def ttl_words_def expire_words_def no_args_def mset_words_def
      parse_u64_show_nat)

section \<open>Inline lines\<close>

text \<open>A word of a line: non-empty, without white space.\<close>

definition is_word :: "bytes \<Rightarrow> bool" where
  "is_word w \<longleftrightarrow> w \<noteq> [] \<and> list_all (\<lambda>b. \<not> is_whitespace b) w"

fun join_words :: "bytes list \<Rightarrow> bytes" where
  "join_words [] = []"
| "join_words [w] = w"
| "join_words (w # ws) = w @ CHR '' '' # join_words ws"

definition inline_line :: "command \<Rightarrow> bytes" where
  "inline_line c = join_words (command_args c) @ crlf"

lemma words_word_space:
  assumes "is_word w" and "is_whitespace b"
  shows "words (w @ b # rest) = w # words rest"
  using assms words_from_word [of w "[]" "b # rest"]
  by (auto simp: is_word_def words_def list_all_iff)

lemma words_join: "list_all is_word ws \<Longrightarrow> words (join_words ws @ [CHR 0x0D]) = ws"
proof (induction ws rule: join_words.induct)
  case 1
  then show ?case by (simp add: words_def is_whitespace_def)
next
  case (2 w)
  then show ?case using words_word_space [of w "CHR 0x0D" "[]"] by (simp add: is_whitespace_def)
next
  case (3 w v ws)
  then show ?case by (simp add: words_word_space is_whitespace_def)
qed

lemma join_words_no_lf: "list_all is_word ws \<Longrightarrow> CHR 0x0A \<notin> set (join_words ws)"
  by (induction ws rule: join_words.induct) (auto simp: is_word_def list_all_iff is_whitespace_def)

lemma join_words_first: "w \<noteq> [] \<Longrightarrow> (join_words (w # ws) @ rest) ! 0 = w ! 0"
  by (cases ws) (simp_all add: nth_append)

lemma inline_line_first: "inline_line c @ rest \<noteq> [] \<and> (inline_line c @ rest) ! 0 \<noteq> CHR ''*''"
proof
  show "inline_line c @ rest \<noteq> []" by (simp add: inline_line_def crlf_def)
  show "(inline_line c @ rest) ! 0 \<noteq> CHR ''*''"
    by (cases c rule: command_args.cases) (simp_all add: inline_line_def join_words_first del: join_words.simps)
qed

section \<open>RESP bulk strings\<close>

abbreviation bulks :: "crates \<Rightarrow> bytes list \<Rightarrow> bytes" where
  "bulks X ds \<equiv> concat (map (\<lambda>d. write_bulk X (Some d)) ds)"

lemma resp_digits_val:
  "digits_val n bs = Some m \<Longrightarrow> m < 2 ^ 63 \<Longrightarrow> resp_digits (int n) bs = Inr (int m)"
proof (induction bs arbitrary: n)
  case (Cons b bs)
  have d: "is_ascii_digit b" and v: "digits_val (n * 10 + digit_val b) bs = Some m"
    using Cons.prems(1) by (auto split: if_splits)
  have le: "n * 10 + digit_val b \<le> m"
    using v by (rule digits_val_mono)
  have "in_i64 (int n * 10 + int (digit_val b))" and "in_i64 (int n * 10)"
    using le Cons.prems(2) by (auto simp: in_i64_def)
  then show ?case
    using d Cons.IH [OF v Cons.prems(2)] by simp
qed simp


lemma resp_number_show_nat: "n < 2 ^ 63 \<Longrightarrow> resp_number (show_nat n) = Inr (int n)"
  using show_nat_Cons [of n] resp_digits_val [OF digits_val_show_nat, of n]
  by (auto simp: resp_number_def)

lemma no_lf_show_nat [simp]: "CHR 0x0A \<notin> set (show_nat n)"
  using show_nat_digits [of n] by (auto simp: is_ascii_digit_def)

context crates_spec
begin

text \<open>The header line of an array or of a bulk string, cut after \<open>m\<close> bytes.\<close>

lemma line_int_take:
  assumes "n < 2 ^ 63" and "p \<noteq> CHR 0x0A" and "h = p # show_nat n @ crlf"
  shows "read_resp_line_int X (take m (h @ rest)) p =
           (if m < length h then Inr None else Inr (Some (int n, length h)))"
proof -
  let ?h = "p # show_nat n @ [CHR 0x0D]"
  have hh: "h = ?h @ [CHR 0x0A]" using assms(3) by (simp add: crlf_def)
  have no: "CHR 0x0A \<notin> set ?h" using assms(2) by auto
  show ?thesis
  proof (cases "m < length h")
    case True
    then have "m - length ?h = 0" by (simp add: hh)
    then have t: "take m (h @ rest) = take m ?h"
      by (simp only: hh append_assoc take_append take_0 append_Nil2 diff_0_eq_0)
    have "memchr X (CHR 0x0A) (take m ?h) = None"
      using no by (intro memchr_eq_None) (auto dest: in_set_takeD)
    with True t show ?thesis by (cases m) (auto simp: read_resp_line_int_def)
  next
    case False
    define r where "r = take (m - length h) rest"
    have "take m (h @ rest) = h @ r" using False by (simp add: r_def)
    then have r: "take m (h @ rest) = ?h @ CHR 0x0A # r" by (simp only: hh append_assoc append.simps)
    have "memchr X (CHR 0x0A) (?h @ CHR 0x0A # r) = Some (length ?h)"
      using no by (rule memchr_append)
    moreover have "subslice 1 (length ?h - 1) (?h @ CHR 0x0A # r) = show_nat n"
      by (simp add: subslice_def)
    moreover have "(?h @ CHR 0x0A # r) ! (length ?h - 1) = CHR 0x0D"
      by (simp add: nth_append)
    ultimately have "read_resp_line_int X (?h @ CHR 0x0A # r) p = Inr (Some (int n, length ?h + 1))"
      using resp_number_show_nat [OF assms(1)] by (simp add: read_resp_line_int_def Let_def)
    with False r show ?thesis by (simp add: hh)
  qed
qed

lemma bulk_take:
  assumes "length d < 2 ^ 63"
  shows "read_resp_bulk X (take m (write_bulk X (Some d) @ rest)) =
           (if m < length (write_bulk X (Some d)) then Inr None
            else Inr (Some (d, length (write_bulk X (Some d)))))"
proof -
  define h where "h = CHR ''$'' # show_nat (length d) @ crlf"
  have w: "write_bulk X (Some d) = h @ d @ crlf"
    by (simp add: write_bulk_def itoa_decimal h_def)
  have l: "read_resp_line_int X (take m (h @ (d @ crlf @ rest))) (CHR ''$'') =
      (if m < length h then Inr None else Inr (Some (int (length d), length h)))"
    using assms by (intro line_int_take) (simp_all add: h_def)
  have c: "length crlf = 2" by (simp add: crlf_def)
  show ?thesis
  proof (cases "m < length h")
    case True
    with l show ?thesis by (simp add: read_resp_bulk_def w)
  next
    case False
    have "subslice (length h) (length h + length d) (take m (h @ d @ crlf @ rest)) = take (m - length h) d"
      if "length h + length d + 2 \<le> m" using that by (simp add: subslice_def)
    with False l c show ?thesis by (auto simp: read_resp_bulk_def w)
  qed
qed

text \<open>Reading arguments from a stream of which \<open>m\<close> bytes have arrived.\<close>

lemma read_arg_take:
  assumes "drop p full = write_bulk X (Some d) @ rest" and "length d < 2 ^ 63" and "p \<le> m"
  shows "read_arg X (take m full) p =
           (if m < p + length (write_bulk X (Some d)) then Inr None
            else Inr (Some (d, p + length (write_bulk X (Some d)))))"
proof -
  have "drop p (take m full) = take (m - p) (write_bulk X (Some d) @ rest)"
    using assms(1) by (simp add: drop_take)
  with bulk_take [OF assms(2), of "m - p" rest] show ?thesis
    using assms(3) by (auto simp: read_arg_def)
qed

lemma read_args_take:
  assumes "drop p full = bulks X ds @ rest" and "\<forall>d \<in> set ds. length d < 2 ^ 63" and "p \<le> m"
  shows "read_args X (length ds) (take m full) p =
           (if m < p + length (bulks X ds) then Inr None else Inr (Some (ds, p + length (bulks X ds))))"
  using assms
proof (induction ds arbitrary: p)
  case (Cons d ds)
  let ?q = "p + length (write_bulk X (Some d))"
  have one: "read_arg X (take m full) p = (if m < ?q then Inr None else Inr (Some (d, ?q)))"
    using Cons.prems by (intro read_arg_take [where rest = "bulks X ds @ rest"]) auto
  have "drop ?q full = bulks X ds @ rest"
    using drop_add_append [of p full "write_bulk X (Some d)" "bulks X ds @ rest"] Cons.prems(1) by simp
  with Cons one show ?case by (auto simp: add.assoc)
qed simp

lemma read_pairs_take:
  assumes "drop p full = bulks X (flat_pairs ps) @ rest"
    and "\<forall>d \<in> set (flat_pairs ps). length d < 2 ^ 63" and "p \<le> m"
  shows "read_pairs X (length ps) (take m full) p =
           (if m < p + length (bulks X (flat_pairs ps)) then Inr None
            else Inr (Some (ps, p + length (bulks X (flat_pairs ps)))))"
  using assms
proof (induction ps arbitrary: p rule: flat_pairs.induct)
  case (2 k v ps)
  let ?q = "p + length (bulks X [k, v])"
  have two: "read_args X (length [k, v]) (take m full) p =
      (if m < ?q then Inr None else Inr (Some ([k, v], ?q)))"
    using "2.prems" by (intro read_args_take [where rest = "bulks X (flat_pairs ps) @ rest"]) auto
  have "drop ?q full = bulks X (flat_pairs ps) @ rest"
    using drop_add_append [of p full "bulks X [k, v]" "bulks X (flat_pairs ps) @ rest"] "2.prems"(1)
    by (simp add: add.assoc)
  with 2 two show ?case
    by (auto simp: numeral_2_eq_2 bytes_to_string_def add.assoc simp del: read_args.simps)
qed simp

end


section \<open>Frames\<close>

definition resp_frame :: "crates \<Rightarrow> command \<Rightarrow> bytes" where
  "resp_frame X c = write_array X (map Some (command_args c))"

definition frame_fits :: "command \<Rightarrow> bool" where
  "frame_fits c \<longleftrightarrow> sendable c \<and> length (command_args c) \<le> 1024 \<and>
     list_all (\<lambda>d. length d < 2 ^ 63) (command_args c)"

text \<open>
  The arguments at position \<open>p\<close> of a stream, and the result of a frame whose last
  arguments lie there when \<open>m\<close> bytes have arrived.
\<close>

definition args_at :: "crates \<Rightarrow> bytes \<Rightarrow> nat \<Rightarrow> bytes list \<Rightarrow> bool" where
  "args_at X full p ds \<longleftrightarrow>
     (\<exists>rest. drop p full = bulks X ds @ rest) \<and> (\<forall>d \<in> set ds. length d < 2 ^ 63)"

definition arrives :: "crates \<Rightarrow> nat \<Rightarrow> nat \<Rightarrow> bytes list \<Rightarrow> command \<Rightarrow> parse_error + frame_result" where
  "arrives X m p ds c =
     (if m < p + length (bulks X ds) then Inr Incomplete
      else Inr (Complete (p + length (bulks X ds)) c))"

lemma arrives_Nil [simp]: "p \<le> m \<Longrightarrow> arrives X m p [] c = Inr (Complete p c)"
  by (simp add: arrives_def)

lemma resp_command_verbs:
  "resp_command X ''PING'' n buf p = Inr (Complete p CPing)"
  "resp_command X ''INFO'' n buf p = Inr (Complete p CInfo)"
  "resp_command X ''DBSIZE'' n buf p = Inr (Complete p CDbSize)"
  "resp_command X ''FLUSHDB'' n buf p = Inr (Complete p CFlushDb)"
  "resp_command X ''KEYS'' n buf p = Inr (Complete p CKeys)"
  "resp_command X ''GET'' n buf p = resp_one_key X ''GET'' CGet n buf p"
  "resp_command X ''DEL'' n buf p = resp_one_key X ''DEL'' CDel n buf p"
  "resp_command X ''INCR'' n buf p = resp_one_key X ''INCR'' CIncr n buf p"
  "resp_command X ''EXISTS'' n buf p = resp_one_key X ''EXISTS'' CExists n buf p"
  "resp_command X ''TTL'' n buf p = resp_one_key X ''TTL'' CTtl n buf p"
  "resp_command X ''SET'' n buf p = resp_frame_set X n buf p"
  "resp_command X ''EXPIRE'' n buf p = resp_expire X n buf p"
  "resp_command X ''MGET'' n buf p = resp_mget X n buf p"
  "resp_command X ''MSET'' n buf p = resp_mset X n buf p"
  by (simp_all add: resp_command_def verb_simps resp_frame_get_def resp_del_def resp_incr_def
      resp_exists_def resp_ttl_def)

context crates_spec
begin

lemma resp_frame_split:
  "resp_frame X c = (CHR ''*'' # show_nat (length (command_args c)) @ crlf) @ bulks X (command_args c)"
  by (simp add: resp_frame_def write_array_def itoa_decimal comp_def)

lemma need_arg_arrives:
  assumes "args_at X full p (d # ds)" and "p \<le> m"
    and "\<And>q. args_at X full q ds \<Longrightarrow> q \<le> m \<Longrightarrow> f (d, q) = arrives X m q ds c"
  shows "need (read_arg X (take m full) p) f = arrives X m p (d # ds) c"
proof -
  let ?q = "p + length (write_bulk X (Some d))"
  obtain rest where rest: "drop p full = write_bulk X (Some d) @ bulks X ds @ rest"
    and small: "length d < 2 ^ 63" "\<forall>d \<in> set ds. length d < 2 ^ 63"
    using assms(1) by (auto simp: args_at_def)
  have at: "args_at X full ?q ds"
    using drop_add_append [OF rest] small(2) by (auto simp: args_at_def)
  show ?thesis
    using read_arg_take [OF rest small(1) assms(2)] assms(3) [OF at]
    by (auto simp: arrives_def add.assoc)
qed

lemma need_args_arrives:
  assumes "args_at X full p ds" and "p \<le> m" and "\<And>q. q \<le> m \<Longrightarrow> f (ds, q) = Inr (Complete q c)"
  shows "need (read_args X (length ds) (take m full) p) f = arrives X m p ds c"
  using assms read_args_take [of p full ds _ m] by (auto simp: args_at_def arrives_def)

lemma need_pairs_arrives:
  assumes "args_at X full p (flat_pairs ps)" and "p \<le> m"
    and "\<And>q. q \<le> m \<Longrightarrow> f (ps, q) = Inr (Complete q c)"
  shows "need (read_pairs X (length ps) (take m full) p) f = arrives X m p (flat_pairs ps) c"
  using assms read_pairs_take [of p full ps _ m] by (auto simp: args_at_def arrives_def)

lemma resp_one_key_arrives:
  assumes "args_at X full p [k]" and "p \<le> m"
  shows "resp_one_key X name con 1 (take m full) p = arrives X m p [k] (con k)"
  using assms by (simp add: resp_one_key_def) (rule need_arg_arrives, simp_all)

lemma resp_set_arrives:
  assumes "args_at X full p [k, v]" and "p \<le> m"
  shows "resp_frame_set X 2 (take m full) p = arrives X m p [k, v] (CSet k v None)"
  unfolding resp_frame_set_def
  by (simp, rule need_arg_arrives [OF assms], simp, rule need_arg_arrives) simp_all

lemma resp_set_ttl_arrives:
  assumes "args_at X full p [k, v, ''PX'', n]" and "p \<le> m" and "parse_u64 n = Some t"
  shows "resp_frame_set X 4 (take m full) p = arrives X m p [k, v, ''PX'', n] (CSet k v (Some (from_millis t)))"
proof -
  have opt: "resp_set_option ''PX'' n = Inr (Some (from_millis t))"
    using assms(3) by (simp add: resp_set_option_def verb_simps)
  show ?thesis
    unfolding resp_frame_set_def
    by (simp, rule need_arg_arrives [OF assms(1,2)], simp, rule need_arg_arrives, simp_all,
        rule need_arg_arrives, simp_all, rule need_arg_arrives, simp_all add: opt)
qed

lemma resp_expire_arrives:
  assumes "args_at X full p [k, n]" and "p \<le> m" and "parse_u64 n = Some t"
  shows "resp_expire X 2 (take m full) p = arrives X m p [k, n] (CExpire k t)"
  unfolding resp_expire_def
  by (simp, rule need_arg_arrives [OF assms(1,2)], simp, rule need_arg_arrives) (simp_all add: assms(3))

lemma resp_mget_arrives:
  assumes "args_at X full p ks" and "p \<le> m" and "ks \<noteq> []"
  shows "resp_mget X (length ks) (take m full) p = arrives X m p ks (CMget ks)"
  using assms by (simp add: resp_mget_def Suc_le_eq need_args_arrives)

lemma resp_mset_arrives:
  assumes "args_at X full p (flat_pairs ps)" and "p \<le> m" and "ps \<noteq> []"
  shows "resp_mset X (2 * length ps) (take m full) p = arrives X m p (flat_pairs ps) (CMset ps)"
  using assms by (simp add: resp_mset_def need_pairs_arrives)

lemmas verb_arrives = resp_one_key_arrives resp_set_arrives resp_set_ttl_arrives resp_expire_arrives

lemma resp_command_arrives:
  assumes "sendable c" and "command_args c = verb # args" and "args_at X full p args" and "p \<le> m"
  shows "resp_command X verb (length args) (take m full) p = arrives X m p args c"
proof -
  have len: "0 + Suc 0 = 1" "1 + Suc 0 = 2" "2 + Suc 0 + Suc 0 = 4" by simp_all
  show ?thesis
    using assms
    by (cases c rule: command_args.cases)
      (auto simp only: resp_command_verbs len verb_arrives resp_mget_arrives resp_mset_arrives
        parse_u64_show_nat command_args.simps sendable.simps list.inject list.size arrives_Nil
        length_flat_pairs simp_thms)
qed

lemma resp_frame_take:
  assumes "frame_fits c"
  shows "try_parse_frame X (take m (resp_frame X c @ rest)) =
           (if m < length (resp_frame X c) then Inr Incomplete
            else Inr (Complete (length (resp_frame X c)) c))"
proof -
  let ?n = "length (command_args c)"
  define h where "h = CHR ''*'' # show_nat ?n @ crlf"
  obtain verb args where c: "command_args c = verb # args" by (cases "command_args c") auto
  have f: "resp_frame X c = h @ bulks X (verb # args)"
    using c by (simp add: resp_frame_split h_def)
  have n: "sendable c" "?n \<le> 1024" "\<forall>d \<in> set (verb # args). length d < 2 ^ 63" "0 < ?n"
    using assms c by (simp_all add: frame_fits_def list_all_iff)
  let ?full = "h @ (bulks X (verb # args) @ rest)"
  have line: "read_resp_line_int X (take m ?full) (CHR ''*'') =
      (if m < length h then Inr None else Inr (Some (int ?n, length h)))"
    using n(2) by (intro line_int_take) (simp_all add: h_def)
  have body: "need (read_arg X (take m ?full) (length h)) (\<lambda>(verb, pos).
      resp_command X verb (?n - 1) (take m ?full) pos) = arrives X m (length h) (verb # args) c"
    if "length h \<le> m"
  proof (rule need_arg_arrives [OF _ that])
    show "args_at X ?full (length h) (verb # args)" using n(3) by (simp add: args_at_def)
    show "(\<lambda>(verb, pos). resp_command X verb (?n - 1) (take m ?full) pos) (verb, q) = arrives X m q args c"
      if "args_at X ?full q args" and "q \<le> m" for q
      using resp_command_arrives [OF n(1) c that] by (simp only: split_conv c list.size diff_Suc_1 add_Suc_right add_0_right)
  qed
  have "parse_resp_frame X (take m ?full) = arrives X m (length h) (verb # args) c"
    using line body n(2,4) by (cases "m < length h") (auto simp: parse_resp_frame_def arrives_def)
  then show ?thesis
    by (cases m) (auto simp: f try_parse_frame_def arrives_def h_def)
qed

lemma inline_line_parses:
  assumes "sendable c" and "list_all is_word (command_args c)"
  shows "try_parse_frame_inline X (inline_line c @ rest) = Inr (Complete (length (inline_line c)) c)"
proof -
  let ?l = "join_words (command_args c) @ [CHR 0x0D]"
  have l: "inline_line c @ rest = ?l @ CHR 0x0A # rest" by (simp add: inline_line_def crlf_def)
  have "CHR 0x0A \<notin> set ?l" using join_words_no_lf [OF assms(2)] by simp
  then have "memchr X (CHR 0x0A) (?l @ CHR 0x0A # rest) = Some (length ?l)" by (rule memchr_append)
  moreover have "parse_bytes ?l = Inr c"
    using assms by (simp add: parse_bytes_words words_join command_of_words_args)
  ultimately show ?thesis by (simp add: try_parse_frame_inline_def l inline_line_def crlf_def)
qed

end

text \<open>
  (C7) RESP round trip, byte by byte: of the frame that encodes a command, no proper
  prefix is taken for a command or rejected, and as soon as the last byte is there the
  parser returns exactly that command and consumes exactly the frame, whatever follows. Keys
  and values are arbitrary bytes.
\<close>

theorem resp_frame_roundtrip:
  assumes "crates_spec X" and "frame_fits c"
  shows "try_parse_frame X (take m (resp_frame X c @ rest)) =
           (if m < length (resp_frame X c) then Inr Incomplete
            else Inr (Complete (length (resp_frame X c)) c))"
  using assms by (rule crates_spec.resp_frame_take)

definition demo_set :: command where
  "demo_set = CSet ''k'' [CHR 0x0D, CHR 0x0A] (Some (from_millis 5))"

lemma demo_set_frame:
  "frame_fits demo_set"
  "length (resp_frame reference_crates demo_set) = 43"
  by (simp_all add: demo_set_def frame_fits_def resp_frame_def write_array_def write_bulk_def crlf_def
      reference_crates.itoa_decimal show_int_def show_nat.simps)

theorem resp_frame_roundtrip_witness:
  "try_parse_frame reference_crates (take 42 (resp_frame reference_crates demo_set @ ''*1'')) = Inr Incomplete \<and>
   try_parse_frame reference_crates (take 44 (resp_frame reference_crates demo_set @ ''*1'')) =
     Inr (Complete 43 demo_set)"
  using resp_frame_roundtrip [OF reference_crates.crates_spec_axioms demo_set_frame(1), of 42 "''*1''"]
    resp_frame_roundtrip [OF reference_crates.crates_spec_axioms demo_set_frame(1), of 44 "''*1''"]
  unfolding demo_set_frame(2) by simp

text \<open>
  Inline round trip: a command whose key and values are words, sent as one line, is
  parsed back with exactly its line consumed.
\<close>

theorem inline_line_roundtrip:
  assumes "crates_spec X" and "sendable c" and "list_all is_word (command_args c)"
  shows "try_parse_frame X (inline_line c @ rest) = Inr (Complete (length (inline_line c)) c)"
  using crates_spec.inline_line_parses [OF assms] inline_line_first [of c rest]
  by (simp add: try_parse_frame_def)

theorem inline_line_roundtrip_witness:
  "try_parse_frame reference_crates (inline_line (CExpire ''k'' 30) @ ''x'') =
     Inr (Complete (length (inline_line (CExpire ''k'' 30))) (CExpire ''k'' 30))"
proof (rule inline_line_roundtrip [OF reference_crates.crates_spec_axioms])
  show "sendable (CExpire ''k'' 30)" and "list_all is_word (command_args (CExpire ''k'' 30))"
    by (simp_all add: is_word_def is_whitespace_def show_nat.simps digit_char_def char_of_def)
qed

end
