(* ===== verification/Parser_Borrowed.thy ===== *)
theory Parser_Borrowed
  imports Wire
begin

text \<open>
  The second inline parser (\<open>src/src/protocol/parser_borrowed.rs\<close>), the one the session
  uses for inline connections: it looks for CRLF, returns borrowed commands, and parses the
  arguments by its own code. Its agreement with \<open>parse_bytes\<close> is proved here, and
  where the two part: the options of SET, and lines that end in a bare LF.
\<close>

section \<open>Definitions\<close>

datatype frame_result_borrowed =
    BComplete nat parsed_command
  | BIncomplete
  | BSkip nat

text \<open>The scan of \<open>find_command_end\<close> from position \<open>i\<close>.\<close>

fun crlf_from :: "nat \<Rightarrow> bytes \<Rightarrow> nat option" where
  "crlf_from i (a # b # bs) =
     (if a = CHR 0x0D \<and> b = CHR 0x0A then Some (i + 2) else crlf_from (i + 1) (b # bs))"
| "crlf_from i _ = None"

definition find_command_end :: "bytes \<Rightarrow> nat" where
  "find_command_end buf = (case crlf_from 0 buf of Some i \<Rightarrow> i | None \<Rightarrow> length buf)"

text \<open>The digit loop on a \<open>u64\<close>, which wraps around.\<close>

fun u64_digits :: "nat \<Rightarrow> bytes \<Rightarrow> nat option" where
  "u64_digits n [] = Some n"
| "u64_digits n (b # bs) =
     (if \<not> is_ascii_digit b then None
      else u64_digits (wrap_u64 (wrap_u64 (n * 10) + digit_val b)) bs)"

definition parse_u64_ascii :: "bytes \<Rightarrow> nat option" where
  "parse_u64_ascii buf = (if buf = [] then None else u64_digits 0 buf)"

definition parse_get_borrowed :: "bytes \<Rightarrow> nat \<Rightarrow> parse_error + frame_result_borrowed" where
  "parse_get_borrowed rest command_end =
     (let rest_trimmed = trim rest in
      if rest_trimmed = [] then Inl (PE_SyntaxError (one_key_usage ''GET''))
      else let (key, trailing) = split_first_word rest_trimmed; trailing = trim trailing in
        if trailing \<noteq> [] then Inl (PE_SyntaxError (one_key_usage ''GET''))
        else Inr (BComplete command_end (PGet key)))"

definition borrowed_set_usage :: bytes where
  "borrowed_set_usage = ''SET requires at least 2 arguments: SET <key> <value>''"

definition parse_set_borrowed :: "bytes \<Rightarrow> nat \<Rightarrow> parse_error + frame_result_borrowed" where
  "parse_set_borrowed rest command_end =
     (let rest_trimmed = trim rest in
      if rest_trimmed = [] then Inl (PE_SyntaxError borrowed_set_usage)
      else let (key, value_part) = split_first_word rest_trimmed in
      if key = [] then Inl (PE_SyntaxError borrowed_set_usage)
      else let value_part = trim value_part in
      if value_part = [] then Inl (PE_SyntaxError borrowed_set_usage)
      else let (val, trailing) = split_first_word value_part; trailing = trim trailing in
      if trailing \<noteq> [] then
        (let (ttl_str, after_ttl) = split_first_word trailing; after_ttl = trim after_ttl in
         if after_ttl \<noteq> [] then
           Inl (PE_SyntaxError ''SET requires at most 4 arguments: SET <key> <value> [EX <seconds>]'')
         else Inr (BComplete command_end (PSet key val (map_option from_secs (parse_u64_ascii ttl_str)))))
      else Inr (BComplete command_end (PSet key val None)))"

definition parse_del_borrowed :: "bytes \<Rightarrow> nat \<Rightarrow> parse_error + frame_result_borrowed" where
  "parse_del_borrowed rest command_end =
     (let rest = trim rest in
      if rest = [] then Inl (PE_SyntaxError (one_key_usage ''DEL''))
      else let (key, trailing) = split_first_word rest; trailing = trim trailing in
        if trailing \<noteq> [] then Inl (PE_SyntaxError (one_key_usage ''DEL''))
        else Inr (BComplete command_end (PDel key)))"

definition parse_incr_borrowed :: "bytes \<Rightarrow> nat \<Rightarrow> parse_error + frame_result_borrowed" where
  "parse_incr_borrowed rest command_end =
     (let rest = trim rest in
      if rest = [] then Inl (PE_SyntaxError (one_key_usage ''INCR''))
      else let (key, trailing) = split_first_word rest; trailing = trim trailing in
        if trailing \<noteq> [] then Inl (PE_SyntaxError (one_key_usage ''INCR''))
        else Inr (BComplete command_end (PIncr key)))"

definition parse_single_key_borrowed ::
    "bytes \<Rightarrow> nat \<Rightarrow> (bytes \<Rightarrow> parsed_command) \<Rightarrow> parse_error + frame_result_borrowed" where
  "parse_single_key_borrowed rest command_end constructor =
     (let rest = trim rest in
      if rest = [] then Inl (PE_SyntaxError ''Command requires exactly 1 argument'')
      else let (key, trailing) = split_first_word rest; trailing = trim trailing in
        if trailing \<noteq> [] then Inl (PE_SyntaxError ''Command requires exactly 1 argument'')
        else Inr (BComplete command_end (constructor key)))"

definition expire_usage :: bytes where
  "expire_usage = ''EXPIRE requires exactly 2 arguments: EXPIRE <key> <seconds>''"

definition parse_expire_borrowed :: "bytes \<Rightarrow> nat \<Rightarrow> parse_error + frame_result_borrowed" where
  "parse_expire_borrowed rest command_end =
     (let rest = trim rest in
      if rest = [] then Inl (PE_SyntaxError expire_usage)
      else let (key, seconds_part) = split_first_word rest; seconds_part = trim seconds_part in
      if seconds_part = [] then Inl (PE_SyntaxError expire_usage)
      else case parse_u64_ascii seconds_part of
        None \<Rightarrow> Inl (PE_SyntaxError ''EXPIRE: seconds must be a positive integer'')
      | Some seconds \<Rightarrow> Inr (BComplete command_end (PExpire key seconds)))"

lemma trim_whitespace_shorter:
  assumes "is_whitespace c"
  shows "length (trim (c # cs)) \<le> length cs"
proof -
  have "trim (c # cs) = trim cs" using assms by (simp add: trim_def)
  then show ?thesis using length_trim [of cs] by simp
qed

lemma trim_split_shorter:
  assumes "buf \<noteq> []" and "split_first_word buf = (w, rest)"
  shows "length (trim rest) < length buf"
proof (cases buf)
  case (Cons c cs)
  show ?thesis
  proof (cases "is_whitespace c")
    case True
    then have "rest = c # cs" using Cons assms(2) by (simp add: split_first_word_def)
    with True Cons trim_whitespace_shorter [OF True, of cs] show ?thesis by simp
  next
    case False
    then have "length rest \<le> length cs"
      using Cons assms(2) by (auto simp: split_first_word_def length_dropWhile_le)
    with Cons length_trim [of rest] show ?thesis by simp
  qed
qed (use assms in simp)

function mget_borrowed_tokens :: "bytes \<Rightarrow> bytes list" where
  "mget_borrowed_tokens remaining =
     (if remaining = [] then []
      else case split_first_word remaining of (key, trailing) \<Rightarrow>
        (if key \<noteq> [] then [key] else []) @ mget_borrowed_tokens (trim trailing))"
  by pat_completeness auto
termination
  by (relation "measure length") (auto dest: trim_split_shorter [OF _ sym])

definition parse_mget_borrowed :: "bytes \<Rightarrow> nat \<Rightarrow> parse_error + frame_result_borrowed" where
  "parse_mget_borrowed rest command_end =
     (let rest = trim rest in
      if rest = [] then Inl (PE_SyntaxError ''MGET requires at least 1 key'')
      else let keys = mget_borrowed_tokens rest in
      if keys = [] then Inl (PE_SyntaxError ''MGET requires at least 1 key'')
      else Inr (BComplete command_end (PMget keys)))"

function mset_borrowed_tokens :: "(bytes \<times> bytes) list \<Rightarrow> bytes \<Rightarrow> parse_error + (bytes \<times> bytes) list" where
  "mset_borrowed_tokens pairs remaining =
     (if remaining = [] then Inr pairs
      else case split_first_word remaining of (key, trailing) \<Rightarrow>
        if key = [] then Inr pairs
        else if trim trailing = [] then Inl (PE_SyntaxError ''MSET requires even number of arguments'')
        else case split_first_word (trim trailing) of (val, trailing') \<Rightarrow>
          mset_borrowed_tokens (pairs @ [(key, val)]) (trim trailing'))"
  by pat_completeness auto
termination
  by (relation "measure (length \<circ> snd)") (auto dest!: trim_split_shorter [OF _ sym])

declare mget_borrowed_tokens.simps [simp del] mset_borrowed_tokens.simps [simp del]

definition borrowed_mset_usage :: bytes where
  "borrowed_mset_usage = ''MSET requires at least 2 arguments: MSET <key> <value>''"

definition parse_mset_borrowed :: "bytes \<Rightarrow> nat \<Rightarrow> parse_error + frame_result_borrowed" where
  "parse_mset_borrowed rest command_end =
     (let rest = trim rest in
      if rest = [] then Inl (PE_SyntaxError borrowed_mset_usage)
      else case mset_borrowed_tokens [] rest of
        Inl e \<Rightarrow> Inl e
      | Inr pairs \<Rightarrow>
          if pairs = [] then Inl (PE_SyntaxError borrowed_mset_usage)
          else Inr (BComplete command_end (PMset pairs)))"

text \<open>
  The position at which \<open>parse_inline_borrowed\<close> cuts: the CR of a CRLF, or one byte
  before a bare LF; \<open>None\<close> when the first CR or LF is neither.
\<close>

definition borrowed_line_end :: "crates \<Rightarrow> bytes \<Rightarrow> nat option" where
  "borrowed_line_end X inp =
     (case memchr2 X (CHR 0x0D) (CHR 0x0A) inp of
        None \<Rightarrow> None
      | Some p \<Rightarrow>
          if p + 1 < length inp \<and> inp ! p = CHR 0x0D \<and> inp ! (p + 1) = CHR 0x0A then Some p
          else if inp ! p = CHR 0x0A then Some (p - 1)
          else None)"

definition parse_borrowed_line :: "bytes \<Rightarrow> nat \<Rightarrow> parse_error + frame_result_borrowed" where
  "parse_borrowed_line line command_end =
     (let inp = trim line in
      if inp = [] then Inr (BSkip command_end)
      else let (verb, rest) = split_first_word inp in
      if eq_ignore_ascii_case verb ''GET'' then parse_get_borrowed rest command_end
      else if eq_ignore_ascii_case verb ''SET'' then parse_set_borrowed rest command_end
      else if eq_ignore_ascii_case verb ''PING'' then Inr (BComplete command_end PPing)
      else if eq_ignore_ascii_case verb ''DEL'' then parse_del_borrowed rest command_end
      else if eq_ignore_ascii_case verb ''INCR'' then parse_incr_borrowed rest command_end
      else if eq_ignore_ascii_case verb ''INFO'' then Inr (BComplete command_end PInfo)
      else if eq_ignore_ascii_case verb ''DBSIZE'' then Inr (BComplete command_end PDbSize)
      else if eq_ignore_ascii_case verb ''EXISTS'' then parse_single_key_borrowed rest command_end PExists
      else if eq_ignore_ascii_case verb ''TTL'' then parse_single_key_borrowed rest command_end PTtl
      else if eq_ignore_ascii_case verb ''EXPIRE'' then parse_expire_borrowed rest command_end
      else if eq_ignore_ascii_case verb ''FLUSHDB'' then
        (if trim rest \<noteq> [] then Inl (PE_SyntaxError ''FLUSHDB takes no arguments'')
         else Inr (BComplete command_end PFlushDb))
      else if eq_ignore_ascii_case verb ''KEYS'' then
        (if trim rest \<noteq> [] then Inl (PE_SyntaxError ''KEYS takes no arguments'')
         else Inr (BComplete command_end PKeys))
      else if eq_ignore_ascii_case verb ''MGET'' then parse_mget_borrowed rest command_end
      else if eq_ignore_ascii_case verb ''MSET'' then parse_mset_borrowed rest command_end
      else Inl (PE_UnknownCommand (from_utf8_lossy verb)))"

definition parse_inline_borrowed :: "crates \<Rightarrow> bytes \<Rightarrow> parse_error + frame_result_borrowed" where
  "parse_inline_borrowed X original_input =
     (case borrowed_line_end X original_input of
        None \<Rightarrow> Inr BIncomplete
      | Some pos \<Rightarrow> parse_borrowed_line (take pos original_input) (pos + 2))"

section \<open>Commands of word lists, borrowed\<close>

text \<open>
  The same reading as for \<open>parse_bytes\<close>, off the words of the line; the constructors
  are those of borrowed commands, some error texts differ, and SET takes a bare number of
  seconds, ignored when it is none, where the other parser takes options.
\<close>

definition set_words_borrowed :: "bytes list \<Rightarrow> parse_error + parsed_command" where
  "set_words_borrowed args =
     (case args of
        [k, v] \<Rightarrow> Inr (PSet k v None)
      | [k, v, t] \<Rightarrow> Inr (PSet k v (map_option from_secs (parse_u64_ascii t)))
      | _ # _ # _ \<Rightarrow> Inl (PE_SyntaxError ''SET requires at most 4 arguments: SET <key> <value> [EX <seconds>]'')
      | _ \<Rightarrow> Inl (PE_SyntaxError borrowed_set_usage))"

definition frame_of :: "nat \<Rightarrow> parse_error + parsed_command \<Rightarrow> parse_error + frame_result_borrowed" where
  "frame_of n r = map_sum id (BComplete n) r"

lemma frame_of_simps [simp]: "frame_of n (Inl e) = Inl e" "frame_of n (Inr p) = Inr (BComplete n p)"
  by (simp_all add: frame_of_def)

lemma get_borrowed_words:
  "parse_get_borrowed rest n =
     (case words rest of [k] \<Rightarrow> Inr (BComplete n (PGet k)) | _ \<Rightarrow> Inl (PE_SyntaxError (one_key_usage ''GET'')))"
  by (auto simp: parse_get_borrowed_def Let_def words_eq_Nil words_eq_Cons split: prod.splits list.splits)

lemma del_borrowed_words:
  "parse_del_borrowed rest n =
     (case words rest of [k] \<Rightarrow> Inr (BComplete n (PDel k)) | _ \<Rightarrow> Inl (PE_SyntaxError (one_key_usage ''DEL'')))"
  by (auto simp: parse_del_borrowed_def Let_def words_eq_Nil words_eq_Cons split: prod.splits list.splits)

lemma incr_borrowed_words:
  "parse_incr_borrowed rest n =
     (case words rest of [k] \<Rightarrow> Inr (BComplete n (PIncr k)) | _ \<Rightarrow> Inl (PE_SyntaxError (one_key_usage ''INCR'')))"
  by (auto simp: parse_incr_borrowed_def Let_def words_eq_Nil words_eq_Cons split: prod.splits list.splits)

lemma single_key_borrowed_words:
  "parse_single_key_borrowed rest n con =
     (case words rest of [k] \<Rightarrow> Inr (BComplete n (con k))
      | _ \<Rightarrow> Inl (PE_SyntaxError ''Command requires exactly 1 argument''))"
  by (auto simp: parse_single_key_borrowed_def Let_def words_eq_Nil words_eq_Cons
      split: prod.splits list.splits)

lemma mget_borrowed_tokens_words: "mget_borrowed_tokens (trim bs) = words bs"
proof (induction "length bs" arbitrary: bs rule: less_induct)
  case less
  show ?case
  proof (cases "words bs")
    case Nil
    with words_eq_Nil [of bs] show ?thesis by (subst mget_borrowed_tokens.simps) simp
  next
    case (Cons w ws)
    then obtain rest where r: "trim bs \<noteq> []" "split_first_word (trim bs) = (w, rest)" "w \<noteq> []" "words rest = ws"
      by (rule words_ConsE)
    then have "mget_borrowed_tokens (trim rest) = ws"
      using less.hyps [of rest] split_trim_shorter(2) [OF r(1,2)] by simp
    with r Cons show ?thesis by (subst mget_borrowed_tokens.simps) simp
  qed
qed

lemma mget_borrowed_words:
  "parse_mget_borrowed rest n =
     (if words rest = [] then Inl (PE_SyntaxError ''MGET requires at least 1 key'')
      else Inr (BComplete n (PMget (words rest))))"
  by (simp add: parse_mget_borrowed_def mget_borrowed_tokens_words words_eq_Nil Let_def)

lemma mset_borrowed_tokens_words:
  "mset_borrowed_tokens ps (trim bs) =
     (case pair_words (words bs) of
        None \<Rightarrow> Inl (PE_SyntaxError ''MSET requires even number of arguments'')
      | Some qs \<Rightarrow> Inr (ps @ qs))"
proof (induction "length bs" arbitrary: ps bs rule: less_induct)
  case less
  show ?case
  proof (cases "words bs" rule: pair_words.cases)
    case 1
    with words_eq_Nil [of bs] show ?thesis by (subst mset_borrowed_tokens.simps) simp
  next
    case (2 k)
    then obtain rest where "trim bs \<noteq> []" "split_first_word (trim bs) = (k, rest)" "k \<noteq> []" "words rest = []"
      by (rule words_ConsE)
    with 2 words_eq_Nil [of rest] show ?thesis by (subst mset_borrowed_tokens.simps) simp
  next
    case (3 k v ws)
    obtain rest where r: "trim bs \<noteq> []" "split_first_word (trim bs) = (k, rest)"
      and k: "k \<noteq> []" and rest: "words rest = v # ws"
      using 3 by (rule words_ConsE)
    obtain rest' where r': "trim rest \<noteq> []" "split_first_word (trim rest) = (v, rest')" "words rest' = ws"
      using rest by (rule words_ConsE)
    have "length rest' < length bs"
      using split_trim_shorter(2) [OF r] split_trim_shorter(2) [OF r'(1,2)] by simp
    from less.hyps [OF this, of "ps @ [(k, v)]"] 3 r r' k show ?thesis
      by (subst mset_borrowed_tokens.simps) (simp split: option.splits)
  qed
qed

lemma mset_borrowed_words:
  "parse_mset_borrowed rest n =
     (if words rest = [] then Inl (PE_SyntaxError borrowed_mset_usage)
      else case pair_words (words rest) of
        None \<Rightarrow> Inl (PE_SyntaxError ''MSET requires even number of arguments'')
      | Some ps \<Rightarrow> Inr (BComplete n (PMset ps)))"
  by (auto simp: parse_mset_borrowed_def mset_borrowed_tokens_words words_eq_Nil Let_def
      pair_words_Nil_iff split: option.splits)

lemma set_borrowed_words: "parse_set_borrowed rest n = frame_of n (set_words_borrowed (words rest))"
proof (cases "words rest" rule: pair_words.cases)
  case 1
  with words_eq_Nil [of rest] show ?thesis by (simp add: parse_set_borrowed_def set_words_borrowed_def)
next
  case (2 k)
  then obtain r where "trim rest \<noteq> []" "split_first_word (trim rest) = (k, r)" "k \<noteq> []" "words r = []"
    by (rule words_ConsE)
  with 2 words_eq_Nil [of r] show ?thesis by (simp add: parse_set_borrowed_def set_words_borrowed_def)
next
  case (3 k v ws)
  obtain r where r: "trim rest \<noteq> []" "split_first_word (trim rest) = (k, r)"
    and k: "k \<noteq> []" and rw: "words r = v # ws"
    using 3 by (rule words_ConsE)
  obtain r' where r': "trim r \<noteq> []" "split_first_word (trim r) = (v, r')" and w: "words r' = ws"
    using rw by (rule words_ConsE)
  show ?thesis
  proof (cases ws)
    case Nil
    then have "trim r' = []" using w words_eq_Nil [of r'] by simp
    with 3 Nil r r' k show ?thesis by (simp add: parse_set_borrowed_def set_words_borrowed_def)
  next
    case (Cons t us)
    with w have "words r' = t # us" by simp
    then obtain r'' where t: "trim r' \<noteq> []" "split_first_word (trim r') = (t, r'')" "words r'' = us"
      by (rule words_ConsE)
    with 3 Cons r r' k words_eq_Nil [of r''] show ?thesis
      by (cases us) (auto simp: parse_set_borrowed_def set_words_borrowed_def)
  qed
qed

section \<open>The digit loop\<close>

lemma digits_val_bound: "digits_val acc bs = Some m \<Longrightarrow> m < (acc + 1) * 10 ^ length bs"
proof (induction bs arbitrary: acc)
  case (Cons b bs)
  have d: "digit_val b < 10" and v: "digits_val (acc * 10 + digit_val b) bs = Some m"
    using Cons.prems by (auto simp: is_ascii_digit_def digit_val_def split: if_splits)
  have "m < (acc * 10 + digit_val b + 1) * 10 ^ length bs" using Cons.IH [OF v] .
  also have "\<dots> \<le> ((acc + 1) * 10) * 10 ^ length bs" using d by (intro mult_right_mono) auto
  finally show ?case by (simp add: algebra_simps)
qed simp

lemma u64_digits_eq:
  "(n + 1) * 10 ^ length bs \<le> 2 ^ 64 \<Longrightarrow> u64_digits n bs = digits_val n bs"
proof (induction bs arbitrary: n)
  case (Cons b bs)
  show ?case
  proof (cases "is_ascii_digit b")
    case True
    then have d: "digit_val b < 10" by (auto simp: is_ascii_digit_def digit_val_def)
    have "(n * 10 + digit_val b + 1) * 10 ^ length bs \<le> ((n + 1) * 10) * 10 ^ length bs"
      using d by (intro mult_right_mono) auto
    also have "\<dots> \<le> 2 ^ 64" using Cons.prems by (simp add: algebra_simps)
    finally have le: "(n * 10 + digit_val b + 1) * 10 ^ length bs \<le> 2 ^ 64" .
    have "n * 10 + digit_val b + 1 \<le> (n * 10 + digit_val b + 1) * 10 ^ length bs"
      using mult_le_mono2 [of 1 "10 ^ length bs" "n * 10 + digit_val b + 1"] by simp
    with le have "n * 10 + digit_val b < 2 ^ 64" by linarith
    then have "wrap_u64 (wrap_u64 (n * 10) + digit_val b) = n * 10 + digit_val b"
      by (simp add: wrap_u64_def)
    with True Cons.IH [OF le] show ?thesis by simp
  qed simp
qed simp

text \<open>A number both digit loops read alike: unsigned, of at most 19 digits.\<close>

definition plain_number :: "bytes \<Rightarrow> bool" where
  "plain_number s \<longleftrightarrow> length s < 20 \<and> take 1 s \<noteq> ''+''"

lemma parse_u64_ascii_plain: "plain_number s \<Longrightarrow> parse_u64_ascii s = parse_u64 s"
proof -
  assume s: "plain_number s"
  have "(10::nat) ^ length s \<le> 10 ^ 19"
    using s by (intro power_increasing) (simp_all add: plain_number_def)
  then have b: "(0 + 1) * 10 ^ length s \<le> (2::nat) ^ 64" by simp
  have "parse_u64 s = (if s = [] then None else digits_val 0 s)"
    using digits_val_bound [of 0 s] b s
    by (cases s) (auto simp: parse_u64_def plain_number_def Let_def split: option.splits if_splits)
  with u64_digits_eq [OF b] show ?thesis by (simp add: parse_u64_ascii_def)
qed

lemma u64_digits_None: "b \<in> set bs \<Longrightarrow> \<not> is_ascii_digit b \<Longrightarrow> u64_digits n bs = None"
  by (induction bs arbitrary: n) auto

lemma whitespace_not_digit: "is_whitespace b \<Longrightarrow> \<not> is_ascii_digit b"
  by (auto simp: is_whitespace_def is_ascii_digit_def)

lemma last_trim: "trim bs \<noteq> [] \<Longrightarrow> \<not> is_whitespace (last (trim bs))"
proof -
  let ?r = "dropWhile is_whitespace (rev (dropWhile is_whitespace bs))"
  assume "trim bs \<noteq> []"
  then have "?r \<noteq> []" by (simp add: trim_def)
  then have "\<not> is_whitespace (hd ?r)" by (rule hd_dropWhile)
  with \<open>?r \<noteq> []\<close> show ?thesis by (simp add: trim_def last_rev)
qed

lemma split_first_word_append: "split_first_word bs = (w, rest) \<Longrightarrow> bs = w @ rest"
  by (auto simp: split_first_word_def)

lemma words_Nil_whitespace: "words bs = [] \<Longrightarrow> \<forall>b \<in> set bs. is_whitespace b"
proof -
  have ne: "words_from w bs \<noteq> []" if "w \<noteq> []" for w bs
    using that by (induction bs arbitrary: w) auto
  show "words bs = [] \<Longrightarrow> ?thesis"
    by (induction bs) (auto simp: words_def ne split: if_splits)
qed

lemma trim_single_word:
  assumes "words bs = [w]"
  shows "trim bs = w"
proof -
  obtain rest where r: "trim bs \<noteq> []" "split_first_word (trim bs) = (w, rest)" "words rest = []"
    using assms by (rule words_ConsE)
  have ws: "\<forall>b \<in> set rest. is_whitespace b"
    using r(3) by (rule words_Nil_whitespace)
  have t: "trim bs = w @ rest" using r(2) by (rule split_first_word_append)
  have "rest = []"
  proof (rule ccontr)
    assume "rest \<noteq> []"
    then have "is_whitespace (last (trim bs))" using ws t by simp
    with last_trim [OF r(1)] show False by simp
  qed
  with t show ?thesis by simp
qed

lemma trim_several_words:
  assumes "words bs = w # v # ws"
  shows "parse_u64_ascii (trim bs) = None"
proof -
  obtain rest where r: "trim bs \<noteq> []" "split_first_word (trim bs) = (w, rest)" "words rest = v # ws"
    using assms by (rule words_ConsE)
  have "rest \<noteq> []" using r(3) by auto
  moreover have d: "rest = dropWhile (\<lambda>b. \<not> is_whitespace b) (trim bs)"
    using r(2) by (simp add: split_first_word_def)
  ultimately have "is_whitespace (hd rest)"
    using hd_dropWhile [of "\<lambda>b. \<not> is_whitespace b" "trim bs"] by simp
  moreover have "hd rest \<in> set (trim bs)"
    using \<open>rest \<noteq> []\<close> d by (metis hd_in_set set_dropWhileD)
  ultimately have "u64_digits 0 (trim bs) = None" using u64_digits_None whitespace_not_digit by blast
  with r(1) show ?thesis by (simp add: parse_u64_ascii_def)
qed

lemma expire_borrowed_words:
  "parse_expire_borrowed rest n =
     (case words rest of
        k # s # others \<Rightarrow>
          (case (if others = [] then parse_u64_ascii s else None) of
             None \<Rightarrow> Inl (PE_SyntaxError ''EXPIRE: seconds must be a positive integer'')
           | Some t \<Rightarrow> Inr (BComplete n (PExpire k t)))
      | _ \<Rightarrow> Inl (PE_SyntaxError expire_usage))"
proof (cases "words rest")
  case Nil
  with words_eq_Nil [of rest] show ?thesis by (simp add: parse_expire_borrowed_def)
next
  case (Cons k ws)
  then obtain r where r: "trim rest \<noteq> []" "split_first_word (trim rest) = (k, r)" "words r = ws"
    by (rule words_ConsE)
  show ?thesis
  proof (cases ws)
    case Nil
    with Cons r words_eq_Nil [of r] show ?thesis by (simp add: parse_expire_borrowed_def)
  next
    case ws: (Cons s others)
    then have "trim r \<noteq> []" using r(3) words_eq_Nil [of r] by simp
    moreover have "parse_u64_ascii (trim r) = (if others = [] then parse_u64_ascii s else None)"
      using r(3) ws trim_single_word [of r s] trim_several_words [of r s]
      by (cases others) auto
    ultimately show ?thesis using Cons ws r by (simp add: parse_expire_borrowed_def)
  qed
qed

section \<open>Agreement of the two inline parsers\<close>

text \<open>
  The same reading of a line: a command is complete with the same content, an empty line is
  skipped, an error is an error (the texts may differ).
\<close>

fun same_reading :: "nat \<Rightarrow> parse_error + command \<Rightarrow> parse_error + frame_result_borrowed \<Rightarrow> bool" where
  "same_reading n (Inr c) (Inr (BComplete m p)) = (m = n \<and> to_owned p = c)"
| "same_reading n (Inl e) (Inr (BSkip m)) = (m = n \<and> e = PE_EmptyCommand)"
| "same_reading n (Inl e) (Inl e') = (e \<noteq> PE_EmptyCommand \<and> e' \<noteq> PE_EmptyCommand)"
| "same_reading n _ _ = False"

text \<open>The lines on which they agree: SET without options, EXPIRE with a plain number.\<close>

definition plain_words :: "bytes list \<Rightarrow> bool" where
  "plain_words ws =
     (case ws of [] \<Rightarrow> True
      | verb # args \<Rightarrow>
          (eq_ignore_ascii_case verb ''SET'' \<longrightarrow> length args \<le> 2) \<and>
          (eq_ignore_ascii_case verb ''EXPIRE'' \<longrightarrow> list_all plain_number (tl args)))"

lemma same_reading_if:
  "same_reading n a b \<Longrightarrow> same_reading n a' b' \<Longrightarrow>
     same_reading n (if c then a else a') (if c then b else b')"
  by simp

lemma same_reading_if_cond:
  "(c \<Longrightarrow> same_reading n a b) \<Longrightarrow> (\<not> c \<Longrightarrow> same_reading n a' b') \<Longrightarrow>
     same_reading n (if c then a else a') (if c then b else b')"
  by simp

lemma same_reading_one_key:
  "(\<And>k. to_owned (con' k) = con k) \<Longrightarrow>
     same_reading n (one_key_words name con ws)
       (case ws of [k] \<Rightarrow> Inr (BComplete n (con' k)) | _ \<Rightarrow> Inl (PE_SyntaxError msg))"
  by (auto simp: one_key_words_def split: list.splits)

lemma same_reading_set:
  "length ws \<le> 2 \<Longrightarrow> same_reading n (set_words ws) (frame_of n (set_words_borrowed ws))"
  by (cases ws rule: pair_words.cases)
    (auto simp: set_words_def set_words_borrowed_def set_option_words_def)

lemma same_reading_expire:
  "list_all plain_number (tl (words rest)) \<Longrightarrow>
     same_reading n (expire_words (words rest)) (parse_expire_borrowed rest n)"
  by (auto simp: expire_borrowed_words expire_words_def parse_u64_ascii_plain
      split: list.splits option.splits)

lemma same_reading_mset: "same_reading n (mset_words (words rest)) (parse_mset_borrowed rest n)"
  by (auto simp: mset_borrowed_words mset_words_def split: option.splits)

lemma same_reading_no_args:
  "to_owned p = c \<Longrightarrow> same_reading n (if b then Inl (PE_SyntaxError m) else Inr c)
     (if b then Inl (PE_SyntaxError m) else Inr (BComplete n p))"
  by simp

lemma borrowed_line_agrees:
  assumes "plain_words (words line)"
  shows "same_reading n (parse_bytes line) (parse_borrowed_line line n)"
proof (cases "trim line = []")
  case True
  then show ?thesis by (simp add: parse_bytes_def parse_borrowed_line_def)
next
  case False
  obtain verb rest where s: "split_first_word (trim line) = (verb, rest)"
    by (cases "split_first_word (trim line)")
  with False have w: "words line = verb # words rest" by (simp add: words_eq_Cons)
  have set: "eq_ignore_ascii_case verb ''SET'' \<Longrightarrow> length (words rest) \<le> 2"
    and ex: "eq_ignore_ascii_case verb ''EXPIRE'' \<Longrightarrow> list_all plain_number (tl (words rest))"
    using assms w by (simp_all add: plain_words_def)
  show ?thesis
    unfolding parse_bytes_def parse_borrowed_line_def Let_def
    using False
    by (simp only: s split_conv if_False)
      (intro same_reading_if_cond same_reading_no_args;
        auto simp: set ex verb_words get_borrowed_words del_borrowed_words incr_borrowed_words
          single_key_borrowed_words set_borrowed_words mget_borrowed_words
          intro!: same_reading_one_key same_reading_set same_reading_expire same_reading_mset)
qed

context crates_spec
begin

lemma borrowed_line_end_crlf:
  assumes "CHR 0x0D \<notin> set line" and "CHR 0x0A \<notin> set line"
  shows "borrowed_line_end X (line @ crlf @ rest) = Some (length line)"
  using memchr2_append [OF assms, of "CHR 0x0D" "CHR 0x0A # rest"]
  by (simp add: borrowed_line_end_def crlf_def nth_append)

lemma parse_inline_borrowed_crlf:
  assumes "CHR 0x0D \<notin> set line" and "CHR 0x0A \<notin> set line"
  shows "parse_inline_borrowed X (line @ crlf @ rest) = parse_borrowed_line line (length line + 2)"
  using borrowed_line_end_crlf [OF assms, of rest] by (simp add: parse_inline_borrowed_def)

lemma borrowed_line_end_lf:
  assumes "CHR 0x0D \<notin> set line" and "CHR 0x0A \<notin> set line"
  shows "borrowed_line_end X (line @ CHR 0x0A # rest) = Some (length line - 1)"
  using memchr2_append [OF assms, of "CHR 0x0A" rest]
  by (simp add: borrowed_line_end_def nth_append)

lemma borrowed_line_end_within:
  assumes "borrowed_line_end X buf = Some p" and "buf \<noteq> [CHR 0x0A]"
  shows "p + 2 \<le> length buf"
proof -
  obtain i where i: "memchr2 X (CHR 0x0D) (CHR 0x0A) buf = Some i"
    using assms(1) by (auto simp: borrowed_line_end_def split: option.splits)
  note at = memchr2_Some [OF i]
  show ?thesis
  proof (cases "i = 0 \<and> buf ! 0 = CHR 0x0A")
    case True
    then have "p = 0" using assms(1) i by (auto simp: borrowed_line_end_def split: if_splits)
    moreover have "length buf \<noteq> 1"
    proof
      assume "length buf = 1"
      then obtain b where "buf = [b]" by (auto simp: length_Suc_conv)
      with True assms(2) show False by simp
    qed
    ultimately show ?thesis using at by linarith
  next
    case False
    with assms(1) i at show ?thesis
      by (cases i) (auto simp: borrowed_line_end_def split: if_splits)
  qed
qed

end

text \<open>
  (C25) The two inline parsers read alike: on a line without CR or LF followed by CRLF, and
  with neither SET options nor an unusual EXPIRE number, the zero-copy parser returns the
  command that \<open>parse_bytes\<close> returns and consumes the line with its CRLF; it skips exactly
  the empty lines and rejects exactly the lines the other rejects.
\<close>

theorem parse_inline_borrowed_agrees:
  assumes "crates_spec X" and "CHR 0x0D \<notin> set line" and "CHR 0x0A \<notin> set line"
    and "plain_words (words line)"
  shows "same_reading (length line + 2) (parse_bytes line) (parse_inline_borrowed X (line @ crlf @ rest))"
  using borrowed_line_agrees [OF assms(4)]
  by (simp only: crates_spec.parse_inline_borrowed_crlf [OF assms(1-3)])

definition demo_mset_line :: bytes where
  "demo_mset_line = '' mset a 1  b 2''"

theorem parse_inline_borrowed_agrees_witness:
  "same_reading (length demo_mset_line + 2) (parse_bytes demo_mset_line)
     (parse_inline_borrowed reference_crates (demo_mset_line @ crlf @ ''PING''))
   \<and> parse_bytes demo_mset_line = Inr (CMset [(''a'', ''1''), (''b'', ''2'')])"
proof
  show "parse_bytes demo_mset_line = Inr (CMset [(''a'', ''1''), (''b'', ''2'')])" by code_simp
  have "plain_words (words demo_mset_line)" by code_simp
  then show "same_reading (length demo_mset_line + 2) (parse_bytes demo_mset_line)
     (parse_inline_borrowed reference_crates (demo_mset_line @ crlf @ ''PING''))"
    by (intro parse_inline_borrowed_agrees [OF reference_crates.crates_spec_axioms])
      (simp_all add: demo_mset_line_def)
qed

section \<open>Where the inline parsers part\<close>

lemma words_join_crlf: "list_all is_word ws \<Longrightarrow> words (join_words ws) = ws"
  using words_join [of ws] words_from_trailing [of "[CHR 0x0D]" "[]" "join_words ws"]
  by (simp add: words_def is_whitespace_def)

lemma join_words_no_cr: "list_all is_word ws \<Longrightarrow> CHR 0x0D \<notin> set (join_words ws)"
  by (induction ws rule: join_words.induct) (auto simp: is_word_def list_all_iff is_whitespace_def)

lemma borrowed_set_line:
  assumes "words line = verb # args" and "eq_ignore_ascii_case verb ''SET''"
  shows "parse_borrowed_line line n = frame_of n (set_words_borrowed args)"
proof -
  obtain rest where "trim line \<noteq> []" "split_first_word (trim line) = (verb, rest)" "words rest = args"
    using assms(1) by (rule words_ConsE)
  moreover have "\<not> eq_ignore_ascii_case verb ''GET''"
    using assms(2) by (auto simp: verb_simps)
  ultimately show ?thesis
    using assms(2) by (simp add: parse_borrowed_line_def set_borrowed_words)
qed

text \<open>
  The options of SET are lost on inline connections: the documented line
  \<open>SET key value EX seconds\<close>, which \<open>parse_bytes\<close> reads with its time to live, is
  rejected by the parser the session uses for inline input, whatever the key, value and
  number.
\<close>

theorem parse_inline_borrowed_rejects_set_ex:
  assumes "crates_spec X" and "is_word k" and "is_word v" and "is_word n" and "parse_u64 n = Some t"
  shows "parse_bytes (join_words [''SET'', k, v, ''EX'', n]) = Inr (CSet k v (Some (from_secs t))) \<and>
    parse_inline_borrowed X (join_words [''SET'', k, v, ''EX'', n] @ crlf @ rest) =
      Inl (PE_SyntaxError ''SET requires at most 4 arguments: SET <key> <value> [EX <seconds>]'')"
proof
  let ?ws = "[''SET'', k, v, ''EX'', n]"
  have w: "list_all is_word ?ws" using assms(2-4) by (simp add: is_word_def is_whitespace_def)
  have set: "eq_ignore_ascii_case ''SET'' ''SET''" by (simp add: verb_simps)
  show "parse_bytes (join_words ?ws) = Inr (CSet k v (Some (from_secs t)))"
    using assms(5) words_join_crlf [OF w]
    by (simp add: parse_bytes_words command_of_words_def verb_simps set_words_def
        set_option_words_def ttl_words_def)
  have l: "parse_inline_borrowed X (join_words ?ws @ crlf @ rest) =
      parse_borrowed_line (join_words ?ws) (length (join_words ?ws) + 2)"
    using assms(1) join_words_no_cr [OF w] join_words_no_lf [OF w]
    by (rule crates_spec.parse_inline_borrowed_crlf)
  show "parse_inline_borrowed X (join_words ?ws @ crlf @ rest) =
      Inl (PE_SyntaxError ''SET requires at most 4 arguments: SET <key> <value> [EX <seconds>]'')"
    unfolding l borrowed_set_line [OF words_join_crlf [OF w] set] by (simp add: set_words_borrowed_def)
qed

theorem parse_inline_borrowed_rejects_set_ex_witness:
  "parse_bytes ''SET a b EX 60'' = Inr (CSet ''a'' ''b'' (Some (from_secs 60))) \<and>
   parse_inline_borrowed reference_crates (''SET a b EX 60'' @ crlf @ []) =
     Inl (PE_SyntaxError ''SET requires at most 4 arguments: SET <key> <value> [EX <seconds>]'')"
proof -
  have w: "is_word ''a''" "is_word ''b''" "is_word ''60''"
    by (simp_all add: is_word_def is_whitespace_def)
  have "parse_u64 ''60'' = Some 60"
    by (simp add: parse_u64_def is_ascii_digit_def digit_val_def)
  from parse_inline_borrowed_rejects_set_ex [OF reference_crates.crates_spec_axioms w this, of "[]"]
  show ?thesis by simp
qed

text \<open>
  A line that ends in a bare LF loses its last byte: the parser cuts one byte before
  the LF, as if a CR stood there, so the rest of the line is what it parses.
\<close>

theorem parse_inline_borrowed_bare_lf:
  assumes "crates_spec X" and "CHR 0x0D \<notin> set line" and "CHR 0x0A \<notin> set line" and "line \<noteq> []"
  shows "parse_inline_borrowed X (line @ CHR 0x0A # rest) =
           parse_inline_borrowed X (butlast line @ crlf @ rest)"
proof -
  have "CHR 0x0D \<notin> set (butlast line)" and "CHR 0x0A \<notin> set (butlast line)"
    using assms(2,3) by (auto dest: in_set_butlastD)
  with crates_spec.borrowed_line_end_crlf [OF assms(1), of "butlast line" rest]
    crates_spec.borrowed_line_end_lf [OF assms(1-3), of rest] assms(4)
  show ?thesis by (simp add: parse_inline_borrowed_def take_butlast butlast_conv_take)
qed

theorem parse_inline_borrowed_bare_lf_witness:
  "parse_inline_borrowed reference_crates (''PING'' @ CHR 0x0A # []) = Inl (PE_UnknownCommand ''PIN'')"
proof -
  have "parse_inline_borrowed reference_crates (butlast ''PING'' @ crlf @ []) = Inl (PE_UnknownCommand ''PIN'')"
    by code_simp
  then show ?thesis
    using parse_inline_borrowed_bare_lf [OF reference_crates.crates_spec_axioms, of "''PING''" "[]"] by simp
qed

section \<open>Consumption\<close>

fun borrowed_consumes :: "(nat \<Rightarrow> bool) \<Rightarrow> parse_error + frame_result_borrowed \<Rightarrow> bool" where
  "borrowed_consumes P (Inr (BComplete n p)) = P n"
| "borrowed_consumes P (Inr (BSkip n)) = P n"
| "borrowed_consumes P _ = True"

lemma borrowed_consumes_ifI:
  "borrowed_consumes P a \<Longrightarrow> borrowed_consumes P b \<Longrightarrow> borrowed_consumes P (if c then a else b)"
  by simp

lemma borrowed_line_consumes: "P n \<Longrightarrow> borrowed_consumes P (parse_borrowed_line line n)"
proof (cases "split_first_word (trim line)")
  case (Pair verb rest)
  assume "P n"
  then show ?thesis
    unfolding parse_borrowed_line_def Let_def Pair split_conv
    by (intro borrowed_consumes_ifI)
      (auto simp: get_borrowed_words del_borrowed_words incr_borrowed_words single_key_borrowed_words
        set_borrowed_words expire_borrowed_words mget_borrowed_words mset_borrowed_words frame_of_def
        map_sum_def split: list.splits option.splits sum.splits)
qed

text \<open>Nothing beyond the buffer is consumed, but for a buffer that is a single LF.\<close>

lemma parse_inline_borrowed_consumes:
  assumes "crates_spec X" and "buf \<noteq> [CHR 0x0A]"
  shows "borrowed_consumes (\<lambda>n. 0 < n \<and> n \<le> length buf) (parse_inline_borrowed X buf)"
  using crates_spec.borrowed_line_end_within [OF assms(1) _ assms(2)]
  by (auto simp: parse_inline_borrowed_def intro!: borrowed_line_consumes split: option.splits)

lemma parse_inline_borrowed_single_lf:
  assumes "crates_spec X"
  shows "parse_inline_borrowed X [CHR 0x0A] = Inr (BSkip 2)"
  using crates_spec.borrowed_line_end_lf [OF assms, of "[]" "[]"]
  by (simp add: parse_inline_borrowed_def parse_borrowed_line_def)

text \<open>A CR that no LF follows blocks the line for good.\<close>

lemma parse_inline_borrowed_lone_cr:
  assumes "crates_spec X" and "CHR 0x0D \<notin> set line" and "CHR 0x0A \<notin> set line" and "b \<noteq> CHR 0x0A"
  shows "parse_inline_borrowed X (line @ CHR 0x0D # b # rest) = Inr BIncomplete"
  using crates_spec.memchr2_append [OF assms(1-3), of "CHR 0x0D" "b # rest"] assms(4)
  by (simp add: parse_inline_borrowed_def borrowed_line_end_def nth_append)

end
