(* ===== verification/Dispatcher.thy ===== *)
theory Dispatcher
  imports Engine_Spec Metrics Parser_Borrowed
begin

text \<open>
  The dispatchers (\<open>src/src/application/\<close>): from a command to the engine calls it makes and
  the reply. \<open>dispatch\<close> returns a \<open>Response\<close> value, \<open>dispatch_to_buffer\<close> and
  \<open>dispatch_borrowed_to_buffer\<close> write the reply's bytes, \<open>dispatch_fast\<close> serves GET and
  SET without expiry checks. They act on an engine through the record of the trait's
  methods; the concrete engine is \<open>dashmap_engine\<close>. A call that takes clock readings gets
  the later part of the sequence; readings it does not take are skipped.
\<close>

section \<open>Shared parts\<close>

definition set_entry :: "clock \<Rightarrow> bytes \<Rightarrow> duration option \<Rightarrow> value_entry outcome" where
  "set_entry clk v ttl =
     (case ttl of
        Some dur \<Rightarrow> value_entry_with_ttl clk v dur
      | None \<Rightarrow> Ret (value_entry_new clk v))"

text \<open>The loop of MSET, which stops at the first error.\<close>

fun mset_loop :: "'s kv_engine \<Rightarrow> clock \<Rightarrow> (key \<times> bytes) list \<Rightarrow> 's \<Rightarrow> (engine_error + unit) \<times> 's" where
  "mset_loop K clk [] s = (Inr (), s)"
| "mset_loop K clk ((k, v) # pairs) s =
     (case kv_set K (later 1 clk) s k (value_entry_new clk v) of
        (Inl e, s') \<Rightarrow> (Inl e, s')
      | (Inr u, s') \<Rightarrow> mset_loop K (later 2 clk) pairs s')"

definition show_u64 :: "u64 \<Rightarrow> bytes" where
  "show_u64 w = show_nat (unat w)"

definition info_line :: "bytes \<Rightarrow> bytes \<Rightarrow> bytes" where
  "info_line name val = name @ '':'' @ val @ crlf"

text \<open>The INFO text; the counters are read by thread \<open>i\<close>.\<close>

definition info_text :: "thread \<Rightarrow> clock \<Rightarrow> metrics \<Rightarrow> nat \<Rightarrow> bytes" where
  "info_text i clk m keys =
     ''# Server'' @ crlf @ info_line ''zetdb_version'' ''0.1.0'' @
     info_line ''uptime_in_seconds'' (show_nat (uptime_secs clk m)) @ crlf @
     ''# Clients'' @ crlf @
     info_line ''connected_clients'' (show_u64 (connections_active m)) @
     info_line ''total_connections'' (show_u64 (connections_total m)) @ crlf @
     ''# Stats'' @ crlf @
     info_line ''total_commands'' (show_u64 (commands_total m)) @
     info_line ''cmd_ping'' (show_u64 (command_count i TPing m)) @
     info_line ''cmd_get'' (show_u64 (command_count i TGet m)) @
     info_line ''cmd_set'' (show_u64 (command_count i TSet m)) @
     info_line ''cmd_del'' (show_u64 (command_count i TDel m)) @
     info_line ''cmd_incr'' (show_u64 (command_count i TIncr m)) @
     info_line ''cmd_info'' (show_u64 (command_count i TInfo m)) @
     info_line ''cmd_dbsize'' (show_u64 (command_count i TDbSize m)) @
     info_line ''keyspace_hits'' (show_u64 (keyspace_hits m)) @
     info_line ''keyspace_misses'' (show_u64 (keyspace_misses m)) @
     info_line ''errors_total'' (show_u64 (errors_total m)) @ crlf @
     ''# Keyspace'' @ crlf @ info_line ''db0'' (''keys='' @ show_nat keys)"

section \<open>Dispatch to a response\<close>

definition bool_int :: "bool \<Rightarrow> int" where
  "bool_int b = (if b then 1 else 0)"

fun dispatch ::
    "'s kv_engine \<Rightarrow> thread \<Rightarrow> clock \<Rightarrow> metrics \<Rightarrow> command \<Rightarrow> 's \<Rightarrow> (response \<times> 's) outcome" where
  "dispatch K i clk m (CGet k) s =
     (case kv_get K clk s k of
        (Inr (Some e), s') \<Rightarrow> Ret (Value (Some (data e)), s')
      | (Inr None, s') \<Rightarrow> Ret (Value None, s')
      | (Inl e, s') \<Rightarrow> Ret (Error (InternalError (engine_error_text e)), s'))"
| "dispatch K i clk m (CSet k v ttl) s =
     obind (set_entry clk v ttl) (\<lambda>entry.
       case kv_set K (later 2 clk) s k entry of
         (Inr u, s') \<Rightarrow> Ret (Ok, s')
       | (Inl e, s') \<Rightarrow> Ret (Error (InternalError (engine_error_text e)), s'))"
| "dispatch K i clk m CPing s = Ret (Pong, s)"
| "dispatch K i clk m (CDel k) s =
     (case kv_del K clk s k of
        (Inr existed, s') \<Rightarrow> Ret (Integer (bool_int existed), s')
      | (Inl e, s') \<Rightarrow> Ret (Error (InternalError (engine_error_text e)), s'))"
| "dispatch K i clk m (CIncr k) s =
     obind (kv_incr K clk s k) (\<lambda>r.
       case r of
         (Inr n, s') \<Rightarrow> Ret (Integer n, s')
       | (Inl e, s') \<Rightarrow> Ret (Error (TypeError (engine_error_text e)), s'))"
| "dispatch K i clk m CInfo s = Ret (Value (Some (info_text i clk m (kv_len K s))), s)"
| "dispatch K i clk m CDbSize s = Ret (Integer (wrap_i64 (int (kv_len K s))), s)"
| "dispatch K i clk m (CExists k) s =
     (case kv_exists K clk s k of (b, s') \<Rightarrow> Ret (Integer (bool_int b), s'))"
| "dispatch K i clk m (CTtl k) s =
     (case kv_ttl_secs K clk s k of (t, s') \<Rightarrow> Ret (Integer t, s'))"
| "dispatch K i clk m (CExpire k seconds) s =
     obind (kv_expire K clk s k seconds) (\<lambda>(b, s'). Ret (Integer (bool_int b), s'))"
| "dispatch K i clk m CFlushDb s = Ret (Ok, kv_clear K s)"
| "dispatch K i clk m CKeys s = Ret (Array (map Some (kv_keys K clk s)), s)"
| "dispatch K i clk m (CMget ks) s = Ret (Array (map (map_option data) (kv_mget K clk s ks)), s)"
| "dispatch K i clk m (CMset pairs) s =
     (case mset_loop K clk pairs s of
        (Inl e, s') \<Rightarrow> Ret (Error (InternalError (engine_error_text e)), s')
      | (Inr u, s') \<Rightarrow> Ret (Ok, s'))"

section \<open>Dispatch to a buffer\<close>

definition put_value :: "crates \<Rightarrow> bool \<Rightarrow> bytes \<Rightarrow> bytes \<Rightarrow> bytes" where
  "put_value X is_resp buf d =
     (if is_resp then buf @ ''$'' @ itoa X (int (length d)) @ crlf @ d @ crlf
      else buf @ ''+'' @ d @ crlf)"

definition put_int :: "crates \<Rightarrow> bytes \<Rightarrow> int \<Rightarrow> bytes" where
  "put_int X buf n = buf @ '':'' @ itoa X n @ crlf"

fun put_items :: "crates \<Rightarrow> bytes \<Rightarrow> bytes option list \<Rightarrow> bytes" where
  "put_items X buf [] = buf"
| "put_items X buf (Some d # items) =
     put_items X (buf @ ''$'' @ itoa X (int (length d)) @ crlf @ d @ crlf) items"
| "put_items X buf (None # items) = put_items X (buf @ null_bulk) items"

definition put_array :: "crates \<Rightarrow> bytes \<Rightarrow> bytes option list \<Rightarrow> bytes" where
  "put_array X buf items = put_items X (buf @ ''*'' @ itoa X (int (length items)) @ crlf) items"

fun dispatch_to_buffer ::
    "crates \<Rightarrow> 's kv_engine \<Rightarrow> thread \<Rightarrow> clock \<Rightarrow> metrics \<Rightarrow> command \<Rightarrow> 's \<Rightarrow> bytes \<Rightarrow> bool \<Rightarrow>
       (bytes \<times> 's) outcome" where
  "dispatch_to_buffer X K i clk m (CGet k) s buf is_resp =
     (case kv_get K clk s k of
        (Inr (Some e), s') \<Rightarrow> Ret (put_value X is_resp buf (data e), s')
      | (Inr None, s') \<Rightarrow> Ret (buf @ null_bulk, s')
      | (Inl e, s') \<Rightarrow> Ret (buf @ ''-ERR internal'' @ crlf, s'))"
| "dispatch_to_buffer X K i clk m (CSet k v ttl) s buf is_resp =
     obind (set_entry clk v ttl) (\<lambda>entry.
       case kv_set K (later 2 clk) s k entry of
         (Inr u, s') \<Rightarrow> Ret (buf @ ''+OK'' @ crlf, s')
       | (Inl e, s') \<Rightarrow> Ret (buf @ ''-ERR internal'' @ crlf, s'))"
| "dispatch_to_buffer X K i clk m CPing s buf is_resp = Ret (buf @ ''+PONG'' @ crlf, s)"
| "dispatch_to_buffer X K i clk m (CDel k) s buf is_resp =
     (case kv_del K clk s k of
        (Inr existed, s') \<Rightarrow> Ret (put_int X buf (bool_int existed), s')
      | (Inl e, s') \<Rightarrow> Ret (buf @ ''-ERR internal'' @ crlf, s'))"
| "dispatch_to_buffer X K i clk m (CIncr k) s buf is_resp =
     obind (kv_incr K clk s k) (\<lambda>r.
       case r of
         (Inr n, s') \<Rightarrow> Ret (put_int X buf n, s')
       | (Inl e, s') \<Rightarrow> Ret (buf @ ''-ERR type'' @ crlf, s'))"
| "dispatch_to_buffer X K i clk m CInfo s buf is_resp =
     Ret (put_value X is_resp buf (info_text i clk m (kv_len K s)), s)"
| "dispatch_to_buffer X K i clk m CDbSize s buf is_resp =
     Ret (put_int X buf (wrap_i64 (int (kv_len K s))), s)"
| "dispatch_to_buffer X K i clk m (CExists k) s buf is_resp =
     (case kv_exists K clk s k of (b, s') \<Rightarrow> Ret (put_int X buf (bool_int b), s'))"
| "dispatch_to_buffer X K i clk m (CTtl k) s buf is_resp =
     (case kv_ttl_secs K clk s k of (t, s') \<Rightarrow> Ret (put_int X buf t, s'))"
| "dispatch_to_buffer X K i clk m (CExpire k seconds) s buf is_resp =
     obind (kv_expire K clk s k seconds) (\<lambda>(b, s'). Ret (put_int X buf (bool_int b), s'))"
| "dispatch_to_buffer X K i clk m CFlushDb s buf is_resp = Ret (buf @ ''+OK'' @ crlf, kv_clear K s)"
| "dispatch_to_buffer X K i clk m CKeys s buf is_resp =
     Ret (put_array X buf (map Some (kv_keys K clk s)), s)"
| "dispatch_to_buffer X K i clk m (CMget ks) s buf is_resp =
     Ret (put_array X buf (map (map_option data) (kv_mget K clk s ks)), s)"
| "dispatch_to_buffer X K i clk m (CMset pairs) s buf is_resp =
     (case mset_loop K clk pairs s of
        (Inl e, s') \<Rightarrow> Ret (buf @ ''-ERR internal: '' @ engine_error_text e @ crlf, s')
      | (Inr u, s') \<Rightarrow> Ret (buf @ ''+OK'' @ crlf, s'))"

section \<open>Dispatch of borrowed commands\<close>

text \<open>\<open>std::str::from_utf8(key).unwrap_or("")\<close>.\<close>

definition key_str :: "bytes \<Rightarrow> key" where
  "key_str key = (if valid_utf8 key then key else [])"

fun mget_values :: "'s kv_engine \<Rightarrow> clock \<Rightarrow> bytes list \<Rightarrow> 's \<Rightarrow> bytes option list \<times> 's" where
  "mget_values K clk [] s = ([], s)"
| "mget_values K clk (key # keys) s =
     (case kv_get K clk s (key_str key) of (r, s1) \<Rightarrow>
        (case mget_values K (later 2 clk) keys s1 of (vs, s2) \<Rightarrow>
           ((case r of Inr (Some entry) \<Rightarrow> Some (data entry) | _ \<Rightarrow> None) # vs, s2)))"

text \<open>The loop of MSET here ignores the result of each \<open>set\<close>.\<close>

fun mset_borrowed_loop :: "'s kv_engine \<Rightarrow> clock \<Rightarrow> (bytes \<times> bytes) list \<Rightarrow> 's \<Rightarrow> 's" where
  "mset_borrowed_loop K clk [] s = s"
| "mset_borrowed_loop K clk ((k, v) # pairs) s =
     mset_borrowed_loop K (later 2 clk) pairs
       (snd (kv_set K (later 1 clk) s (key_str k) (value_entry_new clk v)))"

text \<open>Items separated by single spaces, a missing value as \<open>(nil)\<close>.\<close>

fun spaced :: "bytes list \<Rightarrow> bytes" where
  "spaced [] = []"
| "spaced [d] = d"
| "spaced (d # ds) = d @ '' '' @ spaced ds"

definition put_borrowed_keys :: "crates \<Rightarrow> bool \<Rightarrow> bytes \<Rightarrow> key list \<Rightarrow> bytes" where
  "put_borrowed_keys X is_resp buf keys =
     (if is_resp then put_array X buf (map Some keys) else buf @ spaced keys @ crlf)"

definition put_borrowed_values :: "crates \<Rightarrow> bool \<Rightarrow> bytes \<Rightarrow> bytes option list \<Rightarrow> bytes" where
  "put_borrowed_values X is_resp buf vals =
     (if is_resp then put_array X buf vals
      else buf @ spaced (map (\<lambda>v. case v of Some d \<Rightarrow> d | None \<Rightarrow> ''(nil)'') vals) @ crlf)"

definition put_ttl :: "crates \<Rightarrow> bytes \<Rightarrow> int \<Rightarrow> bytes" where
  "put_ttl X buf t =
     (if t = -2 then buf @ '':-2'' @ crlf
      else if t = -1 then buf @ '':-1'' @ crlf
      else put_int X buf t)"

fun dispatch_borrowed_to_buffer ::
    "crates \<Rightarrow> 's kv_engine \<Rightarrow> thread \<Rightarrow> clock \<Rightarrow> metrics \<Rightarrow> parsed_command \<Rightarrow> 's \<Rightarrow> bytes \<Rightarrow> bool \<Rightarrow>
       (bytes \<times> 's \<times> metrics) outcome" where
  "dispatch_borrowed_to_buffer X K i clk m (PGet k) s buf is_resp =
     (case kv_get K clk s (key_str k) of
        (Inr (Some e), s') \<Rightarrow> Ret (put_value X is_resp buf (data e), s', m)
      | (Inr None, s') \<Rightarrow> Ret (buf @ null_bulk, s', m)
      | (Inl e, s') \<Rightarrow> Ret (buf @ ''-ERR internal'' @ crlf, s', m))"
| "dispatch_borrowed_to_buffer X K i clk m (PSet k v ttl) s buf is_resp =
     obind (set_entry clk v ttl) (\<lambda>entry.
       case kv_set K (later 2 clk) s (key_str k) entry of
         (Inr u, s') \<Rightarrow> Ret (buf @ ''+OK'' @ crlf, s', m)
       | (Inl e, s') \<Rightarrow> Ret (buf @ ''-ERR internal'' @ crlf, s', m))"
| "dispatch_borrowed_to_buffer X K i clk m PPing s buf is_resp = Ret (buf @ ''+PONG'' @ crlf, s, m)"
| "dispatch_borrowed_to_buffer X K i clk m (PDel k) s buf is_resp =
     (case kv_del K clk s (key_str k) of
        (Inr existed, s') \<Rightarrow> Ret (put_int X buf (bool_int existed), s', m)
      | (Inl e, s') \<Rightarrow> Ret (buf @ ''-ERR internal'' @ crlf, s', m))"
| "dispatch_borrowed_to_buffer X K i clk m (PIncr k) s buf is_resp =
     obind (kv_incr K clk s (key_str k)) (\<lambda>r.
       case r of
         (Inr n, s') \<Rightarrow> Ret (put_int X buf n, s', m)
       | (Inl e, s') \<Rightarrow> Ret (buf @ ''-ERR type'' @ crlf, s', m))"
| "dispatch_borrowed_to_buffer X K i clk m PInfo s buf is_resp =
     (let m' = flush_all i m
      in Ret (put_value X is_resp buf (info_text i clk m' (kv_len K s)), s, m'))"
| "dispatch_borrowed_to_buffer X K i clk m PDbSize s buf is_resp =
     Ret (put_int X buf (int (kv_len K s)), s, m)"
| "dispatch_borrowed_to_buffer X K i clk m (PExists k) s buf is_resp =
     (case kv_exists K clk s (key_str k) of (b, s') \<Rightarrow> Ret (put_int X buf (bool_int b), s', m))"
| "dispatch_borrowed_to_buffer X K i clk m (PTtl k) s buf is_resp =
     (case kv_ttl_secs K clk s (key_str k) of (t, s') \<Rightarrow> Ret (put_ttl X buf t, s', m))"
| "dispatch_borrowed_to_buffer X K i clk m (PExpire k seconds) s buf is_resp =
     obind (kv_expire K clk s (key_str k) seconds)
       (\<lambda>(b, s'). Ret (buf @ (if b then '':1'' else '':0'') @ crlf, s', m))"
| "dispatch_borrowed_to_buffer X K i clk m PFlushDb s buf is_resp =
     Ret (buf @ ''+OK'' @ crlf, kv_clear K s, m)"
| "dispatch_borrowed_to_buffer X K i clk m PKeys s buf is_resp =
     Ret (put_borrowed_keys X is_resp buf (kv_keys K clk s), s, m)"
| "dispatch_borrowed_to_buffer X K i clk m (PMget ks) s buf is_resp =
     (case mget_values K clk ks s of (vs, s') \<Rightarrow> Ret (put_borrowed_values X is_resp buf vs, s', m))"
| "dispatch_borrowed_to_buffer X K i clk m (PMset pairs) s buf is_resp =
     Ret (buf @ ''+OK'' @ crlf, mset_borrowed_loop K clk pairs s, m)"

section \<open>Fast dispatch\<close>

definition dispatch_fast :: "'m entries \<Rightarrow> parsed_command \<Rightarrow> 'm engine \<Rightarrow> bytes \<Rightarrow> bytes \<times> 'm engine" where
  "dispatch_fast D cmd e buf =
     (case cmd of
        PGet k \<Rightarrow>
          (case get_fast D e k of
             Some d \<Rightarrow> (buf @ ''+'' @ d @ crlf, e)
           | None \<Rightarrow> (buf @ null_bulk, e))
      | PSet k v _ \<Rightarrow> (buf @ ''+OK'' @ crlf, set_fast_str D e k v)
      | _ \<Rightarrow> (buf @ ''-ERR unsupported'' @ crlf, e))"

end
