(* ===== verification/Engine_Props.thy ===== *)
theory Engine_Props
  imports Engine_Spec
begin

text \<open>
  Correctness of the storage engine: the sweep, the eviction sample, and the behaviour of
  the single operations on all their branches, at the key limit too. The properties are stated for every DashMap and every set of crates that
  satisfy the laws of \<open>zet_engine\<close>; the witnesses run them on the association-list map.
\<close>

section \<open>Sampling\<close>

text \<open>The entries the eviction loop looks at: the first five live ones.\<close>

definition evict_sample :: "'m entries \<Rightarrow> instant \<Rightarrow> 'm engine \<Rightarrow> (key \<times> value_entry) list" where
  "evict_sample D now e = take 5 (filter (\<lambda>(k, v). \<not> is_expired_at v now) (dm_iter D (emap e)))"

fun pick_oldest :: "(key \<times> value_entry) list \<Rightarrow> key option \<Rightarrow> instant option \<Rightarrow> key option" where
  "pick_oldest [] ok ot = ok"
| "pick_oldest ((k, v) # rest) ok ot =
     (if ok = None \<or> opt_instant_less (created_at v) ot then pick_oldest rest (Some k) (created_at v)
      else pick_oldest rest ok ot)"

lemma evict_scan_pick:
  "s < 5 \<Longrightarrow> evict_scan now xs ok ot s =
     pick_oldest (take (5 - s) (filter (\<lambda>(k, v). \<not> is_expired_at v now) xs)) ok ot"
proof (induction now xs ok ot s rule: evict_scan.induct)
  case (2 now k v rest ok ot s)
  show ?case
  proof (cases "s = 4")
    case True
    then show ?thesis using 2 by (auto simp: Let_def)
  next
    case False
    with "2.prems" obtain d where "5 - s = Suc d" "5 - Suc s = d" "Suc s < 5"
      by (cases "5 - s") auto
    then show ?thesis using 2 by (auto simp: Let_def)
  qed
qed simp

lemma opt_instant_less_trans:
  "opt_instant_less a b \<Longrightarrow> \<not> opt_instant_less c b \<Longrightarrow> \<not> opt_instant_less c a"
  by (cases a; cases b; cases c) auto

lemma opt_instant_less_irrefl [simp]: "\<not> opt_instant_less a a"
  by (cases a) auto

lemma opt_instant_not_less_trans:
  "\<not> opt_instant_less b a \<Longrightarrow> \<not> opt_instant_less c b \<Longrightarrow> \<not> opt_instant_less c a"
  by (cases a; cases b; cases c) auto

lemma pick_oldest_started:
  "\<exists>k t. pick_oldest xs (Some k0) t0 = Some k \<and>
     ((k, t) = (k0, t0) \<or> (\<exists>v. (k, v) \<in> set xs \<and> t = created_at v)) \<and>
     \<not> opt_instant_less t0 t \<and> (\<forall>(k', v') \<in> set xs. \<not> opt_instant_less (created_at v') t)"
proof (induction xs arbitrary: k0 t0)
  case (Cons x xs)
  obtain k1 v1 where x: "x = (k1, v1)" by (cases x)
  show ?case
  proof (cases "opt_instant_less (created_at v1) t0")
    case True
    from Cons.IH [of k1 "created_at v1"] obtain k t where
      "pick_oldest xs (Some k1) (created_at v1) = Some k"
      "(k, t) = (k1, created_at v1) \<or> (\<exists>v. (k, v) \<in> set xs \<and> t = created_at v)"
      "\<not> opt_instant_less (created_at v1) t"
      "\<forall>(k', v') \<in> set xs. \<not> opt_instant_less (created_at v') t" by blast
    moreover from True this(3) have "\<not> opt_instant_less t0 t"
      by (cases t; cases t0; cases "created_at v1") auto
    ultimately show ?thesis using True by (auto simp: x)
  next
    case False
    from Cons.IH [of k0 t0] obtain k t where
      "pick_oldest xs (Some k0) t0 = Some k"
      "(k, t) = (k0, t0) \<or> (\<exists>v. (k, v) \<in> set xs \<and> t = created_at v)"
      "\<not> opt_instant_less t0 t"
      "\<forall>(k', v') \<in> set xs. \<not> opt_instant_less (created_at v') t" by blast
    moreover from False this(3) have "\<not> opt_instant_less (created_at v1) t"
      using opt_instant_not_less_trans by blast
    ultimately show ?thesis using False by (auto simp: x)
  qed
qed simp

lemma pick_oldest_minimal:
  assumes "xs \<noteq> []"
  shows "\<exists>k v. pick_oldest xs None None = Some k \<and> (k, v) \<in> set xs \<and>
    (\<forall>(k', v') \<in> set xs. \<not> opt_instant_less (created_at v') (created_at v))"
proof -
  from assms obtain k0 v0 rest where xs: "xs = (k0, v0) # rest" by (cases xs) auto
  from pick_oldest_started [of rest k0 "created_at v0"] obtain k t where kt:
    "pick_oldest rest (Some k0) (created_at v0) = Some k"
    "(k, t) = (k0, created_at v0) \<or> (\<exists>v. (k, v) \<in> set rest \<and> t = created_at v)"
    "\<not> opt_instant_less (created_at v0) t"
    "\<forall>(k', v') \<in> set rest. \<not> opt_instant_less (created_at v') t" by blast
  then obtain v where "(k, v) \<in> set xs" and "t = created_at v" by (auto simp: xs)
  with kt show ?thesis by (intro exI [of _ k] exI [of _ v]) (auto simp: xs)
qed

lemma evict_scan_sample:
  "evict_scan now (dm_iter D (emap e)) None None 0 = pick_oldest (evict_sample D now e) None None"
  by (simp add: evict_scan_pick evict_sample_def)

section \<open>Eviction\<close>

context zet_engine
begin

lemma sample_live:
  "(k, v) \<in> set (evict_sample D now e) \<Longrightarrow> dm_get D (emap e) k = Some v \<and> \<not> is_expired_at v now"
  by (auto simp: evict_sample_def iter_iff dest!: in_set_takeD)

lemma sample_empty_iff:
  "evict_sample D now e = [] \<longleftrightarrow> (\<forall>k v. dm_get D (emap e) k = Some v \<longrightarrow> is_expired_at v now)"
  by (auto simp: evict_sample_def filter_empty_conv iter_iff [symmetric])

lemma evict_none: "evict_sample D now e = [] \<Longrightarrow> evict_one_if_needed D now e = e"
  by (simp add: evict_one_if_needed_def evict_scan_sample)

lemma evict_some:
  assumes "0 < max_keys e" and "max_keys e \<le> dm_len D (emap e)" and "evict_sample D now e \<noteq> []"
  obtains k v where "(k, v) \<in> set (evict_sample D now e)"
    and "\<forall>(k', v') \<in> set (evict_sample D now e). \<not> opt_instant_less (created_at v') (created_at v)"
    and "evict_one_if_needed D now e = e\<lparr>emap := dm_remove D (emap e) k\<rparr>"
proof -
  from pick_oldest_minimal [OF assms(3)] obtain k v where
    "pick_oldest (evict_sample D now e) None None = Some k" "(k, v) \<in> set (evict_sample D now e)"
    "\<forall>(k', v') \<in> set (evict_sample D now e). \<not> opt_instant_less (created_at v') (created_at v)"
    by blast
  then show ?thesis
    using assms by (intro that [of k v]) (simp_all add: evict_one_if_needed_def evict_scan_sample)
qed

lemma evict_max_keys [simp]: "max_keys (evict_one_if_needed D now e) = max_keys e"
  by (simp add: evict_one_if_needed_def split: option.split)

end

context zet_engine
begin

lemma contract: "kv_engine_spec (dashmap_engine X D) (\<lambda>e. max_keys e = 0) (live D) (stored D)"
  by (rule kv.kv_engine_spec_axioms)

lemma live_sweep:
  assumes "\<forall>k. tk k \<le> t"
  shows "live D (sweep_expired D tk e) t = live D e t"
proof
  fix k
  show "live D (sweep_expired D tk e) t k = live D e t k"
    using assms is_expired_at_mono [of _ "tk k" t]
    by (auto simp: live_def live_at_def sweep_expired_def split: option.split)
qed

lemma engine_set_full_expired:
  assumes "0 < max_keys e" and "dm_get D (emap e) k = None" and "dm_len D (emap e) = max_keys e"
    and "evict_sample D (clk 0) e = []"
  shows "engine_set D clk e k v = (Inl OutOfMemory, e)"
  using assms evict_none [OF assms(4)] by (simp add: engine_set_def Let_def)

lemma engine_set_full_live:
  assumes "0 < max_keys e" and "dm_get D (emap e) k = None" and "dm_len D (emap e) = max_keys e"
    and "evict_sample D (clk 0) e \<noteq> []"
  obtains k0 v0 where "(k0, v0) \<in> set (evict_sample D (clk 0) e)"
    and "\<forall>(k', v') \<in> set (evict_sample D (clk 0) e). \<not> opt_instant_less (created_at v') (created_at v0)"
    and "engine_set D clk e k v = (Inr (), e\<lparr>emap := dm_insert D (dm_remove D (emap e) k0) k v\<rparr>)"
proof -
  from evict_some [of e "clk 0"] assms obtain k0 v0 where k0:
    "(k0, v0) \<in> set (evict_sample D (clk 0) e)"
    "\<forall>(k', v') \<in> set (evict_sample D (clk 0) e). \<not> opt_instant_less (created_at v') (created_at v0)"
    "evict_one_if_needed D (clk 0) e = e\<lparr>emap := dm_remove D (emap e) k0\<rparr>"
    by auto
  have "dm_get D (emap e) k0 = Some v0"
    using sample_live [OF k0(1)] by simp
  then have "dm_len D (dm_remove D (emap e) k0) < max_keys e"
    using assms by (simp add: len_remove)
  then have "engine_set D clk e k v = (Inr (), e\<lparr>emap := dm_insert D (dm_remove D (emap e) k0) k v\<rparr>)"
    using assms k0(3) by (simp add: engine_set_def Let_def)
  with k0(1,2) show ?thesis by (rule that)
qed

end

section \<open>States for the witnesses\<close>

fun demo_map :: "(key \<times> value_entry) list \<Rightarrow> (key, value_entry) alist" where
  "demo_map [] = DAList.empty"
| "demo_map ((k, v) # rest) = DAList.update k v (demo_map rest)"

definition demo_engine :: "nat \<Rightarrow> (key \<times> value_entry) list \<Rightarrow> (key, value_entry) alist engine" where
  "demo_engine n xs = \<lparr>emap = demo_map xs, max_keys = n\<rparr>"

definition demo_entry :: "bytes \<Rightarrow> instant option \<Rightarrow> instant \<Rightarrow> value_entry" where
  "demo_entry d x c = \<lparr>data = d, expires_at = x, created_at = Some c\<rparr>"

section \<open>Properties\<close>

text \<open>
  (C2) The DashMap engine without a key limit fulfils the contract of the storage engine:
  every operation of the trait acts on the live view as the contract says, and the lazy
  removal of expired entries is never visible in it; the number of keys is that of the stored
  entries, the expired ones that no one has removed yet included.
\<close>

theorem engine_refines_contract:
  assumes "zet_engine D X"
  shows "kv_engine_spec (dashmap_engine X D) (\<lambda>e. max_keys e = 0) (live D) (stored D)"
  using assms by (rule zet_engine.contract)

theorem engine_refines_contract_witness:
  "kv_engine_spec (dashmap_engine reference_crates alist_dashmap) (\<lambda>e. max_keys e = 0) (live alist_dashmap) (stored alist_dashmap)"
  by (rule engine_refines_contract) (rule reference_engine.zet_engine_axioms)

text \<open>
  Read your write: after a SET, a GET of the key returns the stored entry as long as it
  has not expired, and a GET of any other key returns what it returned before.
\<close>

theorem engine_get_after_set:
  assumes "zet_engine D X" and "max_keys e = 0" and "engine_set D clk e k v = (r, e')"
    and "mono clk'" and "\<not> is_expired_at v (clk' 0)"
  shows "fst (engine_get D clk' e' k) = Inr (Some v) \<and>
    (\<forall>k'. k' \<noteq> k \<longrightarrow> fst (engine_get D clk' e' k') = fst (engine_get D clk' e k'))"
  using kv_engine_spec.get_after_set [OF zet_engine.contract [OF assms(1)], of e clk k v r e' clk']
    kv_engine_spec.get_other_after_set [OF zet_engine.contract [OF assms(1)], of e clk k v r e' clk']
    assms
  by (simp add: dashmap_engine_def)

theorem engine_get_after_set_witness:
  "fst (engine_get alist_dashmap (\<lambda>_. 9)
      (snd (engine_set alist_dashmap (\<lambda>_. 3) (demo_engine 0 []) ''k'' (demo_entry ''v'' (Some 10) 3))) ''k'')
   = Inr (Some (demo_entry ''v'' (Some 10) 3))"
  using engine_get_after_set [OF reference_engine.zet_engine_axioms, of "demo_engine 0 []" "\<lambda>_. 3"
      "''k''" "demo_entry ''v'' (Some 10) 3" _ _ "\<lambda>_. 9"]
  by (simp add: demo_engine_def demo_entry_def is_expired_at_def mono_def engine_set_def)

text \<open>
  An expired entry is never returned: GET answers nothing, and it removes the entry and
  only that entry.
\<close>

theorem engine_get_expired:
  assumes "zet_engine D X" and "dm_get D (emap e) k = Some v" and "is_expired_at v (clk 0)" and "mono clk"
  shows "\<exists>e'. engine_get D clk e k = (Inr None, e') \<and> dm_get D (emap e') = (dm_get D (emap e))(k := None)"
proof -
  have "is_expired_at v (clk 1)"
    using assms(3,4) is_expired_at_mono [of v "clk 0" "clk 1"] by (simp add: mono_def)
  then show ?thesis
    using assms dashmap_spec.get_remove_if [of D "emap e" k "\<lambda>v. is_expired_at v (clk 1)"]
    by (auto simp: engine_get_def drop_if_expired_def zet_engine_def)
qed

theorem engine_get_expired_witness:
  "\<exists>e'. engine_get alist_dashmap (\<lambda>i. 10 + i) (demo_engine 0 [(''k'', demo_entry ''v'' (Some 10) 0)]) ''k''
      = (Inr None, e') \<and> dm_get alist_dashmap (emap e') =
        (dm_get alist_dashmap (demo_map [(''k'', demo_entry ''v'' (Some 10) 0)]))(''k'' := None)"
  using engine_get_expired [OF reference_engine.zet_engine_axioms,
      of "demo_engine 0 [(''k'', demo_entry ''v'' (Some 10) 0)]" "''k''" "demo_entry ''v'' (Some 10) 0" "\<lambda>i. 10 + i"]
  by (simp add: demo_engine_def demo_entry_def is_expired_at_def alist_dashmap_def mono_def)

text \<open>
  SET of a new key on a full engine: when the sample of live entries is empty it fails
  with an out-of-memory error and changes nothing; otherwise it removes one of the oldest
  entries of the sample, stores the new key and changes no other key.
\<close>

theorem engine_set_at_capacity:
  assumes "zet_engine D X" and "0 < max_keys e" and "dm_get D (emap e) k = None"
    and "dm_len D (emap e) = max_keys e"
  shows "if evict_sample D (clk 0) e = [] then engine_set D clk e k v = (Inl OutOfMemory, e)
    else \<exists>k0 v0 e'. (k0, v0) \<in> set (evict_sample D (clk 0) e) \<and>
      (\<forall>(k', v') \<in> set (evict_sample D (clk 0) e). \<not> opt_instant_less (created_at v') (created_at v0)) \<and>
      engine_set D clk e k v = (Inr (), e') \<and>
      dm_get D (emap e') = (dm_get D (emap e))(k0 := None, k \<mapsto> v)"
proof -
  have ds: "dashmap_spec D" using assms(1) by (simp add: zet_engine_def)
  show ?thesis
  proof (cases "evict_sample D (clk 0) e = []")
    case True
    then show ?thesis using zet_engine.engine_set_full_expired [OF assms] by simp
  next
    case False
    from zet_engine.engine_set_full_live [OF assms, of clk v] False obtain k0 v0 where
      "(k0, v0) \<in> set (evict_sample D (clk 0) e)"
      "\<forall>(k', v') \<in> set (evict_sample D (clk 0) e). \<not> opt_instant_less (created_at v') (created_at v0)"
      "engine_set D clk e k v = (Inr (), e\<lparr>emap := dm_insert D (dm_remove D (emap e) k0) k v\<rparr>)"
      by blast
    with False show ?thesis
      by (auto simp: dashmap_spec.get_insert [OF ds] dashmap_spec.get_remove [OF ds])
  qed
qed

theorem engine_set_at_capacity_witness:
  "\<exists>k0 v0 e'. (k0, v0) \<in> set (evict_sample alist_dashmap 9 (demo_engine 2 [(''a'', demo_entry ''1'' None 4), (''b'', demo_entry ''2'' None 3)])) \<and>
      (\<forall>(k', v') \<in> set (evict_sample alist_dashmap 9 (demo_engine 2 [(''a'', demo_entry ''1'' None 4), (''b'', demo_entry ''2'' None 3)])).
         \<not> opt_instant_less (created_at v') (created_at v0)) \<and>
      engine_set alist_dashmap (\<lambda>_. 9) (demo_engine 2 [(''a'', demo_entry ''1'' None 4), (''b'', demo_entry ''2'' None 3)])
        ''c'' (demo_entry ''3'' None 9) = (Inr (), e') \<and>
      dm_get alist_dashmap (emap e') =
        (dm_get alist_dashmap (demo_map [(''a'', demo_entry ''1'' None 4), (''b'', demo_entry ''2'' None 3)]))
          (k0 := None, ''c'' \<mapsto> demo_entry ''3'' None 9)"
proof -
  let ?e = "demo_engine 2 [(''a'', demo_entry ''1'' None 4), (''b'', demo_entry ''2'' None 3)]"
  have h: "0 < max_keys ?e" "dm_get alist_dashmap (emap ?e) ''c'' = None"
    "dm_len alist_dashmap (emap ?e) = max_keys ?e"
    by code_simp+
  have "evict_sample alist_dashmap 9 ?e \<noteq> []" by code_simp
  with engine_set_at_capacity [OF reference_engine.zet_engine_axioms h, of "\<lambda>_. 9" "demo_entry ''3'' None 9"]
  show ?thesis by (simp add: demo_engine_def)
qed

text \<open>
  SET on a full engine runs out of memory exactly when every stored entry has already
  expired: the eviction sample skips expired entries and never frees one of them.
\<close>

theorem engine_set_oom_iff_all_expired:
  assumes "zet_engine D X" and "0 < max_keys e" and "dm_get D (emap e) k = None"
    and "dm_len D (emap e) = max_keys e"
  shows "fst (engine_set D clk e k v) = Inl OutOfMemory \<longleftrightarrow>
    (\<forall>k' v'. dm_get D (emap e) k' = Some v' \<longrightarrow> is_expired_at v' (clk 0))"
proof (cases "evict_sample D (clk 0) e = []")
  case True
  then show ?thesis
    using zet_engine.engine_set_full_expired [OF assms] zet_engine.sample_empty_iff [OF assms(1)] by simp
next
  case False
  then have "fst (engine_set D clk e k v) = Inr ()"
    using zet_engine.engine_set_full_live [OF assms, of clk v] by force
  then show ?thesis
    using zet_engine.sample_empty_iff [OF assms(1)] False by simp
qed

theorem engine_set_oom_iff_all_expired_witness:
  "fst (engine_set alist_dashmap (\<lambda>_. 9) (demo_engine 1 [(''a'', demo_entry ''1'' (Some 5) 0)]) ''b'' (demo_entry ''2'' None 9))
     = Inl OutOfMemory"
proof -
  let ?e = "demo_engine 1 [(''a'', demo_entry ''1'' (Some 5) 0)]"
  have h: "0 < max_keys ?e" "dm_get alist_dashmap (emap ?e) ''b'' = None"
    "dm_len alist_dashmap (emap ?e) = max_keys ?e"
    by code_simp+
  have "\<forall>k' v'. dm_get alist_dashmap (emap ?e) k' = Some v' \<longrightarrow> is_expired_at v' 9"
    by (simp add: demo_engine_def alist_dashmap_def DAList.lookup_update demo_entry_def is_expired_at_def)
  with engine_set_oom_iff_all_expired [OF reference_engine.zet_engine_axioms h, of "\<lambda>_. 9" "demo_entry ''2'' None 9"]
  show ?thesis by simp
qed

text \<open>
  INCR of a live decimal value below the largest \<open>i64\<close> answers the value plus one,
  stores its decimal form, which reads back as that number, and keeps the expiry and the
  creation time of the entry and every other key.
\<close>

theorem engine_incr_adds_one:
  assumes "zet_engine D X" and "live D e (clk 0) k = Some v"
    and "parse_i64 (from_utf8_lossy (data v)) = Some z" and "z < 2 ^ 63 - 1"
  shows "\<exists>e'. engine_incr X D clk e k = Ret (Inr (z + 1), e') \<and>
    dm_get D (emap e') = (dm_get D (emap e))(k \<mapsto> v\<lparr>data := show_int (z + 1)\<rparr>) \<and>
    parse_i64 (from_utf8_lossy (show_int (z + 1))) = Some (z + 1)"
proof -
  have ds: "dashmap_spec D" using assms(1) by (simp add: zet_engine_def)
  have "in_i64 z" using assms(3) by (rule parse_i64_in_range)
  then have z: "in_i64 (z + 1)" using assms(4) by (simp add: in_i64_def)
  show ?thesis
    using zet_engine.engine_incr_present [OF assms(1), of e clk k v] assms z
    by (simp add: parse_i64_lossy_show_int dashmap_spec.get_write [OF ds])
qed

theorem engine_incr_adds_one_witness:
  "\<exists>e'. engine_incr reference_crates alist_dashmap (\<lambda>_. 5) (demo_engine 0 [(''n'', demo_entry ''41'' (Some 9) 0)]) ''n''
        = Ret (Inr 42, e') \<and>
    dm_get alist_dashmap (emap e') =
      (dm_get alist_dashmap (emap (demo_engine 0 [(''n'', demo_entry ''41'' (Some 9) 0)])))
        (''n'' \<mapsto> (demo_entry ''41'' (Some 9) 0)\<lparr>data := show_int 42\<rparr>) \<and>
    parse_i64 (from_utf8_lossy (show_int 42)) = Some 42"
proof -
  let ?e = "demo_engine 0 [(''n'', demo_entry ''41'' (Some 9) 0)]"
  have "live alist_dashmap ?e 5 ''n'' = Some (demo_entry ''41'' (Some 9) 0)"
    by (simp add: live_def demo_engine_def alist_dashmap_def live_at_def demo_entry_def is_expired_at_def)
  moreover have "parse_i64 (from_utf8_lossy (data (demo_entry ''41'' (Some 9) 0))) = Some 41"
    by code_simp
  ultimately show ?thesis
    using engine_incr_adds_one [OF reference_engine.zet_engine_axioms,
        of ?e "\<lambda>_. 5" "''n''" "demo_entry ''41'' (Some 9) 0" 41] by simp
qed

text \<open>
  INCR of the largest \<open>i64\<close> wraps around: it answers the smallest \<open>i64\<close> and
  stores it.
\<close>

theorem engine_incr_wraps:
  assumes "zet_engine D X" and "live D e (clk 0) k = Some v" and "data v = show_int (2 ^ 63 - 1)"
  shows "\<exists>e'. engine_incr X D clk e k = Ret (Inr (- (2 ^ 63)), e') \<and>
    live D e' (clk 0) k = Some (v\<lparr>data := show_int (- (2 ^ 63))\<rparr>)"
proof -
  have "in_i64 (2 ^ 63 - 1)" by (simp add: in_i64_def)
  then have "parse_i64 (from_utf8_lossy (data v)) = Some (2 ^ 63 - 1)"
    unfolding assms(3) by (rule parse_i64_lossy_show_int)
  moreover have "\<not> is_expired_at (v\<lparr>data := d\<rparr>) (clk 0)" for d
    using zet_engine.live_SomeD [OF assms(1,2)] by (simp add: is_expired_at_def)
  ultimately show ?thesis
    using zet_engine.engine_incr_present [OF assms(1), of e clk k v] assms(2) wrap_i64_add_one
    by (simp add: zet_engine.live_write [OF assms(1)] live_at_def)
qed

theorem engine_incr_wraps_witness:
  "\<exists>e'. engine_incr reference_crates alist_dashmap (\<lambda>_. 5)
       (demo_engine 0 [(''n'', demo_entry (show_int (2 ^ 63 - 1)) None 0)]) ''n'' = Ret (Inr (- (2 ^ 63)), e') \<and>
     live alist_dashmap e' 5 ''n'' = Some ((demo_entry (show_int (2 ^ 63 - 1)) None 0)\<lparr>data := show_int (- (2 ^ 63))\<rparr>)"
  using engine_incr_wraps [OF reference_engine.zet_engine_axioms,
      of "demo_engine 0 [(''n'', demo_entry (show_int (2 ^ 63 - 1)) None 0)]" "\<lambda>_. 5" "''n''"
        "demo_entry (show_int (2 ^ 63 - 1)) None 0"]
  by (simp add: live_def demo_engine_def alist_dashmap_def live_at_def demo_entry_def is_expired_at_def)

text \<open>
  After a successful EXPIRE of \<open>n\<close> seconds, TTL answers the whole seconds that
  remain: \<open>n\<close> seconds less the time between the two operations, rounded down.
\<close>

theorem engine_ttl_after_expire:
  assumes "zet_engine D X" and "max_keys e = 0" and "engine_expire D clk e k n = Ret (True, e')"
    and "mono clk" and "mono clk'" and "clk 0 \<le> clk' 0" and "clk 1 \<le> clk' 1"
    and "clk' 1 < clk 1 + from_secs n" and "clk 1 + from_secs n \<le> instant_max"
  shows "fst (engine_ttl_secs D clk' e' k) = int ((from_secs n - (clk' 1 - clk 1)) div 10 ^ 9)"
proof -
  have eq: "clk 1 + from_secs n - clk' 1 = from_secs n - (clk' 1 - clk 1)"
    using assms(7) by simp
  have "from_secs n - (clk' 1 - clk 1) \<le> instant_max"
    using assms(9) by simp
  then have "(from_secs n - (clk' 1 - clk 1)) div 10 ^ 9 \<le> instant_max div 10 ^ 9"
    by (rule div_le_mono)
  also have "\<dots> < 2 ^ 63" by (simp add: instant_max_def)
  finally have "in_i64 (int (as_secs (from_secs n - (clk' 1 - clk 1))))"
    by (simp add: in_i64_def as_secs_def)
  then show ?thesis
    using kv_engine_spec.ttl_after_expire [OF zet_engine.contract [OF assms(1)], of e clk k n e' clk'] assms eq
    by (simp add: dashmap_engine_def as_secs_def)
qed

theorem engine_ttl_after_expire_witness:
  "fst (engine_ttl_secs alist_dashmap (\<lambda>_. 500)
     (demo_engine 0 [(''k'', (demo_entry ''v'' None 0)\<lparr>expires_at := Some (100 + from_secs 60)\<rparr>)]) ''k'') = 59"
proof -
  let ?e = "demo_engine 0 [(''k'', demo_entry ''v'' None 0)]"
  let ?e' = "demo_engine 0 [(''k'', (demo_entry ''v'' None 0)\<lparr>expires_at := Some (100 + from_secs 60)\<rparr>)]"
  have "engine_expire alist_dashmap (\<lambda>_. 100) ?e ''k'' 60 = Ret (True, ?e')"
    by (simp add: engine_expire_def demo_engine_def demo_entry_def alist_dashmap_def is_expired_at_def
        instant_add_def from_secs_def instant_max_def)
  from engine_ttl_after_expire [OF reference_engine.zet_engine_axioms _ this, of "\<lambda>_. 500"]
  show ?thesis by (simp add: mono_def demo_engine_def from_secs_def instant_max_def)
qed

text \<open>
  EXPIRE of a live key with a number of seconds of \<open>2 ^ 63\<close> or more, which the
  parsers accept up to \<open>2 ^ 64 - 1\<close>, panics: the new expiry is outside the range of an
  instant.
\<close>

theorem engine_expire_overflow_panics:
  assumes "zet_engine D X" and "live D e (clk 0) k = Some v" and "2 ^ 63 \<le> n"
  shows "engine_expire D clk e k n = Panic"
proof -
  have "instant_max < 2 ^ 63 * 10 ^ 9" by (simp add: instant_max_def)
  also have "2 ^ 63 * 10 ^ 9 \<le> from_secs n"
    unfolding from_secs_def using assms(3) by (rule mult_le_mono1)
  finally have "instant_max < clk 1 + from_secs n" by linarith
  then show ?thesis
    using zet_engine.engine_expire_present [OF assms(1), of e clk k v n] assms(2)
    by (simp add: instant_add_def)
qed

theorem engine_expire_overflow_panics_witness:
  "engine_expire alist_dashmap (\<lambda>_. 100) (demo_engine 0 [(''k'', demo_entry ''v'' None 0)]) ''k'' (2 ^ 64 - 1) = Panic"
  by (rule engine_expire_overflow_panics [OF reference_engine.zet_engine_axioms, where v = "demo_entry ''v'' None 0"])
    (simp_all add: live_def demo_engine_def alist_dashmap_def live_at_def demo_entry_def is_expired_at_def)

text \<open>
  The sweeper removes exactly what has expired: afterwards no stored entry was expired
  when it was visited, and the live view from then on is unchanged.
\<close>

theorem engine_sweep:
  assumes "zet_engine D X" and "\<forall>k. tk k \<le> t"
  shows "live D (sweep_expired D tk e) t = live D e t \<and>
    (\<forall>k v. dm_get D (emap (sweep_expired D tk e)) k = Some v \<longrightarrow> \<not> is_expired_at v (tk k))"
proof -
  have ds: "dashmap_spec D" using assms(1) by (simp add: zet_engine_def)
  show ?thesis
    using zet_engine.live_sweep [OF assms]
    by (auto simp: sweep_expired_def dashmap_spec.get_retain [OF ds] split: option.splits if_splits)
qed

theorem engine_sweep_witness:
  "live alist_dashmap (sweep_expired alist_dashmap (\<lambda>_. 6) (demo_engine 0 [(''a'', demo_entry ''1'' (Some 5) 0), (''b'', demo_entry ''2'' None 0)])) 7
     = live alist_dashmap (demo_engine 0 [(''a'', demo_entry ''1'' (Some 5) 0), (''b'', demo_entry ''2'' None 0)]) 7"
  using engine_sweep [OF reference_engine.zet_engine_axioms, of "\<lambda>_. 6" 7] by simp

section \<open>Two behaviours outside the contract\<close>

text \<open>
  With a key limit, INCR of an absent key asks the map for its length while it holds the
  guard of the entry: it blocks on every map whose calls are not reentrant.
\<close>

lemma engine_incr_vacant_limit_blocks:
  "0 < max_keys e \<Longrightarrow> dm_get D (emap e) k = None \<Longrightarrow> \<not> dm_reentrant D \<Longrightarrow>
     engine_incr X D clk e k = Blocked"
  by (simp add: engine_incr_def)

text \<open>The benchmark SET ignores the key limit.\<close>

lemma set_fast_str_exceeds_limit:
  "dashmap_spec D \<Longrightarrow> dm_get D (emap e) k = None \<Longrightarrow> dm_len D (emap e) = max_keys e \<Longrightarrow>
     engine_len D (set_fast_str D e k v) = Suc (max_keys e)"
  by (simp add: engine_len_def set_fast_str_def dashmap_spec.len_insert)

end
