(* ===== verification/Dispatcher_Props.thy ===== *)
theory Dispatcher_Props
  imports Dispatcher Engine_Props
begin

text \<open>
  What the dispatchers do. The semantics of the commands is stated once, over live views:
  \<open>answers\<close> says which reply a command gets, \<open>takes_effect\<close> how the view changes.
  \<open>dispatch\<close> implements it over every engine that fulfils the engine contract, and the
  two buffer dispatchers write the bytes of the same reply.
\<close>

section \<open>The semantics of commands\<close>

type_synonym view = "instant \<Rightarrow> key \<Rightarrow> value_entry option"

text \<open>The reading of the clock that INCR gives a new entry does not influence the answer.\<close>

definition incr_answer :: "key \<Rightarrow> value_entry option \<Rightarrow> response" where
  "incr_answer k r =
     (case fst (spec_incr k r 0) of
        Inr n \<Rightarrow> Integer n
      | Inl e \<Rightarrow> Error (TypeError (engine_error_text e)))"

text \<open>
  The reply of a command for the live view \<open>V\<close>. INFO and DBSIZE depend on more than the
  view: on the metrics \<open>m\<close> as thread \<open>i\<close> reads them, and on the number \<open>n\<close> of the stored
  entries, which counts expired entries until they are removed.
\<close>

fun answers ::
    "thread \<Rightarrow> metrics \<Rightarrow> nat \<Rightarrow> clock \<Rightarrow> view \<Rightarrow> command \<Rightarrow> response \<Rightarrow> bool" where
  "answers i m n clk V CPing r = (r = Pong)"
| "answers i m n clk V (CGet k) r = (r = Value (map_option data (V (clk 0) k)))"
| "answers i m n clk V (CSet k v ttl) r = (r = Ok)"
| "answers i m n clk V (CDel k) r = (r = Integer (bool_int (V (clk 0) k \<noteq> None)))"
| "answers i m n clk V (CIncr k) r = (r = incr_answer k (V (clk 0) k))"
| "answers i m n clk V CInfo r = (r = Value (Some (info_text i clk m n)))"
| "answers i m n clk V CDbSize r = (r = Integer (wrap_i64 (int n)))"
| "answers i m n clk V (CExists k) r = (r = Integer (bool_int (V (clk 0) k \<noteq> None)))"
| "answers i m n clk V (CTtl k) r = (r = Integer (spec_ttl (V (clk 0) k) (clk 1)))"
| "answers i m n clk V (CExpire k secs) r = (r = Integer (bool_int (V (clk 0) k \<noteq> None)))"
| "answers i m n clk V CFlushDb r = (r = Ok)"
| "answers i m n clk V CKeys r =
     (\<exists>ks. r = Array (map Some ks) \<and> distinct ks \<and> set ks = dom (V (clk 0)))"
| "answers i m n clk V (CMget ks) r = (r = Array (map (\<lambda>k. map_option data (V (clk 0) k)) ks))"
| "answers i m n clk V (CMset ps) r = (r = Ok)"

fun takes_effect :: "clock \<Rightarrow> view \<Rightarrow> command \<Rightarrow> view \<Rightarrow> bool" where
  "takes_effect clk V (CSet k v ttl) V' =
     (\<exists>entry. set_entry clk v ttl = Ret entry \<and> (\<forall>t \<ge> clk 0. V' t = (V t)(k := live_at entry t)))"
| "takes_effect clk V (CDel k) V' = (\<forall>t \<ge> clk 0. V' t = (V t)(k := None))"
| "takes_effect clk V (CIncr k) V' =
     (\<exists>c. \<forall>t \<ge> clk 0. V' t =
        (V t)(k := Option.bind (snd (spec_incr k (V (clk 0) k) c)) (\<lambda>v. live_at v t)))"
| "takes_effect clk V (CExpire k n) V' =
     (\<forall>t \<ge> clk 0. V' t =
        (case V (clk 0) k of None \<Rightarrow> V t
         | Some v \<Rightarrow> (V t)(k := live_at (v\<lparr>expires_at := Some (clk 1 + from_secs n)\<rparr>) t)))"
| "takes_effect clk V CFlushDb V' = (\<forall>t. V' t = Map.empty)"
| "takes_effect clk V (CMset ps) V' =
     (\<forall>t \<ge> clk 0. \<forall>k. map_option data (V' t k) =
        (case map_of (rev ps) k of Some v \<Rightarrow> Some v | None \<Rightarrow> map_option data (V t k)))"
| "takes_effect clk V _ V' = (\<forall>t \<ge> clk 0. V' t = V t)"

text \<open>The expiry times that \<open>Instant\<close> can hold.\<close>

fun in_time :: "clock \<Rightarrow> command \<Rightarrow> bool" where
  "in_time clk (CSet k v (Some d)) = (clk 0 + d \<le> instant_max)"
| "in_time clk (CExpire k n) = (clk 1 + from_secs n \<le> instant_max)"
| "in_time clk _ = True"

lemma set_entry_in_time: "in_time clk (CSet k v ttl) \<Longrightarrow> \<exists>entry. set_entry clk v ttl = Ret entry"
  by (cases ttl) (auto simp: set_entry_def value_entry_with_ttl_def instant_add_def)

lemma spec_incr_answer: "fst (spec_incr k r c) = fst (spec_incr k r 0)"
  by (auto simp: spec_incr_def split: option.splits)

lemma live_at_new [simp]: "live_at (value_entry_new clk v) t = Some (value_entry_new clk v)"
  by (simp add: live_at_def)

context kv_engine_spec
begin

lemma mset_loop_law:
  "ok s \<Longrightarrow> \<exists>s'. mset_loop K clk ps s = (Inr (), s') \<and> ok s' \<and>
     (\<forall>t k. map_option data (view s' t k) =
        (case map_of (rev ps) k of Some v \<Rightarrow> Some v | None \<Rightarrow> map_option data (view s t k)))"
proof (induction ps arbitrary: s clk)
  case (Cons p ps)
  obtain k v where p: "p = (k, v)" by (cases p)
  let ?e = "value_entry_new clk v"
  obtain s1 where s1: "kv_set K (later 1 clk) s k ?e = (Inr (), s1)" "ok s1"
      "\<forall>t. view s1 t = (view s t)(k := live_at ?e t)"
    using set_law [OF Cons.prems, of "later 1 clk" k ?e] by blast
  obtain s2 where s2: "mset_loop K (later 2 clk) ps s1 = (Inr (), s2)" "ok s2"
      "\<forall>t k. map_option data (view s2 t k) =
        (case map_of (rev ps) k of Some v \<Rightarrow> Some v | None \<Rightarrow> map_option data (view s1 t k))"
    using Cons.IH [OF s1(2), of "later 2 clk"] by blast
  have "map_option data (view s2 t k') =
      (case map_of (rev (p # ps)) k' of Some v \<Rightarrow> Some v | None \<Rightarrow> map_option data (view s t k'))" for t k'
    using s2(3) s1(3) by (auto simp: p map_add_def split: option.splits)
  with p s1(1) s2(1,2) show ?case by (auto split: prod.splits)
qed simp

lemma dispatch_law:
  assumes "ok s" and "mono clk" and "in_time clk cmd"
  shows "\<exists>r s'. dispatch K i clk m cmd s = Ret (r, s') \<and> ok s' \<and>
           answers i m (card (held s)) clk (view s) cmd r \<and> takes_effect clk (view s) cmd (view s')"
proof (cases cmd)
  case (CGet k)
  then show ?thesis
    using get_law [OF assms(1,2), of k] by (cases "view s (clk 0) k") auto
next
  case (CSet k v ttl)
  then obtain entry where "set_entry clk v ttl = Ret entry"
    using assms(3) set_entry_in_time by blast
  with CSet set_law [OF assms(1), of "later 2 clk" k entry] show ?thesis by auto
next
  case (CDel k)
  then show ?thesis using del_law [OF assms(1), of clk k] by auto
next
  case (CIncr k)
  obtain s' c where i: "kv_incr K clk s k = Ret (fst (spec_incr k (view s (clk 0) k) c), s')" "ok s'"
      "\<forall>t \<ge> clk 0. view s' t =
         (view s t)(k := Option.bind (snd (spec_incr k (view s (clk 0) k) c)) (\<lambda>v. live_at v t))"
    using incr_law [where s = s and clk = clk and k = k] assms(1) by blast
  then show ?thesis
    using CIncr spec_incr_answer [of k "view s (clk 0) k" c]
    by (cases "fst (spec_incr k (view s (clk 0) k) 0)") (auto simp: incr_answer_def)
next
  case (CExists k)
  then show ?thesis using exists_law [OF assms(1,2), of k] by auto
next
  case (CTtl k)
  then show ?thesis using ttl_law [OF assms(1,2), of k] by auto
next
  case (CExpire k n)
  show ?thesis
  proof (cases "view s (clk 0) k")
    case None
    with CExpire expire_missing_law [OF assms(1,2), of k n] show ?thesis by auto
  next
    case (Some v)
    with CExpire expire_law [where s = s and clk = clk and k = k and v = v and n = n] assms
    show ?thesis by auto
  qed
next
  case CFlushDb
  then show ?thesis using clear_law [OF assms(1)] by (auto simp: fun_eq_iff)
next
  case CKeys
  then show ?thesis using assms(1) keys_law [OF assms(1), of clk] by auto
next
  case (CMget ks)
  then show ?thesis using assms(1) mget_law [OF assms(1), of clk ks] by (auto simp: comp_def)
next
  case (CMset ps)
  then show ?thesis using mset_loop_law [OF assms(1), of clk ps] by auto
qed (use assms(1) len_law [OF assms(1)] in auto)

end

section \<open>The buffer dispatchers write the same reply\<close>

text \<open>
  The bytes \<open>dispatch_to_buffer\<close> writes for a reply: those of the reply, but with short
  texts for the engine errors of all commands except MSET.
\<close>

definition terse_bytes :: "crates \<Rightarrow> bool \<Rightarrow> command \<Rightarrow> response \<Rightarrow> bytes" where
  "terse_bytes X is_resp cmd r =
     (case r of
        Error e \<Rightarrow>
          (case cmd of
             CMset ps \<Rightarrow> write_error e
           | CIncr k \<Rightarrow> ''-ERR type'' @ crlf
           | _ \<Rightarrow> ''-ERR internal'' @ crlf)
      | _ \<Rightarrow> response_bytes X is_resp r)"

lemma write_bulk_simps:
  "write_bulk X (Some d) = ''$'' @ itoa X (int (length d)) @ crlf @ d @ crlf"
  "write_bulk X None = null_bulk"
  by (simp_all add: write_bulk_def)

lemma put_items_bytes: "put_items X buf items = buf @ concat (map (write_bulk X) items)"
  by (induction X buf items rule: put_items.induct) (simp_all add: write_bulk_simps)

lemma put_array_bytes: "put_array X buf items = buf @ response_bytes X b (Array items)"
  by (simp add: put_array_def put_items_bytes write_array_def)

lemma put_value_bytes: "put_value X b buf d = buf @ response_bytes X b (Value (Some d))"
  by (simp add: put_value_def write_bulk_def)

lemma put_int_bytes: "put_int X buf n = buf @ response_bytes X b (Integer n)"
  by (simp add: put_int_def)

definition omap :: "('a \<Rightarrow> 'b) \<Rightarrow> 'a outcome \<Rightarrow> 'b outcome" where
  "omap f m = obind m (\<lambda>a. Ret (f a))"

lemma omap_simps [simp]: "omap f (Ret a) = Ret (f a)" "omap f Panic = Panic" "omap f Blocked = Blocked"
  by (simp_all add: omap_def)

lemma omap_obind: "omap f (obind m g) = obind m (\<lambda>a. omap f (g a))"
  by (cases m) auto

lemma obind_cong: "(\<And>a. m = Ret a \<Longrightarrow> f a = g a) \<Longrightarrow> obind m f = obind m g"
  by (cases m) auto

lemma dispatch_to_buffer_dispatch:
  "dispatch_to_buffer X K i clk m cmd s buf is_resp =
     omap (\<lambda>(r, s'). (buf @ terse_bytes X is_resp cmd r, s')) (dispatch K i clk m cmd s)"
  by (cases cmd)
    (auto simp: omap_obind terse_bytes_def put_value_bytes put_int_bytes [where b = is_resp]
      put_array_bytes [where b = is_resp] simp del: response_bytes.simps(3,5,7)
      split: prod.splits sum.splits option.splits intro!: obind_cong)

text \<open>
  (C24) The allocation-free dispatcher is the reference dispatcher followed by the writer:
  for every engine, command and mode, \<open>dispatch_to_buffer\<close> makes the same engine state and
  appends the bytes of the response that \<open>dispatch\<close> returns; it panics or blocks when
  \<open>dispatch\<close> does. Only the texts of engine errors are shortened.
\<close>

theorem dispatch_to_buffer_writes_response:
  "dispatch_to_buffer X K i clk m cmd s buf is_resp =
     omap (\<lambda>(r, s'). (buf @ terse_bytes X is_resp cmd r, s')) (dispatch K i clk m cmd s)"
  by (rule dispatch_to_buffer_dispatch)



section \<open>Borrowed commands\<close>

fun utf8_keys :: "parsed_command \<Rightarrow> bool" where
  "utf8_keys (PGet k) = valid_utf8 k"
| "utf8_keys (PSet k v ttl) = valid_utf8 k"
| "utf8_keys (PDel k) = valid_utf8 k"
| "utf8_keys (PIncr k) = valid_utf8 k"
| "utf8_keys (PExists k) = valid_utf8 k"
| "utf8_keys (PTtl k) = valid_utf8 k"
| "utf8_keys (PExpire k n) = valid_utf8 k"
| "utf8_keys (PMget ks) = list_all valid_utf8 ks"
| "utf8_keys (PMset ps) = list_all (valid_utf8 \<circ> fst) ps"
| "utf8_keys _ = True"

text \<open>The commands whose borrowed dispatch has its own reply format, metrics or error handling.\<close>

fun plain_dispatch :: "parsed_command \<Rightarrow> bool" where
  "plain_dispatch PInfo = False"
| "plain_dispatch PKeys = False"
| "plain_dispatch (PMget ks) = False"
| "plain_dispatch (PMset ps) = False"
| "plain_dispatch _ = True"

lemma key_str_valid [simp]: "valid_utf8 k \<Longrightarrow> key_str k = k"
  by (simp add: key_str_def)

lemma show_small_ints:
  "show_int (-2) = ''-2''" "show_int (-1) = ''-1''" "show_int 0 = ''0''" "show_int 1 = ''1''"
  by code_simp+

context crates_spec
begin

lemma put_ttl_bytes: "put_ttl X buf t = put_int X buf t"
  by (simp add: put_ttl_def put_int_def itoa_decimal show_small_ints)

lemma put_bool: "buf @ (if b then '':1'' else '':0'') @ crlf = put_int X buf (bool_int b)"
  by (simp add: put_int_def bool_int_def itoa_decimal show_small_ints)

lemma borrowed_eq_owned:
  assumes "utf8_keys p" and "plain_dispatch p" and "in_i64 (int (kv_len K s))"
  shows "dispatch_borrowed_to_buffer X K i clk m p s buf is_resp =
           omap (\<lambda>(out, s'). (out, s', m)) (dispatch_to_buffer X K i clk m (to_owned p) s buf is_resp)"
  using assms
  by (cases p)
    (auto simp: omap_obind put_ttl_bytes put_bool bytes_to_string_def simp del: append_assoc append.simps
      split: prod.splits sum.splits option.splits intro!: obind_cong)

end

text \<open>
  The bytes of a reply in the borrowed dispatch: as in the owned one, but inline arrays are
  words separated by spaces. The metrics INFO reads are those after a flush.
\<close>

fun borrowed_bytes :: "crates \<Rightarrow> bool \<Rightarrow> command \<Rightarrow> response \<Rightarrow> bytes" where
  "borrowed_bytes X is_resp cmd (Array items) =
     (if is_resp then response_bytes X True (Array items)
      else spaced (map (\<lambda>v. case v of Some d \<Rightarrow> d | None \<Rightarrow> ''(nil)'') items) @ crlf)"
| "borrowed_bytes X is_resp cmd r = terse_bytes X is_resp cmd r"

definition borrowed_metrics :: "thread \<Rightarrow> parsed_command \<Rightarrow> metrics \<Rightarrow> metrics" where
  "borrowed_metrics i p m = (if p = PInfo then flush_all i m else m)"

lemma borrowed_bytes_no_array: "\<forall>items. r \<noteq> Array items \<Longrightarrow> borrowed_bytes X b cmd r = terse_bytes X b cmd r"
  by (cases r) auto

lemma put_borrowed_values_bytes:
  "put_borrowed_values X is_resp buf vals = buf @ borrowed_bytes X is_resp cmd (Array vals)"
  using put_array_bytes [of X buf vals True] by (simp add: put_borrowed_values_def)

lemma put_borrowed_keys_bytes:
  "put_borrowed_keys X is_resp buf ks = buf @ borrowed_bytes X is_resp cmd (Array (map Some ks))"
  using put_array_bytes [of X buf "map Some ks" True] by (simp add: put_borrowed_keys_def comp_def)

lemma plain_dispatch_no_array:
  "plain_dispatch p \<Longrightarrow> dispatch K i clk m (to_owned p) s = Ret (r, s') \<Longrightarrow> r \<noteq> Array items"
proof (cases p)
  case (PSet k v ttl)
  assume "dispatch K i clk m (to_owned p) s = Ret (r, s')"
  with PSet obtain entry where "(case kv_set K (later 2 clk) s (bytes_to_string k) entry of
      (Inl e, s') \<Rightarrow> Ret (Error (InternalError (engine_error_text e)), s') | (Inr u, s') \<Rightarrow> Ret (Ok, s')) = Ret (r, s')"
    by (auto simp: obind_eq_Ret_iff)
  then show "r \<noteq> Array items"
    by (cases "fst (kv_set K (later 2 clk) s (bytes_to_string k) entry)") (auto simp: case_prod_beta)
next
  case (PIncr k)
  assume "dispatch K i clk m (to_owned p) s = Ret (r, s')"
  with PIncr obtain q s1 where "(case (q, s1) of
      (Inl e, s') \<Rightarrow> Ret (Error (TypeError (engine_error_text e)), s') | (Inr n, s') \<Rightarrow> Ret (Integer n, s')) = Ret (r, s')"
    by (auto simp: obind_eq_Ret_iff)
  then show "r \<noteq> Array items" by (cases q) auto
qed (auto simp: obind_eq_Ret_iff split: sum.splits prod.splits option.splits)

context crates_spec
begin

lemma borrowed_plain:
  assumes "utf8_keys p" and "plain_dispatch p" and "in_i64 (int (kv_len K s))"
  shows "dispatch_borrowed_to_buffer X K i clk m p s buf is_resp =
    omap (\<lambda>(r, s'). (buf @ borrowed_bytes X is_resp (to_owned p) r, s', m)) (dispatch K i clk m (to_owned p) s)"
proof (cases "dispatch K i clk m (to_owned p) s")
  case (Ret q)
  obtain r s' where q: "q = (r, s')" by (cases q)
  have "r \<noteq> Array items" for items
    using plain_dispatch_no_array [OF assms(2), of K i clk m s r s'] Ret q by simp
  then have "borrowed_bytes X is_resp (to_owned p) r = terse_bytes X is_resp (to_owned p) r"
    by (simp add: borrowed_bytes_no_array)
  with Ret q borrowed_eq_owned [OF assms, of i clk m buf is_resp] show ?thesis
    by (simp add: dispatch_to_buffer_dispatch)
qed (use borrowed_eq_owned [OF assms, of i clk m buf is_resp] in \<open>simp_all add: dispatch_to_buffer_dispatch\<close>)

end

context zet_engine
begin

lemma mset_borrowed_loop_eq:
  "list_all (valid_utf8 \<circ> fst) ps \<Longrightarrow> max_keys e = 0 \<Longrightarrow>
     mset_loop (dashmap_engine X D) clk ps e = (Inr (), mset_borrowed_loop (dashmap_engine X D) clk ps e)"
  by (induction ps arbitrary: clk e) (auto simp: dashmap_engine_def engine_set_unlimited)

lemma mget_values_live:
  assumes "list_all valid_utf8 ks" and "mono clk"
  shows "\<exists>e'. mget_values (dashmap_engine X D) clk ks e =
      (map2 (\<lambda>j k. map_option data (live D e (clk (2 * j)) k)) [0..<length ks] ks, e') \<and>
    max_keys e' = max_keys e \<and> (\<forall>t \<ge> clk (2 * length ks). live D e' t = live D e t)"
  using assms
proof (induction ks arbitrary: clk e)
  case (Cons k ks)
  obtain e1 where e1: "engine_get D clk e k = (Inr (live D e (clk 0) k), e1)" "max_keys e1 = max_keys e"
      "\<forall>t \<ge> clk 0. live D e1 t = live D e t"
    using engine_get_law [of clk e k] by blast
  have ks: "list_all valid_utf8 ks" using Cons.prems(1) by simp
  have m: "mono (later 2 clk)" using Cons.prems(2) by (simp add: mono_def later_def)
  obtain e2 where e2: "mget_values (dashmap_engine X D) (later 2 clk) ks e1 =
      (map2 (\<lambda>j k. map_option data (live D e1 (later 2 clk (2 * j)) k)) [0..<length ks] ks, e2)"
      "max_keys e2 = max_keys e1" "\<forall>t \<ge> later 2 clk (2 * length ks). live D e2 t = live D e1 t"
    using Cons.IH [OF ks m, of e1] by blast
  have le: "clk 0 \<le> clk n" for n using Cons.prems(2) by (simp add: mono_def)
  have "live D e1 (later 2 clk (2 * j)) = live D e (clk (2 * Suc j))" for j
    using e1(3) le by (simp add: later_def add.commute)
  then have vals: "map2 (\<lambda>j k. map_option data (live D e1 (later 2 clk (2 * j)) k)) [0..<length ks] ks =
      map2 (\<lambda>j k. map_option data (live D e (clk (2 * j)) k)) [Suc 0..<Suc (length ks)] ks"
    by (intro nth_equalityI) (simp_all del: upt_Suc)
  have "\<forall>t \<ge> clk (2 * length (k # ks)). live D e2 t = live D e t"
    using e2(3) e1(3) le by (auto simp: later_def add.commute intro: order_trans)
  with Cons.prems(1) e1 e2 vals show ?case
    by (auto simp: dashmap_engine_def upt_conv_Cons simp del: upt_Suc split: option.split)
qed simp

end



text \<open>
  Keys that are not UTF-8 are not told apart on the inline path: every such key is
  taken for the empty key, so a GET of one returns what a SET of another stored.
\<close>

theorem dispatch_borrowed_aliases_binary_keys:
  assumes "\<not> valid_utf8 k" and "\<not> valid_utf8 k'"
  shows "dispatch_borrowed_to_buffer X K i clk m (PGet k) s buf is_resp =
           dispatch_borrowed_to_buffer X K i clk m (PGet k') s buf is_resp \<and>
         dispatch_borrowed_to_buffer X K i clk m (PSet k v ttl) s buf is_resp =
           dispatch_borrowed_to_buffer X K i clk m (PSet [] v ttl) s buf is_resp"
  using assms by (simp add: key_str_def)

theorem dispatch_borrowed_aliases_binary_keys_witness:
  "dispatch_borrowed_to_buffer reference_crates (dashmap_engine reference_crates alist_dashmap) 0 (\<lambda>_. 3)
      (metrics_init 0) (PGet [CHR 0xFF]) (demo_engine 0 []) [] False =
   dispatch_borrowed_to_buffer reference_crates (dashmap_engine reference_crates alist_dashmap) 0 (\<lambda>_. 3)
      (metrics_init 0) (PGet [CHR 0xFE]) (demo_engine 0 []) [] False"
proof -
  have "\<not> valid_utf8 [CHR 0xFF]" and "\<not> valid_utf8 [CHR 0xFE]" by code_simp+
  from dispatch_borrowed_aliases_binary_keys [OF this] show ?thesis by (rule conjunct1)
qed

text \<open>MSET on the inline path reports success even when the engine refuses every pair.\<close>

lemma dispatch_borrowed_mset_ok:
  "\<exists>s'. dispatch_borrowed_to_buffer X K i clk m (PMset ps) s buf b = Ret (buf @ ''+OK'' @ crlf, s', m)"
  by simp

text \<open>The fast dispatcher answers GET with expired data and drops the time to live of SET.\<close>

lemma dispatch_fast_ignores_expiry:
  assumes "dm_get D (emap e) k = Some v"
  shows "dispatch_fast D (PGet k) e buf = (buf @ ''+'' @ data v @ crlf, e)"
  using assms by (simp add: dispatch_fast_def get_fast_def)

section \<open>Errors that carry a key\<close>

text \<open>
  The error of INCR quotes the key, and a key of the RESP protocol may hold CRLF: the client
  then reads a shorter error, and what follows the line break in the key as another reply.
\<close>

theorem incr_error_splits_reply:
  assumes "zet_engine D X" and "live D e (clk 0) k = Some v" and "parse_i64 (from_utf8_lossy (data v)) = None"
    and "has_crlf k"
  shows "\<exists>r l1 l2. dispatch (dashmap_engine X D) i clk m (CIncr k) e = Ret (r, e) \<and>
    read_reply (write_to_resp X r [] @ rest) = Some (Error_Reply l1, l2 @ crlf @ rest)"
proof -
  let ?err = "TypeError (engine_error_text (NotAnInteger k))"
  have "dispatch (dashmap_engine X D) i clk m (CIncr k) e = Ret (Error ?err, e)"
    using zet_engine.engine_incr_present [OF assms(1), of e clk k v] assms(2,3) by (simp add: dashmap_engine_def)
  moreover have "has_crlf (error_text ?err)"
    using has_crlf_append_right [OF assms(4), of "''value is not an integer: ''"] by simp
  then have "\<exists>l1 l2. read_reply (write_to_resp X (Error ?err) [] @ rest) = Some (Error_Reply l1, l2 @ crlf @ rest)"
    using read_reply_broken_error [of ?err rest] by (auto simp: write_defs)
  ultimately show ?thesis by blast
qed

theorem incr_error_splits_reply_witness:
  "\<exists>r l1 l2. dispatch (dashmap_engine reference_crates alist_dashmap) 0 (\<lambda>_. 5) (metrics_init 0)
      (CIncr (''a'' @ crlf @ ''+OK'')) (demo_engine 0 [(''a'' @ crlf @ ''+OK'', demo_entry ''x'' None 0)]) =
      Ret (r, demo_engine 0 [(''a'' @ crlf @ ''+OK'', demo_entry ''x'' None 0)]) \<and>
    read_reply (write_to_resp reference_crates r [] @ []) = Some (Error_Reply l1, l2 @ crlf @ [])"
proof (rule incr_error_splits_reply [OF reference_engine.zet_engine_axioms, where v = "demo_entry ''x'' None 0"])
  show "parse_i64 (from_utf8_lossy (data (demo_entry ''x'' None 0))) = None" by code_simp
qed (simp_all add: live_def demo_engine_def alist_dashmap_def live_at_def demo_entry_def is_expired_at_def crlf_def)

section \<open>Types of replies\<close>

text \<open>The replies that a command can have; integers are within \<open>i64\<close>.\<close>

fun reply_typed :: "command \<Rightarrow> response \<Rightarrow> bool" where
  "reply_typed CPing r = (r = Pong)"
| "reply_typed (CGet k) r = (case r of Value d \<Rightarrow> True | _ \<Rightarrow> False)"
| "reply_typed (CSet k v ttl) r = (case r of Ok \<Rightarrow> True | Error (InternalError t) \<Rightarrow> True | _ \<Rightarrow> False)"
| "reply_typed (CDel k) r = (r \<in> {Integer 0, Integer 1})"
| "reply_typed (CIncr k) r = (case r of Integer n \<Rightarrow> in_i64 n | Error (TypeError t) \<Rightarrow> True | _ \<Rightarrow> False)"
| "reply_typed CInfo r = (case r of Value (Some t) \<Rightarrow> True | _ \<Rightarrow> False)"
| "reply_typed CDbSize r = (case r of Integer n \<Rightarrow> in_i64 n | _ \<Rightarrow> False)"
| "reply_typed (CExists k) r = (r \<in> {Integer 0, Integer 1})"
| "reply_typed (CTtl k) r = (case r of Integer n \<Rightarrow> in_i64 n | _ \<Rightarrow> False)"
| "reply_typed (CExpire k n) r = (r \<in> {Integer 0, Integer 1})"
| "reply_typed CFlushDb r = (r = Ok)"
| "reply_typed CKeys r = (case r of Array items \<Rightarrow> None \<notin> set items | _ \<Rightarrow> False)"
| "reply_typed (CMget ks) r = (case r of Array items \<Rightarrow> length items = length ks | _ \<Rightarrow> False)"
| "reply_typed (CMset ps) r = (case r of Ok \<Rightarrow> True | Error (InternalError t) \<Rightarrow> True | _ \<Rightarrow> False)"

lemma engine_incr_in_i64: "engine_incr X D clk e k = Ret (Inr n, e') \<Longrightarrow> in_i64 n"
  by (auto simp: engine_incr_def Let_def in_i64_def [of 1] split: option.splits if_splits prod.splits sum.splits)

lemma engine_ttl_in_i64: "engine_ttl_secs D clk e k = (n, e') \<Longrightarrow> in_i64 n"
proof -
  have "in_i64 (- 2)" "in_i64 (- 1)" by (simp_all add: in_i64_def)
  then show "engine_ttl_secs D clk e k = (n, e') \<Longrightarrow> in_i64 n"
    by (auto simp: engine_ttl_secs_def split: option.splits if_splits)
qed

lemma engine_get_no_error: "engine_get D clk e k \<noteq> (Inl err, e')"
  by (auto simp: engine_get_def split: option.splits if_splits)

lemma engine_del_no_error: "engine_del D clk e k \<noteq> (Inl err, e')"
  by (auto simp: engine_del_def split: option.splits if_splits prod.splits)

text \<open>
  (C29) Replies are well typed: whatever the engine holds, with or without a key limit, a
  command that is answered has a reply of its type. GET, DEL, EXISTS, TTL, EXPIRE, KEYS and
  MGET never answer with an error, truth values are 0 or 1, every other integer fits an
  \<open>i64\<close>, and MGET has one item for each of its keys.
\<close>

theorem dispatch_reply_typed:
  assumes "dispatch (dashmap_engine X D) i clk m c e = Ret (r, e')"
  shows "reply_typed c r"
proof (cases c)
  case (CIncr k)
  with assms obtain q e1 where q: "engine_incr X D clk e k = Ret (q, e1)"
    by (auto simp: dashmap_engine_def obind_eq_Ret_iff)
  with CIncr assms show ?thesis
    by (cases q) (auto simp: dashmap_engine_def dest: engine_incr_in_i64)
next
  case (CSet k v ttl)
  with assms obtain entry where "set_entry clk v ttl = Ret entry"
    by (auto simp: obind_eq_Ret_iff)
  with CSet assms show ?thesis
    by (auto split: sum.splits prod.splits)
next
  case (CTtl k)
  with assms show ?thesis
    by (auto simp: dashmap_engine_def split: prod.splits dest: engine_ttl_in_i64)
qed (use assms in \<open>auto simp: dashmap_engine_def obind_eq_Ret_iff bool_int_def engine_get_no_error engine_del_no_error
       engine_mget_def split: sum.splits prod.splits option.splits if_splits\<close>)

theorem dispatch_reply_typed_witness:
  "reply_typed (CTtl ''k'') (Integer (- 2))"
proof -
  have "dispatch (dashmap_engine reference_crates alist_dashmap) 0 (\<lambda>_. 5) (metrics_init 0) (CTtl ''k'') (demo_engine 0 []) =
      Ret (Integer (- 2), demo_engine 0 [])"
    by code_simp
  then show ?thesis by (rule dispatch_reply_typed)
qed

end
