(* ===== verification/Aof.thy ===== *)
theory Aof
  imports Dispatcher_Props
begin

text \<open>
  The append-only file (\<open>src/src/storage/aof.rs\<close>): the writer with its batch buffer and
  fsync policy, the binary entry decoder and the replay loop, and the rewriter. A file is
  its bytes. The I/O calls of one operation succeed or fail as a parameter says: the
  \<open>i\<close>-th of them succeeds when \<open>disk i = None\<close>, and fails when \<open>disk i = Some n\<close>, a
  write having written \<open>n\<close> bytes before.
\<close>

section \<open>The writer\<close>

datatype fsync_policy = Always | Everysec | No

type_synonym disk = "nat \<Rightarrow> nat option"

text \<open>
  \<open>on_path\<close> is the file at the writer's path, \<open>detached\<close> the file behind the handle when
  a rewrite has replaced the path's file but could not reopen it, \<open>synced\<close> the bytes known
  to be on disk after the last \<open>sync_all\<close>.
\<close>

record aof_writer =
  on_path :: bytes
  detached :: "bytes option"
  synced :: bytes
  policy :: fsync_policy
  last_fsync :: instant
  batch :: bytes

definition aof_batch_size :: nat where
  "aof_batch_size = 4096"

text \<open>\<open>AofWriter::new\<close>: \<open>file\<close> is what the path held, empty when it was created.\<close>

definition aof_writer_new :: "clock \<Rightarrow> disk \<Rightarrow> bytes \<Rightarrow> fsync_policy \<Rightarrow> aof_writer option" where
  "aof_writer_new clk disk file pol =
     (if disk 0 \<noteq> None then None
      else Some \<lparr>on_path = file, detached = None, synced = [], policy = pol,
                 last_fsync = clk 0, batch = []\<rparr>)"

text \<open>\<open>write_all\<close> and \<open>sync_all\<close> on the handle, as the \<open>i\<close>-th I/O call.\<close>

definition handle_bytes :: "aof_writer \<Rightarrow> bytes" where
  "handle_bytes w = (case detached w of None \<Rightarrow> on_path w | Some f \<Rightarrow> f)"

definition append_handle :: "aof_writer \<Rightarrow> bytes \<Rightarrow> aof_writer" where
  "append_handle w bs =
     (case detached w of
        None \<Rightarrow> w\<lparr>on_path := on_path w @ bs\<rparr>
      | Some f \<Rightarrow> w\<lparr>detached := Some (f @ bs)\<rparr>)"

definition write_all :: "disk \<Rightarrow> nat \<Rightarrow> bytes \<Rightarrow> aof_writer \<Rightarrow> bool \<times> aof_writer" where
  "write_all disk i bs w =
     (case disk i of
        None \<Rightarrow> (True, append_handle w bs)
      | Some n \<Rightarrow> (False, append_handle w (take n bs)))"

definition sync_all :: "disk \<Rightarrow> nat \<Rightarrow> aof_writer \<Rightarrow> bool \<times> aof_writer" where
  "sync_all disk i w =
     (case disk i of
        None \<Rightarrow> (True, w\<lparr>synced := handle_bytes w\<rparr>)
      | Some n \<Rightarrow> (False, w))"

text \<open>Write the pending batch and clear it; a failed write keeps it.\<close>

definition write_batch :: "disk \<Rightarrow> nat \<Rightarrow> aof_writer \<Rightarrow> bool \<times> aof_writer" where
  "write_batch disk i w =
     (if batch w = [] then (True, w)
      else case write_all disk i (batch w) w of
        (ok, w') \<Rightarrow> if ok then (True, w'\<lparr>batch := []\<rparr>) else (False, w'))"

definition one_second :: duration where
  "one_second = from_secs 1"

definition fsync_by_policy :: "clock \<Rightarrow> disk \<Rightarrow> nat \<Rightarrow> aof_writer \<Rightarrow> bool \<times> aof_writer" where
  "fsync_by_policy clk disk i w =
     (case policy w of
        Always \<Rightarrow> sync_all disk i w
      | Everysec \<Rightarrow>
          if clk 0 - last_fsync w \<ge> one_second then
            (case sync_all disk i w of
               (ok, w') \<Rightarrow> if ok then (True, w'\<lparr>last_fsync := clk 1\<rparr>) else (False, w'))
          else (True, w)
      | No \<Rightarrow> (True, w))"

definition flush_batch :: "clock \<Rightarrow> disk \<Rightarrow> bytes \<Rightarrow> aof_writer \<Rightarrow> bool \<times> aof_writer" where
  "flush_batch clk disk entry w =
     (case write_batch disk 0 w of
        (False, w1) \<Rightarrow> (False, w1)
      | (True, w1) \<Rightarrow>
          (case write_all disk 1 entry w1 of
             (False, w2) \<Rightarrow> (False, w2)
           | (True, w2) \<Rightarrow> fsync_by_policy clk disk 2 w2))"

definition append_raw :: "clock \<Rightarrow> disk \<Rightarrow> bytes \<Rightarrow> aof_writer \<Rightarrow> bool \<times> aof_writer" where
  "append_raw clk disk entry w =
     (let w1 = w\<lparr>batch := batch w @ entry\<rparr>
      in if length (batch w1) < aof_batch_size then (True, w1)
         else flush_batch clk disk entry w1)"

definition aof_flush :: "disk \<Rightarrow> aof_writer \<Rightarrow> bool \<times> aof_writer" where
  "aof_flush disk w =
     (case write_batch disk 0 w of
        (False, w1) \<Rightarrow> (False, w1)
      | (True, w1) \<Rightarrow> if policy w1 = Always then sync_all disk 1 w1 else (True, w1))"

definition flush_if_needed :: "clock \<Rightarrow> disk \<Rightarrow> aof_writer \<Rightarrow> bool \<times> aof_writer" where
  "flush_if_needed clk disk w =
     (if policy w = Everysec \<and> clk 0 - last_fsync w \<ge> one_second then
        (case write_batch disk 0 w of
           (False, w1) \<Rightarrow> (False, w1)
         | (True, w1) \<Rightarrow>
             (case sync_all disk 1 w1 of
                (False, w2) \<Rightarrow> (False, w2)
              | (True, w2) \<Rightarrow> (True, w2\<lparr>last_fsync := clk 1\<rparr>)))
      else (True, w))"

definition file_size :: "aof_writer \<Rightarrow> nat" where
  "file_size w = length (on_path w)"

text \<open>
  \<open>finalize_rewrite\<close> with the bytes of the temporary file: write the batch, rename (I/O
  call 1), reopen (I/O call 2). After a failed reopen the handle keeps the replaced file.
\<close>

definition finalize_rewrite :: "disk \<Rightarrow> bytes \<Rightarrow> aof_writer \<Rightarrow> bool \<times> aof_writer" where
  "finalize_rewrite disk tmp w =
     (case write_batch disk 0 w of
        (False, w1) \<Rightarrow> (False, w1)
      | (True, w1) \<Rightarrow>
          if disk 1 \<noteq> None then (False, w1)
          else let w2 = w1\<lparr>on_path := tmp, detached := Some (handle_bytes w1)\<rparr>
               in if disk 2 \<noteq> None then (False, w2)
                  else (True, w2\<lparr>detached := None\<rparr>))"

section \<open>Encoding and decoding\<close>

definition encode_key :: "bytes \<Rightarrow> key \<Rightarrow> bytes" where
  "encode_key buf key = buf @ le_bytes 2 (as_u16 (length key)) @ key"

definition encode_value :: "bytes \<Rightarrow> bytes \<Rightarrow> bytes" where
  "encode_value buf val = buf @ le_bytes 4 (as_u32 (length val)) @ val"

definition encode_ttl :: "bytes \<Rightarrow> int \<Rightarrow> bytes" where
  "encode_ttl buf ttl_ms = buf @ le_i64 ttl_ms"

text \<open>The readers return the value and the advanced position, or the error.\<close>

definition read_u16_le :: "bytes \<Rightarrow> nat \<Rightarrow> (nat \<times> nat) option" where
  "read_u16_le d pos =
     (if pos + 2 \<le> length d then Some (from_le (subslice pos (pos + 2) d), pos + 2) else None)"

definition read_u32_le :: "bytes \<Rightarrow> nat \<Rightarrow> (nat \<times> nat) option" where
  "read_u32_le d pos =
     (if pos + 4 \<le> length d then Some (from_le (subslice pos (pos + 4) d), pos + 4) else None)"

definition read_u64_le :: "bytes \<Rightarrow> nat \<Rightarrow> (nat \<times> nat) option" where
  "read_u64_le d pos =
     (if pos + 8 \<le> length d then Some (from_le (subslice pos (pos + 8) d), pos + 8) else None)"

definition read_i64_le :: "bytes \<Rightarrow> nat \<Rightarrow> (int \<times> nat) option" where
  "read_i64_le d pos =
     (if pos + 8 \<le> length d then Some (from_le_i64 (subslice pos (pos + 8) d), pos + 8) else None)"

section \<open>Replay\<close>

text \<open>
  A key and a value field of an entry. \<open>None\<close> is \<open>break\<close>, together with the position the
  loop variable \<open>pos\<close> has then: the reads before the failing check have advanced it.
\<close>

definition replay_key :: "bytes \<Rightarrow> nat \<Rightarrow> nat + (key \<times> nat)" where
  "replay_key d pos =
     (case read_u16_le d pos of
        None \<Rightarrow> Inl pos
      | Some (key_len, pos1) \<Rightarrow>
          if pos1 + key_len > length d then Inl pos1
          else Inr (from_utf8_lossy (subslice pos1 (pos1 + key_len) d), pos1 + key_len))"

definition replay_value :: "bytes \<Rightarrow> nat \<Rightarrow> nat + (bytes \<times> nat)" where
  "replay_value d pos =
     (case read_u32_le d pos of
        None \<Rightarrow> Inl pos
      | Some (val_len, pos1) \<Rightarrow>
          if pos1 + val_len > length d then Inl pos1
          else Inr (subslice pos1 (pos1 + val_len) d, pos1 + val_len))"

text \<open>
  The arms of the replay loop, from the position behind the command byte. \<open>None\<close> leaves
  the loop; \<open>Some\<close> carries the position and the engine for the next round.
\<close>

definition replay_entry_of :: "clock \<Rightarrow> bytes \<Rightarrow> int \<Rightarrow> value_entry outcome" where
  "replay_entry_of clk val ttl_ms =
     (if ttl_ms > 0 then
        obind (instant_add (clk 0) (from_millis (nat ttl_ms)))
          (\<lambda>e. Ret \<lparr>data = val, expires_at = Some e, created_at = Some (clk 1)\<rparr>)
      else Ret \<lparr>data = val, expires_at = None, created_at = Some (clk 0)\<rparr>)"

definition replay_set :: "'s kv_engine \<Rightarrow> clock \<Rightarrow> bytes \<Rightarrow> nat \<Rightarrow> 's \<Rightarrow> (nat \<times> 's) option outcome" where
  "replay_set K clk d pos s =
     (case replay_key d pos of
        Inl p \<Rightarrow> Ret None
      | Inr (key, pos1) \<Rightarrow>
          (case replay_value d pos1 of
             Inl p \<Rightarrow> Ret None
           | Inr (val, pos2) \<Rightarrow>
               (case read_i64_le d pos2 of
                  None \<Rightarrow> Ret None
                | Some (ttl_ms, pos3) \<Rightarrow>
                    obind (replay_entry_of clk val ttl_ms) (\<lambda>entry.
                      Ret (Some (pos3, snd (kv_set K (later 2 clk) s key entry)))))))"

definition replay_del :: "'s kv_engine \<Rightarrow> clock \<Rightarrow> bytes \<Rightarrow> nat \<Rightarrow> 's \<Rightarrow> (nat \<times> 's) option outcome" where
  "replay_del K clk d pos s =
     (case replay_key d pos of
        Inl p \<Rightarrow> Ret None
      | Inr (key, pos1) \<Rightarrow> Ret (Some (pos1, snd (kv_del K clk s key))))"

definition replay_incr :: "'s kv_engine \<Rightarrow> clock \<Rightarrow> bytes \<Rightarrow> nat \<Rightarrow> 's \<Rightarrow> (nat \<times> 's) option outcome" where
  "replay_incr K clk d pos s =
     (case replay_key d pos of
        Inl p \<Rightarrow> Ret None
      | Inr (key, pos1) \<Rightarrow> obind (kv_incr K clk s key) (\<lambda>(r, s'). Ret (Some (pos1, s'))))"

definition replay_expire :: "'s kv_engine \<Rightarrow> clock \<Rightarrow> bytes \<Rightarrow> nat \<Rightarrow> 's \<Rightarrow> (nat \<times> 's) option outcome" where
  "replay_expire K clk d pos s =
     (case replay_key d pos of
        Inl p \<Rightarrow> Ret None
      | Inr (key, pos1) \<Rightarrow>
          (case read_u64_le d pos1 of
             None \<Rightarrow> Ret None
           | Some (seconds, pos2) \<Rightarrow>
               obind (kv_expire K clk s key seconds) (\<lambda>(r, s'). Ret (Some (pos2, s')))))"

text \<open>The pair loop of MSET; a \<open>break\<close> here leaves only this loop.\<close>

fun replay_pairs :: "'s kv_engine \<Rightarrow> clock \<Rightarrow> bytes \<Rightarrow> nat \<Rightarrow> nat \<Rightarrow> 's \<Rightarrow> nat \<times> 's" where
  "replay_pairs K clk d 0 pos s = (pos, s)"
| "replay_pairs K clk d (Suc n) pos s =
     (case replay_key d pos of
        Inl p \<Rightarrow> (p, s)
      | Inr (key, pos1) \<Rightarrow>
          (case replay_value d pos1 of
             Inl p \<Rightarrow> (p, s)
           | Inr (val, pos2) \<Rightarrow>
               replay_pairs K (later 2 clk) d n pos2
                 (snd (kv_set K (later 1 clk) s key (value_entry_new clk val)))))"

definition replay_mset :: "'s kv_engine \<Rightarrow> clock \<Rightarrow> bytes \<Rightarrow> nat \<Rightarrow> 's \<Rightarrow> (nat \<times> 's) option outcome" where
  "replay_mset K clk d pos s =
     (case read_u16_le d pos of
        None \<Rightarrow> Ret None
      | Some (count, pos1) \<Rightarrow> Ret (Some (replay_pairs K clk d count pos1 s)))"

definition replay_entry :: "'s kv_engine \<Rightarrow> clock \<Rightarrow> bytes \<Rightarrow> nat \<Rightarrow> 's \<Rightarrow> (nat \<times> 's) option outcome" where
  "replay_entry K clk d pos s =
     (let cmd_type = d ! pos; pos = pos + 1
      in if cmd_type = CHR 0x01 then replay_set K clk d pos s
         else if cmd_type = CHR 0x02 then replay_del K clk d pos s
         else if cmd_type = CHR 0x03 then replay_incr K clk d pos s
         else if cmd_type = CHR 0x04 then replay_expire K clk d pos s
         else if cmd_type = CHR 0x05 then Ret (Some (pos, kv_clear K s))
         else if cmd_type = CHR 0x06 then replay_mset K clk d pos s
         else Ret None)"

text \<open>Every arm that continues has advanced the position.\<close>

lemma obind_cong_fundef [fundef_cong]:
  "m = m' \<Longrightarrow> (\<And>a. m' = Ret a \<Longrightarrow> f a = g a) \<Longrightarrow> obind m f = obind m' g"
  by (cases m') auto

lemma replay_key_advances: "replay_key d pos = Inr (k, p) \<Longrightarrow> pos < p"
  and replay_key_break: "replay_key d pos = Inl p \<Longrightarrow> pos \<le> p"
  by (auto simp: replay_key_def read_u16_le_def split: option.splits if_splits)

lemma replay_value_advances: "replay_value d pos = Inr (v, p) \<Longrightarrow> pos < p"
  and replay_value_break: "replay_value d pos = Inl p \<Longrightarrow> pos \<le> p"
  by (auto simp: replay_value_def read_u32_le_def split: option.splits if_splits)

lemma replay_pairs_advances: "replay_pairs K clk d n pos s = (p, s') \<Longrightarrow> pos \<le> p"
proof (induction n arbitrary: clk pos s)
  case (Suc n)
  show ?case
  proof (cases "replay_key d pos")
    case (Inl q)
    with Suc.prems replay_key_break show ?thesis by fastforce
  next
    case (Inr kp)
    obtain k p1 where kp: "kp = (k, p1)" by (cases kp)
    with Inr replay_key_advances have p1: "pos < p1" by fastforce
    show ?thesis
    proof (cases "replay_value d p1")
      case (Inl q)
      with Suc.prems Inr kp p1 replay_value_break [of d p1 q] show ?thesis by auto
    next
      case v: (Inr vp)
      obtain v p2 where vp: "vp = (v, p2)" by (cases vp)
      with v replay_value_advances [of d p1 v p2] p1 have "pos < p2" by simp
      moreover have "p2 \<le> p" using Suc Inr kp v vp by simp
      ultimately show ?thesis by simp
    qed
  qed
qed simp

lemma replay_entry_advances: "replay_entry K clk d pos s = Ret (Some (p, s')) \<Longrightarrow> pos < p"
  by (auto simp: replay_entry_def replay_set_def replay_del_def replay_incr_def replay_expire_def
      replay_mset_def read_u16_le_def read_i64_le_def read_u64_le_def Let_def obind_eq_Ret_iff
      dest!: replay_key_advances replay_value_advances replay_pairs_advances
      split: if_splits sum.splits option.splits prod.splits)

text \<open>The loop; \<open>clks n\<close> are the clock readings taken while the \<open>n\<close>-th entry is replayed.\<close>

function replay_loop ::
    "'s kv_engine \<Rightarrow> (nat \<Rightarrow> clock) \<Rightarrow> bytes \<Rightarrow> nat \<Rightarrow> nat \<Rightarrow> 's \<Rightarrow> (nat \<times> 's) outcome" where
  "replay_loop K clks d pos replayed s =
     (if pos < length d then
        obind (replay_entry K (clks replayed) d pos s) (\<lambda>r.
          case r of
            None \<Rightarrow> Ret (replayed, s)
          | Some (pos', s') \<Rightarrow> replay_loop K clks d pos' (replayed + 1) s')
      else Ret (replayed, s))"
  by pat_completeness auto
termination
  by (relation "measure (\<lambda>(K, clks, d, pos, replayed, s). length d - pos)")
    (auto dest: replay_entry_advances)

declare replay_loop.simps [simp del]

datatype 'a io_read = Missing | Unreadable | Contents 'a

definition replay_aof ::
    "'s kv_engine \<Rightarrow> (nat \<Rightarrow> clock) \<Rightarrow> bytes io_read \<Rightarrow> 's \<Rightarrow> (nat option \<times> 's) outcome" where
  "replay_aof K clks file s =
     (case file of
        Missing \<Rightarrow> Ret (Some 0, s)
      | Unreadable \<Rightarrow> Ret (None, s)
      | Contents d \<Rightarrow> omap (\<lambda>(n, s'). (Some n, s')) (replay_loop K clks d 0 0 s))"

section \<open>Rewrite\<close>

fun rewrite_entries :: "bytes \<Rightarrow> (key \<times> bytes \<times> int) list \<Rightarrow> bytes" where
  "rewrite_entries buf [] = buf"
| "rewrite_entries buf ((key, val, ttl_ms) # es) =
     rewrite_entries (encode_ttl (encode_value (encode_key (buf @ [CHR 0x01]) key) val) ttl_ms) es"

text \<open>\<open>rewrite_aof\<close>: the temporary file's bytes and the number of entries, if the I/O succeeds.\<close>

definition rewrite_aof :: "'m entries \<Rightarrow> instant \<Rightarrow> disk \<Rightarrow> 'm engine \<Rightarrow> (bytes \<times> nat) option" where
  "rewrite_aof D now disk e =
     (let es = dump_entries D now e; buf = rewrite_entries [] es
      in if disk 0 = None \<and> disk 1 = None \<and> disk 2 = None then Some (buf, length es) else None)"

text \<open>One round of \<open>run_aof_rewriter\<close>: the writer after it.\<close>

definition aof_rewriter_tick ::
    "'m entries \<Rightarrow> instant \<Rightarrow> disk \<Rightarrow> disk \<Rightarrow> nat \<Rightarrow> 'm engine \<Rightarrow> aof_writer \<Rightarrow> aof_writer" where
  "aof_rewriter_tick D now disk disk' threshold_bytes e w =
     (if file_size w < threshold_bytes then w
      else case rewrite_aof D now disk e of
        None \<Rightarrow> w
      | Some (tmp, count) \<Rightarrow> snd (finalize_rewrite disk' tmp w))"

text \<open>One round of \<open>run_aof_fsync\<close>.\<close>

definition aof_fsync_tick :: "clock \<Rightarrow> disk \<Rightarrow> aof_writer \<Rightarrow> aof_writer" where
  "aof_fsync_tick clk disk w = snd (flush_if_needed clk disk w)"

end
