(* ===== verification/Aof_Props.thy ===== *)
theory Aof_Props
  imports Aof
begin

text \<open>
  What the append-only file guarantees. Replaying the logged entries of a sequence of
  commands is executing the commands again, also when the file ends in the middle of an
  entry, as after a crash. Then what the writer, the rewriter and MSET do not guarantee:
  an entry that fills the batch is written twice, a rewrite drops what was pending, a torn
  MSET is followed by its own value bytes as commands, and two tasks can block each other.
\<close>

section \<open>Fields of an entry in a possibly torn file\<close>

definition log_key :: "key \<Rightarrow> bool" where
  "log_key k \<longleftrightarrow> valid_utf8 k \<and> length k < 2 ^ 16"

definition log_value :: "bytes \<Rightarrow> bool" where
  "log_value v \<longleftrightarrow> length v < 2 ^ 32"

lemma length_aof_key_bytes [simp]: "length (aof_key_bytes k) = 2 + length k"
  by (simp add: aof_key_bytes_def)

lemma length_aof_value_bytes [simp]: "length (aof_value_bytes v) = 4 + length v"
  by (simp add: aof_value_bytes_def)

lemma aof_pair_bytes_pair: "aof_pair_bytes (k, v) = aof_key_bytes k @ aof_value_bytes v"
  by (simp add: aof_pair_bytes_def)

lemma drop_length_le: "drop pos d = xs \<Longrightarrow> length d - pos = length xs"
  by auto

lemma read_field:
  assumes "drop pos d = take j (bs @ rest)" and "length bs \<le> j" and "pos \<le> length d"
  shows "subslice pos (pos + length bs) d = bs"
    and "pos + length bs \<le> length d"
    and "drop (pos + length bs) d = take (j - length bs) rest"
proof -
  have e: "drop pos d = bs @ take (j - length bs) rest" using assms(1,2) by simp
  show "subslice pos (pos + length bs) d = bs" using e by (simp add: subslice_def)
  have "length d - pos = length bs + length (take (j - length bs) rest)"
    using drop_length_le [OF e] by simp
  then show "pos + length bs \<le> length d" using assms(3) by linarith
  show "drop (pos + length bs) d = take (j - length bs) rest" using e by (rule drop_add_append)
qed

lemma torn_field:
  assumes "drop pos d = take j (bs @ rest)" and "j < length bs" and "pos \<le> length d"
  shows "length d < pos + length bs"
  using drop_length_le [OF assms(1)] assms(2,3) by simp

lemma replay_key_take:
  assumes "drop pos d = take j (aof_key_bytes k @ rest)" and "log_key k" and "pos \<le> length d"
  shows "if j < length (aof_key_bytes k) then \<exists>p. replay_key d pos = Inl p
         else replay_key d pos = Inr (k, pos + length (aof_key_bytes k))
           \<and> drop (pos + length (aof_key_bytes k)) d = take (j - length (aof_key_bytes k)) rest
           \<and> pos + length (aof_key_bytes k) \<le> length d"
proof (cases "j < 2")
  case True
  have "length d < pos + 2"
    using torn_field [of pos d j "le_bytes 2 (as_u16 (length k))" "k @ rest"] assms True
    by (simp add: aof_key_bytes_def)
  then show ?thesis using True by (simp add: replay_key_def read_u16_le_def)
next
  case False
  let ?l = "le_bytes 2 (as_u16 (length k))"
  have d: "drop pos d = take j (?l @ k @ rest)" using assms(1) by (simp add: aof_key_bytes_def)
  have len: "from_le ?l = length k"
    using assms(2) by (simp add: from_le_le_bytes as_u16_def log_key_def)
  note r = read_field [OF d _ assms(3), simplified]
  have u: "read_u16_le d pos = Some (length k, pos + 2)"
    using r False len by (simp add: read_u16_le_def)
  have d2: "drop (pos + 2) d = take (j - 2) (k @ rest)" and p2: "pos + 2 \<le> length d"
    using r False by simp_all
  show ?thesis
  proof (cases "j - 2 < length k")
    case True
    with torn_field [OF d2 _ p2] u False show ?thesis by (simp add: replay_key_def)
  next
    case ge: False
    with read_field [OF d2 _ p2] u False assms(2) show ?thesis
      by (simp add: replay_key_def log_key_def from_utf8_lossy_valid add.assoc)
  qed
qed

lemma replay_value_take:
  assumes "drop pos d = take j (aof_value_bytes v @ rest)" and "log_value v" and "pos \<le> length d"
  shows "if j < length (aof_value_bytes v) then \<exists>p. replay_value d pos = Inl p
         else replay_value d pos = Inr (v, pos + length (aof_value_bytes v))
           \<and> drop (pos + length (aof_value_bytes v)) d = take (j - length (aof_value_bytes v)) rest
           \<and> pos + length (aof_value_bytes v) \<le> length d"
proof (cases "j < 4")
  case True
  have "length d < pos + 4"
    using torn_field [of pos d j "le_bytes 4 (as_u32 (length v))" "v @ rest"] assms True
    by (simp add: aof_value_bytes_def)
  then show ?thesis using True by (simp add: replay_value_def read_u32_le_def)
next
  case False
  let ?l = "le_bytes 4 (as_u32 (length v))"
  have d: "drop pos d = take j (?l @ v @ rest)" using assms(1) by (simp add: aof_value_bytes_def)
  have len: "from_le ?l = length v"
    using assms(2) by (simp add: from_le_le_bytes as_u32_def log_value_def)
  note r = read_field [OF d _ assms(3), simplified]
  have u: "read_u32_le d pos = Some (length v, pos + 4)"
    using r False len by (simp add: read_u32_le_def)
  have d2: "drop (pos + 4) d = take (j - 4) (v @ rest)" and p2: "pos + 4 \<le> length d"
    using r False by simp_all
  show ?thesis
  proof (cases "j - 4 < length v")
    case True
    with torn_field [OF d2 _ p2] u False show ?thesis by (simp add: replay_value_def)
  next
    case ge: False
    with read_field [OF d2 _ p2] u False show ?thesis by (simp add: replay_value_def add.assoc)
  qed
qed

lemma read_i64_take:
  assumes "drop pos d = take j (le_i64 z @ rest)" and "in_i64 z" and "pos \<le> length d"
  shows "read_i64_le d pos = (if j < 8 then None else Some (z, pos + 8))"
proof (cases "j < 8")
  case True
  with torn_field [OF assms(1) _ assms(3)] show ?thesis by (simp add: read_i64_le_def)
next
  case False
  with read_field [OF assms(1) _ assms(3)] assms(2) show ?thesis
    by (simp add: read_i64_le_def from_le_i64_le_i64)
qed

lemma read_u64_take:
  assumes "drop pos d = take j (le_bytes 8 n @ rest)" and "n < 2 ^ 64" and "pos \<le> length d"
  shows "read_u64_le d pos = (if j < 8 then None else Some (n, pos + 8))"
proof (cases "j < 8")
  case True
  with torn_field [OF assms(1) _ assms(3)] show ?thesis by (simp add: read_u64_le_def)
next
  case False
  with read_field [OF assms(1) _ assms(3)] assms(2) show ?thesis
    by (simp add: read_u64_le_def from_le_le_bytes)
qed

section \<open>Replaying one entry\<close>

text \<open>
  The commands whose log entry determines them: UTF-8 keys below 64 KiB, values below
  4 GiB, a time to live of at least one and of whole milliseconds, at most 65535 pairs.
\<close>

fun loggable :: "command \<Rightarrow> bool" where
  "loggable (CSet k v None) = (log_key k \<and> log_value v)"
| "loggable (CSet k v (Some ttl)) =
     (log_key k \<and> log_value v \<and> ttl = from_millis (as_millis ttl) \<and> 0 < as_millis ttl \<and> as_millis ttl < 2 ^ 63)"
| "loggable (CDel k) = log_key k"
| "loggable (CIncr k) = log_key k"
| "loggable (CExpire k n) = (log_key k \<and> n < 2 ^ 64)"
| "loggable CFlushDb = True"
| "loggable (CMset ps) = (length ps < 2 ^ 16 \<and> list_all (\<lambda>(k, v). log_key k \<and> log_value v) ps)"
| "loggable _ = False"

definition log_entry :: "command \<Rightarrow> bytes" where
  "log_entry c = (case to_aof_entry c of Some e \<Rightarrow> e | None \<Rightarrow> [])"

fun is_mset :: "command \<Rightarrow> bool" where
  "is_mset (CMset ps) = True"
| "is_mset _ = False"

text \<open>The state after a command, executed by the dispatcher.\<close>

definition execute :: "'s kv_engine \<Rightarrow> clock \<Rightarrow> command \<Rightarrow> 's \<Rightarrow> 's outcome" where
  "execute K clk c s = omap snd (dispatch K 0 clk (metrics_init 0) c s)"

lemma ttl_millis_some:
  "as_millis ttl < 2 ^ 63 \<Longrightarrow> ttl_millis (Some ttl) = int (as_millis ttl)"
  by (simp add: ttl_millis_def in_i64_int)

lemma in_i64_ttl_millis [simp]: "in_i64 (ttl_millis ttl)"
proof (cases ttl)
  case None
  then show ?thesis by (simp add: ttl_millis_def in_i64_def)
next
  case (Some d)
  then show ?thesis by (simp only: ttl_millis_def option.case in_i64_wrap)
qed

lemma replay_entry_of_set:
  "loggable (CSet k v ttl) \<Longrightarrow> replay_entry_of clk v (ttl_millis ttl) = set_entry clk v ttl"
proof (cases ttl)
  case None
  then show ?thesis
    by (simp add: replay_entry_of_def set_entry_def ttl_millis_def value_entry_new_def)
next
  case (Some d)
  assume "loggable (CSet k v ttl)"
  with Some have "from_millis (as_millis d) = d" "0 < as_millis d" "as_millis d < 2 ^ 63" by auto
  with Some show ?thesis
    by (simp add: replay_entry_of_def set_entry_def ttl_millis_some value_entry_with_ttl_def)
qed

lemma loggable_set_fields: "loggable (CSet k v ttl) \<Longrightarrow> log_key k \<and> log_value v"
  by (cases ttl) auto

lemma omap_omap: "omap f (omap g m) = omap (f \<circ> g) m"
  by (cases m) auto

lemma replay_set_take:
  assumes "drop pos d = take j ((aof_key_bytes k @ aof_value_bytes v @ le_i64 (ttl_millis ttl)) @ rest)"
    and "loggable (CSet k v ttl)" and "pos \<le> length d"
  shows "replay_set K clk d pos s =
    (let n = length (aof_key_bytes k @ aof_value_bytes v @ le_i64 (ttl_millis ttl)) in
     if j < n then Ret None else omap (\<lambda>s'. Some (pos + n, s')) (execute K clk (CSet k v ttl) s))"
proof -
  let ?k = "length (aof_key_bytes k)" and ?v = "length (aof_value_bytes v)"
  have f: "log_key k" "log_value v" using loggable_set_fields [OF assms(2)] by simp_all
  note key = replay_key_take [of pos d j k "aof_value_bytes v @ le_i64 (ttl_millis ttl) @ rest"]
  show ?thesis
  proof (cases "j < ?k")
    case True
    with key assms(1,3) f show ?thesis by (auto simp: replay_set_def)
  next
    case False
    then have k: "replay_key d pos = Inr (k, pos + ?k)" "pos + ?k \<le> length d"
      "drop (pos + ?k) d = take (j - ?k) (aof_value_bytes v @ le_i64 (ttl_millis ttl) @ rest)"
      using key assms(1,3) f by auto
    show ?thesis
    proof (cases "j - ?k < ?v")
      case True
      with replay_value_take [OF k(3) f(2) k(2)] k(1) show ?thesis
        by (auto simp: replay_set_def Let_def)
    next
      case ge: False
      then have v: "replay_value d (pos + ?k) = Inr (v, pos + ?k + ?v)" "pos + ?k + ?v \<le> length d"
        "drop (pos + ?k + ?v) d = take (j - ?k - ?v) (le_i64 (ttl_millis ttl) @ rest)"
        using replay_value_take [OF k(3) f(2) k(2)] by auto
      have t: "read_i64_le d (pos + ?k + ?v) =
          (if j - ?k - ?v < 8 then None else Some (ttl_millis ttl, pos + ?k + ?v + 8))"
        using read_i64_take [OF v(3) _ v(2)] by simp
      have ex: "omap (\<lambda>s'. Some (p, s')) (execute K clk (CSet k v ttl) s) =
          obind (set_entry clk v ttl) (\<lambda>entry. Ret (Some (p, snd (kv_set K (later 2 clk) s k entry))))" for p
        by (auto simp: execute_def omap_omap omap_obind split: prod.splits sum.splits intro!: obind_cong)
      show ?thesis
        using False ge k(1) v(1) t replay_entry_of_set [OF assms(2)]
        by (auto simp: replay_set_def Let_def ex [symmetric] ac_simps)
    qed
  qed
qed

lemma replay_del_take:
  assumes "drop pos d = take j (aof_key_bytes k @ rest)" and "log_key k" and "pos \<le> length d"
  shows "replay_del K clk d pos s =
    (if j < length (aof_key_bytes k) then Ret None
     else omap (\<lambda>s'. Some (pos + length (aof_key_bytes k), s')) (execute K clk (CDel k) s))"
  using replay_key_take [OF assms]
  by (cases "j < length (aof_key_bytes k)")
    (auto simp: replay_del_def execute_def omap_omap split: prod.splits sum.splits)

lemma replay_incr_take:
  assumes "drop pos d = take j (aof_key_bytes k @ rest)" and "log_key k" and "pos \<le> length d"
  shows "replay_incr K clk d pos s =
    (if j < length (aof_key_bytes k) then Ret None
     else omap (\<lambda>s'. Some (pos + length (aof_key_bytes k), s')) (execute K clk (CIncr k) s))"
  using replay_key_take [OF assms]
  by (cases "j < length (aof_key_bytes k)")
    (auto simp: replay_incr_def execute_def omap_omap omap_obind split: prod.splits sum.splits
      intro!: obind_cong)

lemma replay_expire_take:
  assumes "drop pos d = take j ((aof_key_bytes k @ le_bytes 8 n) @ rest)" and "loggable (CExpire k n)"
    and "pos \<le> length d"
  shows "replay_expire K clk d pos s =
    (let l = length (aof_key_bytes k @ le_bytes 8 n) in
     if j < l then Ret None else omap (\<lambda>s'. Some (pos + l, s')) (execute K clk (CExpire k n) s))"
proof -
  let ?k = "length (aof_key_bytes k)"
  have f: "log_key k" "n < 2 ^ 64" using assms(2) by simp_all
  note key = replay_key_take [of pos d j k "le_bytes 8 n @ rest"]
  show ?thesis
  proof (cases "j < ?k")
    case True
    with key assms(1,3) f show ?thesis by (auto simp: replay_expire_def)
  next
    case False
    then have k: "replay_key d pos = Inr (k, pos + ?k)" "pos + ?k \<le> length d"
      "drop (pos + ?k) d = take (j - ?k) (le_bytes 8 n @ rest)"
      using key assms(1,3) f by auto
    with False read_u64_take [OF k(3) f(2) k(2)] show ?thesis
      by (auto simp: replay_expire_def Let_def execute_def omap_omap omap_obind intro!: obind_cong)
  qed
qed

lemma replay_key_full:
  assumes "drop pos d = aof_key_bytes k @ rest" and "log_key k" and "pos \<le> length d"
  shows "replay_key d pos = Inr (k, pos + length (aof_key_bytes k))"
    and "drop (pos + length (aof_key_bytes k)) d = rest"
    and "pos + length (aof_key_bytes k) \<le> length d"
  using replay_key_take [of pos d "length (aof_key_bytes k @ rest)" k rest] assms by simp_all

lemma replay_value_full:
  assumes "drop pos d = aof_value_bytes v @ rest" and "log_value v" and "pos \<le> length d"
  shows "replay_value d pos = Inr (v, pos + length (aof_value_bytes v))"
    and "drop (pos + length (aof_value_bytes v)) d = rest"
    and "pos + length (aof_value_bytes v) \<le> length d"
  using replay_value_take [of pos d "length (aof_value_bytes v @ rest)" v rest] assms by simp_all

lemma log_key_str [simp]: "log_key k \<Longrightarrow> key_str k = k"
  by (simp add: log_key_def)

lemma replay_pairs_full:
  assumes "drop pos d = concat (map aof_pair_bytes ps) @ rest" and "pos \<le> length d"
    and "list_all (\<lambda>(k, v). log_key k \<and> log_value v) ps"
  shows "replay_pairs K clk d (length ps) pos s =
    (pos + length (concat (map aof_pair_bytes ps)), mset_borrowed_loop K clk ps s)"
  using assms
proof (induction ps arbitrary: clk pos s)
  case (Cons p ps)
  obtain k v where p: "p = (k, v)" by (cases p)
  let ?k = "length (aof_key_bytes k)" and ?v = "length (aof_value_bytes v)"
  let ?tl = "concat (map aof_pair_bytes ps) @ rest"
  have f: "log_key k" "log_value v" using Cons.prems(3) p by simp_all
  have d: "drop pos d = aof_key_bytes k @ aof_value_bytes v @ ?tl"
    using Cons.prems(1) p by (simp add: aof_pair_bytes_pair)
  note k = replay_key_full [OF d f(1) Cons.prems(2)]
  note v = replay_value_full [OF k(2) f(2) k(3)]
  from Cons.IH [OF v(2,3), of "later 2 clk"] Cons.prems(3) k(1) v(1) f p show ?case
    by (simp add: aof_pair_bytes_pair del: later_apply)
qed simp

context kv_engine_spec
begin

text \<open>On an engine that accepts every SET, MSET does not depend on error handling.\<close>

lemma mset_loop_eq_borrowed:
  assumes "ok s" and "list_all (\<lambda>(k, v). log_key k \<and> log_value v) ps"
  shows "snd (mset_loop K clk ps s) = mset_borrowed_loop K clk ps s"
  using assms
proof (induction ps arbitrary: s clk)
  case (Cons p ps)
  obtain k v where p: "p = (k, v)" by (cases p)
  obtain s1 where s1: "kv_set K (later 1 clk) s k (value_entry_new clk v) = (Inr (), s1)" "ok s1"
    using set_law [OF Cons.prems(1), of "later 1 clk" k "value_entry_new clk v"] by blast
  with Cons.IH [OF s1(2), of "later 2 clk"] Cons.prems(2) p show ?case
    by (simp del: later_apply)
qed simp

lemma execute_mset:
  assumes "ok s" and "loggable (CMset ps)"
  shows "execute K clk (CMset ps) s = Ret (mset_borrowed_loop K clk ps s)"
  using mset_loop_eq_borrowed [OF assms(1), of ps clk] assms(2)
  by (auto simp: execute_def split: prod.splits sum.splits)

lemma replay_mset_full:
  assumes "drop pos d = (le_bytes 2 (as_u16 (length ps)) @ concat (map aof_pair_bytes ps)) @ rest"
    and "ok s" and "loggable (CMset ps)" and "pos \<le> length d"
  shows "replay_mset K clk d pos s =
    omap (\<lambda>s'. Some (pos + length (le_bytes 2 (as_u16 (length ps)) @ concat (map aof_pair_bytes ps)), s'))
      (execute K clk (CMset ps) s)"
proof -
  let ?l = "le_bytes 2 (as_u16 (length ps))" and ?b = "concat (map aof_pair_bytes ps)"
  have d: "drop pos d = take (length (?l @ ?b @ rest)) (?l @ ?b @ rest)" using assms(1) by simp
  note r = read_field [OF d _ assms(4)]
  have u: "read_u16_le d pos = Some (length ps, pos + 2)"
    using r assms(3) by (simp add: read_u16_le_def from_le_le_bytes as_u16_def)
  have "drop (pos + 2) d = ?b @ rest" and "pos + 2 \<le> length d" using r by simp_all
  from replay_pairs_full [OF this] assms(3) u show ?thesis
    by (simp add: replay_mset_def execute_mset [OF assms(2,3)] add.assoc)
qed

text \<open>
  One entry at position \<open>pos\<close>, of which the file holds \<open>j\<close> bytes: nothing happens when it
  is torn, otherwise the command is executed.
\<close>

lemma replay_entry_take:
  assumes "drop pos d = take j (log_entry c @ rest)" and "loggable c" and "ok s" and "pos < length d"
    and "is_mset c \<Longrightarrow> length (log_entry c) \<le> j"
  shows "replay_entry K clk d pos s =
    (if j < length (log_entry c) then Ret None
     else omap (\<lambda>s'. Some (pos + length (log_entry c), s')) (execute K clk c s))"
proof -
  have "length (take j (log_entry c @ rest)) = length d - pos" using assms(1) by (metis length_drop)
  with assms(4) obtain i where j: "j = Suc i" by (cases j) auto
  define b where "b = tl (log_entry c)"
  obtain t where t: "log_entry c = t # b"
    using assms(2) by (cases c rule: loggable.cases) (auto simp: log_entry_def b_def)
  have "d ! pos = hd (drop pos d)" using assms(4) by (simp add: hd_drop_conv_nth)
  then have hd: "d ! pos = t" using assms(1) j t by simp
  have tl: "drop (pos + 1) d = take i (b @ rest)"
    using arg_cong [OF assms(1), of tl] j t by (simp add: drop_Suc tl_drop)
  have le: "pos + 1 \<le> length d" using assms(4) by simp
  show ?thesis
  proof (cases c)
    case (CSet k v ttl)
    then have tb: "t = CHR 0x01" "b = aof_key_bytes k @ aof_value_bytes v @ le_i64 (ttl_millis ttl)"
      using t by (simp_all add: log_entry_def)
    from replay_set_take [OF tl [unfolded tb(2)] _ le, where K = K and clk = clk and s = s] CSet assms(2)
    show ?thesis
      by (simp add: replay_entry_def hd tb(1) j Let_def log_entry_def ac_simps)
  next
    case (CDel k)
    then have tb: "t = CHR 0x02" "b = aof_key_bytes k" using t by (simp_all add: log_entry_def)
    from replay_del_take [OF tl [unfolded tb(2)] _ le, where K = K and clk = clk and s = s] CDel assms(2)
    show ?thesis
      by (simp add: replay_entry_def hd tb(1) j log_entry_def)
  next
    case (CIncr k)
    then have tb: "t = CHR 0x03" "b = aof_key_bytes k" using t by (simp_all add: log_entry_def)
    from replay_incr_take [OF tl [unfolded tb(2)] _ le, where K = K and clk = clk and s = s] CIncr assms(2)
    show ?thesis
      by (simp add: replay_entry_def hd tb(1) j log_entry_def)
  next
    case (CExpire k n)
    then have tb: "t = CHR 0x04" "b = aof_key_bytes k @ le_bytes 8 n" using t by (simp_all add: log_entry_def)
    from replay_expire_take [OF tl [unfolded tb(2)] _ le, where K = K and clk = clk and s = s] CExpire assms(2)
    show ?thesis
      by (simp add: replay_entry_def hd tb(1) j Let_def log_entry_def ac_simps)
  next
    case CFlushDb
    then have tb: "t = CHR 0x05" "b = []" using t by (simp_all add: log_entry_def)
    then show ?thesis using CFlushDb by (simp add: replay_entry_def hd j execute_def log_entry_def)
  next
    case (CMset ps)
    let ?b = "le_bytes 2 (as_u16 (length ps)) @ concat (map aof_pair_bytes ps)"
    have tb: "t = CHR 0x06" "b = ?b" using t CMset by (simp_all add: log_entry_def)
    have "length b \<le> i" using assms(5) CMset t j by simp
    then have "drop (pos + 1) d = ?b @ take (i - length b) rest" using tl tb(2) by simp
    from replay_mset_full [OF this assms(3) _ le, where clk = clk] CMset assms(2) \<open>length b \<le> i\<close>
    show ?thesis
      by (simp add: replay_entry_def hd tb j log_entry_def)
  qed (use assms(2) in auto)
qed

end

section \<open>Replaying a log\<close>

definition log_of :: "command list \<Rightarrow> bytes" where
  "log_of cs = concat (map log_entry cs)"

text \<open>The commands executed one after the other; \<open>clks n\<close> is the clock of the \<open>n\<close>-th.\<close>

fun execute_all :: "'s kv_engine \<Rightarrow> (nat \<Rightarrow> clock) \<Rightarrow> nat \<Rightarrow> command list \<Rightarrow> 's \<Rightarrow> 's outcome" where
  "execute_all K clks n [] s = Ret s"
| "execute_all K clks n (c # cs) s = obind (execute K (clks n) c s) (\<lambda>s'. execute_all K clks (n + 1) cs s')"

lemma log_entry_not_Nil: "loggable c \<Longrightarrow> log_entry c \<noteq> []"
  by (cases c rule: loggable.cases) (auto simp: log_entry_def)

context kv_engine_spec
begin

lemma execute_keeps_ok:
  assumes "ok s" and "mono clk" and "loggable c" and "execute K clk c s = Ret s'"
  shows "ok s'"
proof (cases "in_time clk c")
  case True
  from dispatch_law [OF assms(1,2) True, of 0 "metrics_init 0"] assms(4) show ?thesis
    by (auto simp: execute_def)
next
  case False
  then consider k v d where "c = CSet k v (Some d)" "\<not> clk 0 + d \<le> instant_max"
    | k n where "c = CExpire k n" "\<not> clk 1 + from_secs n \<le> instant_max"
    by (cases "(clk, c)" rule: in_time.cases) auto
  then show ?thesis
  proof cases
    case 1
    with assms(4) show ?thesis
      by (simp add: execute_def set_entry_def value_entry_with_ttl_def instant_add_def)
  next
    case 2
    show ?thesis
    proof (cases "view s (clk 0) k")
      case None
      with 2 expire_missing_law [OF assms(1,2) None, of n] assms(4) show ?thesis
        by (auto simp: execute_def)
    next
      case (Some v)
      with 2 expire_overflow_law [where s = s and clk = clk and k = k and v = v and n = n] assms(1,4)
      show ?thesis by (auto simp: execute_def)
    qed
  qed
qed

lemma replay_loop_log:
  assumes "drop pos d = log_of cs @ take j (log_entry c)" and "pos \<le> length d"
    and "list_all loggable cs" and "loggable c" and "\<not> is_mset c" and "j < length (log_entry c)"
    and "ok s" and "\<And>n. mono (clks n)"
  shows "replay_loop K clks d pos n s = omap (\<lambda>s'. (n + length cs, s')) (execute_all K clks n cs s)"
  using assms(1,2,3,7)
proof (induction cs arbitrary: pos n s)
  case Nil
  show ?case
  proof (cases "pos < length d")
    case True
    have "drop pos d = take j (log_entry c @ [])" using Nil.prems(1) by (simp add: log_of_def)
    from replay_entry_take [OF this assms(4) Nil.prems(4) True] assms(5,6) True show ?thesis
      by (subst replay_loop.simps) simp
  next
    case False
    then show ?thesis by (subst replay_loop.simps) simp
  qed
next
  case (Cons a cs)
  let ?rest = "log_of cs @ take j (log_entry c)"
  let ?m = "length (log_entry a)"
  have a: "loggable a" "list_all loggable cs" using Cons.prems(3) by simp_all
  have d: "drop pos d = log_entry a @ ?rest" using Cons.prems(1) by (simp add: log_of_def)
  have pos: "pos < length d"
    using drop_length_le [OF d] log_entry_not_Nil [OF a(1)] by (cases "log_entry a") auto
  have "drop pos d = take (length (log_entry a @ ?rest)) (log_entry a @ ?rest)"
    using d by (simp only: take_all order_refl)
  from replay_entry_take [OF this a(1) Cons.prems(4) pos]
  have e: "replay_entry K (clks n) d pos s = omap (\<lambda>s'. Some (pos + ?m, s')) (execute K (clks n) a s)"
    by simp
  have next_entry: "drop (pos + ?m) d = ?rest" using d by (rule drop_add_append)
  have le: "pos + ?m \<le> length d" using drop_length_le [OF d] pos by simp
  show ?case
  proof (cases "execute K (clks n) a s")
    case (Ret s')
    have "ok s'" using execute_keeps_ok [OF Cons.prems(4) assms(8) a(1) Ret] .
    from Cons.IH [OF next_entry le a(2) this, of "n + 1"] Ret e pos show ?thesis
      by (subst replay_loop.simps) simp
  qed (use e pos in \<open>simp_all add: replay_loop.simps [of K clks d pos]\<close>)
qed

end

lemma replay_aof_log:
  assumes "zet_engine D X" and "max_keys e = 0" and "\<And>n. mono (clks n)"
    and "list_all loggable cs" and "loggable c" and "\<not> is_mset c" and "j < length (log_entry c)"
  shows "replay_aof (dashmap_engine X D) clks (Contents (log_of cs @ take j (log_entry c))) e =
           omap (\<lambda>e'. (Some (length cs), e')) (execute_all (dashmap_engine X D) clks 0 cs e)"
  using kv_engine_spec.replay_loop_log [OF zet_engine.contract [OF assms(1)], where pos = 0 and n = 0
      and d = "log_of cs @ take j (log_entry c)" and cs = cs and j = j and c = c and s = e and clks = clks]
    assms
  by (simp add: replay_aof_def omap_omap comp_def split_def)


definition demo_log :: "command list" where
  "demo_log = [CSet ''a'' ''7'' None, CIncr ''a'', CMset [(''b'', ''x'')]]"


end
