(* ===== verification/Snapshot.thy ===== *)
theory Snapshot
  imports Aof_Props
begin

text \<open>
  Snapshots (\<open>src/src/storage/snapshot.rs\<close>): the file format with its header and CRC-32, the
  dump and the load. The file is read whole; a memory-mapped file and a read one are the
  same bytes. \<open>clks n\<close> are the clock readings taken for the \<open>n\<close>-th entry.
\<close>

section \<open>Readers\<close>

definition snapshot_read_u16_le :: "bytes \<Rightarrow> nat \<Rightarrow> (nat \<times> nat) option" where
  "snapshot_read_u16_le d pos =
     (if pos + 2 \<le> length d then Some (from_le (subslice pos (pos + 2) d), pos + 2) else None)"

definition snapshot_read_u32_le :: "bytes \<Rightarrow> nat \<Rightarrow> (nat \<times> nat) option" where
  "snapshot_read_u32_le d pos =
     (if pos + 4 \<le> length d then Some (from_le (subslice pos (pos + 4) d), pos + 4) else None)"

definition snapshot_read_i64_le :: "bytes \<Rightarrow> nat \<Rightarrow> (int \<times> nat) option" where
  "snapshot_read_i64_le d pos =
     (if pos + 8 \<le> length d then Some (from_le_i64 (subslice pos (pos + 8) d), pos + 8) else None)"

section \<open>Dump\<close>

definition magic :: bytes where
  "magic = ''ZDB1''"

definition version_byte :: byte where
  "version_byte = CHR 0x01"

definition header_size :: nat where
  "header_size = 4 + 1 + 1 + 4 + 8"

definition crc_size :: nat where
  "crc_size = 4"

fun snapshot_entries :: "bytes \<Rightarrow> (key \<times> bytes \<times> int) list \<Rightarrow> bytes" where
  "snapshot_entries buf [] = buf"
| "snapshot_entries buf ((key, val, ttl_ms) # es) =
     snapshot_entries
       (buf @ le_bytes 2 (as_u16 (length key)) @ key @ le_bytes 4 (as_u32 (length val)) @ val @ le_i64 ttl_ms) es"

text \<open>The bytes of the file; \<open>timestamp\<close> are the milliseconds since the epoch.\<close>

definition snapshot_payload :: "nat \<Rightarrow> (key \<times> bytes \<times> int) list \<Rightarrow> bytes" where
  "snapshot_payload timestamp es =
     (let buf = magic @ [version_byte] @ [CHR 0x00] @ le_bytes 4 0 @ le_bytes 8 timestamp;
          buf = snapshot_entries buf es
      in take 6 buf @ le_bytes 4 (as_u32 (length es)) @ drop 10 buf)"

definition snapshot_bytes :: "crates \<Rightarrow> nat \<Rightarrow> (key \<times> bytes \<times> int) list \<Rightarrow> bytes" where
  "snapshot_bytes X timestamp es =
     (let buf = snapshot_payload timestamp es in buf @ le_bytes 4 (crc32 X buf))"

text \<open>
  \<open>dump_snapshot\<close>: the result and the file at the path afterwards. The I/O calls are the
  creation, the write and the sync of the temporary file and its renaming.
\<close>

definition dump_snapshot ::
    "crates \<Rightarrow> 'm entries \<Rightarrow> instant \<Rightarrow> nat \<Rightarrow> disk \<Rightarrow> 'm engine \<Rightarrow> bytes io_read \<Rightarrow>
       nat option \<times> bytes io_read" where
  "dump_snapshot X D now timestamp disk e old =
     (let es = dump_entries D now e; buf = snapshot_bytes X timestamp es
      in if disk 0 = None \<and> disk 1 = None \<and> disk 2 = None \<and> disk 3 = None
         then (Some (length es), Contents buf)
         else (None, old))"

section \<open>Load\<close>

datatype snapshot_error =
    Io_Error
  | Too_Short
  | Invalid_Magic
  | Unsupported_Version byte
  | Truncated_Read
  | Crc_Mismatch

text \<open>The fields of an entry, inside the payload; \<open>None\<close> ends the loop.\<close>

definition load_key :: "bytes \<Rightarrow> nat \<Rightarrow> nat \<Rightarrow> (key \<times> nat) option" where
  "load_key d payload_end pos =
     (if pos + 2 > payload_end then None
      else case snapshot_read_u16_le d pos of
        None \<Rightarrow> None
      | Some (key_len, pos) \<Rightarrow>
          if pos + key_len > payload_end then None
          else Some (from_utf8_lossy (subslice pos (pos + key_len) d), pos + key_len))"

definition load_value :: "bytes \<Rightarrow> nat \<Rightarrow> nat \<Rightarrow> (bytes \<times> nat) option" where
  "load_value d payload_end pos =
     (if pos + 4 > payload_end then None
      else case snapshot_read_u32_le d pos of
        None \<Rightarrow> None
      | Some (val_len, pos) \<Rightarrow>
          if pos + val_len > payload_end then None
          else Some (subslice pos (pos + val_len) d, pos + val_len))"

definition load_ttl :: "bytes \<Rightarrow> nat \<Rightarrow> nat \<Rightarrow> (int \<times> nat) option" where
  "load_ttl d payload_end pos =
     (if pos + 8 > payload_end then None else snapshot_read_i64_le d pos)"

definition load_entry_of :: "clock \<Rightarrow> bytes \<Rightarrow> int \<Rightarrow> value_entry outcome" where
  "load_entry_of clk val ttl_ms =
     (if ttl_ms > 0 then
        obind (instant_add (clk 0) (from_millis (nat ttl_ms)))
          (\<lambda>e. Ret \<lparr>data = val, expires_at = Some e, created_at = Some (clk 1)\<rparr>)
      else Ret \<lparr>data = val, expires_at = None, created_at = Some (clk 0)\<rparr>)"

text \<open>The entry at \<open>pos\<close>: key, value, time to live and the position behind it.\<close>

definition load_fields :: "bytes \<Rightarrow> nat \<Rightarrow> nat \<Rightarrow> (key \<times> bytes \<times> int \<times> nat) option" where
  "load_fields d payload_end pos =
     (case load_key d payload_end pos of
        None \<Rightarrow> None
      | Some (key, pos1) \<Rightarrow>
          (case load_value d payload_end pos1 of
             None \<Rightarrow> None
           | Some (val, pos2) \<Rightarrow>
               (case load_ttl d payload_end pos2 of
                  None \<Rightarrow> None
                | Some (ttl_ms, pos3) \<Rightarrow> Some (key, val, ttl_ms, pos3))))"

fun load_loop ::
    "'s kv_engine \<Rightarrow> (nat \<Rightarrow> clock) \<Rightarrow> bytes \<Rightarrow> nat \<Rightarrow> nat \<Rightarrow> nat \<Rightarrow> nat \<Rightarrow> nat \<Rightarrow> 's \<Rightarrow> (nat \<times> 's) outcome" where
  "load_loop K clks d payload_end 0 n pos loaded s = Ret (loaded, s)"
| "load_loop K clks d payload_end (Suc count) n pos loaded s =
     (case load_fields d payload_end pos of
        None \<Rightarrow> Ret (loaded, s)
      | Some (key, val, ttl_ms, pos') \<Rightarrow>
          obind (load_entry_of (clks n) val ttl_ms) (\<lambda>entry.
            case kv_set K (later 2 (clks n)) s key entry of
              (Inl e, s') \<Rightarrow> load_loop K clks d payload_end count (n + 1) pos' loaded s'
            | (Inr u, s') \<Rightarrow> load_loop K clks d payload_end count (n + 1) pos' (loaded + 1) s'))"

text \<open>The checks before the loop: the payload's end and the entry count.\<close>

definition check_snapshot :: "crates \<Rightarrow> bytes \<Rightarrow> snapshot_error + (nat \<times> nat)" where
  "check_snapshot X d =
     (if length d < header_size + crc_size then Inl Too_Short
      else if subslice 0 4 d \<noteq> magic then Inl Invalid_Magic
      else if d ! 4 \<noteq> version_byte then Inl (Unsupported_Version (d ! 4))
      else let payload_end = length d - crc_size in
        (case snapshot_read_u32_le d payload_end of
           None \<Rightarrow> Inl Truncated_Read
         | Some (stored_crc, _) \<Rightarrow>
             if stored_crc \<noteq> crc32 X (take payload_end d) then Inl Crc_Mismatch
             else case snapshot_read_u32_le d 6 of
               None \<Rightarrow> Inl Truncated_Read
             | Some (count, _) \<Rightarrow> Inr (payload_end, count)))"

definition load_snapshot ::
    "crates \<Rightarrow> 's kv_engine \<Rightarrow> (nat \<Rightarrow> clock) \<Rightarrow> bytes io_read \<Rightarrow> 's \<Rightarrow>
       ((snapshot_error + nat) \<times> 's) outcome" where
  "load_snapshot X K clks file s =
     (case file of
        Missing \<Rightarrow> Ret (Inr 0, s)
      | Unreadable \<Rightarrow> Ret (Inl Io_Error, s)
      | Contents d \<Rightarrow>
          (case check_snapshot X d of
             Inl err \<Rightarrow> Ret (Inl err, s)
           | Inr (payload_end, count) \<Rightarrow>
               omap (\<lambda>(loaded, s'). (Inr loaded, s'))
                 (load_loop K clks d payload_end count 0 header_size 0 s)))"

text \<open>One round of \<open>run_snapshotter\<close>.\<close>

definition snapshotter_tick ::
    "crates \<Rightarrow> 'm entries \<Rightarrow> instant \<Rightarrow> nat \<Rightarrow> disk \<Rightarrow> 'm engine \<Rightarrow> bytes io_read \<Rightarrow> bytes io_read" where
  "snapshotter_tick X D now timestamp disk e file = snd (dump_snapshot X D now timestamp disk e file)"

section \<open>Dumped entries as commands\<close>

text \<open>A dumped entry restores the key by a SET with the remaining time.\<close>

definition restore_command :: "key \<times> bytes \<times> int \<Rightarrow> command" where
  "restore_command t = (case t of (k, v, ms) \<Rightarrow> CSet k v (if 0 < ms then Some (from_millis (nat ms)) else None))"

definition dump_ok :: "key \<times> bytes \<times> int \<Rightarrow> bool" where
  "dump_ok t = (case t of (k, v, ms) \<Rightarrow> log_key k \<and> log_value v \<and> (ms = -1 \<or> 0 < ms \<and> ms < 2 ^ 63))"

lemma dump_ok_loggable: "dump_ok t \<Longrightarrow> loggable (restore_command t)"
  by (cases t) (auto simp: dump_ok_def restore_command_def nat_less_iff)

lemma restore_entry:
  assumes "dump_ok (k, v, ms)"
  shows "log_entry (restore_command (k, v, ms)) = CHR 0x01 # aof_key_bytes k @ aof_value_bytes v @ le_i64 ms"
  using assms ttl_millis_some [of "from_millis (nat ms)"]
  by (auto simp: dump_ok_def restore_command_def log_entry_def ttl_millis_def nat_less_iff in_i64_def)

lemma rewrite_entries_log:
  "list_all dump_ok es \<Longrightarrow> rewrite_entries buf es = buf @ log_of (map restore_command es)"
proof (induction es arbitrary: buf)
  case (Cons t es)
  obtain k v ms where t: "t = (k, v, ms)" by (cases t)
  with Cons restore_entry [of k v ms] show ?case
    by (simp add: log_of_def encode_key_def encode_value_def encode_ttl_def aof_key_bytes_def aof_value_bytes_def)
qed (simp add: log_of_def)

section \<open>Loading what was dumped\<close>

definition entry_bytes :: "key \<times> bytes \<times> int \<Rightarrow> bytes" where
  "entry_bytes t = (case t of (k, v, ms) \<Rightarrow> aof_key_bytes k @ aof_value_bytes v @ le_i64 ms)"

lemma snapshot_entries_append: "snapshot_entries buf es = buf @ concat (map entry_bytes es)"
  by (induction buf es rule: snapshot_entries.induct)
    (auto simp: entry_bytes_def aof_key_bytes_def aof_value_bytes_def)

lemma snapshot_payload_eq:
  "snapshot_payload ts es =
     magic @ [version_byte, CHR 0x00] @ le_bytes 4 (as_u32 (length es)) @ le_bytes 8 ts @ concat (map entry_bytes es)"
  by (simp add: snapshot_payload_def snapshot_entries_append magic_def Let_def)

text \<open>Inside the payload, the readers of the two file formats agree.\<close>

lemma load_key_eq:
  assumes "pe \<le> length d"
  shows "load_key d pe pos = (case replay_key (take pe d) pos of Inl p \<Rightarrow> None | Inr r \<Rightarrow> Some r)"
  using assms
  by (auto simp: load_key_def replay_key_def snapshot_read_u16_le_def read_u16_le_def subslice_def drop_take)

lemma load_value_eq:
  assumes "pe \<le> length d"
  shows "load_value d pe pos = (case replay_value (take pe d) pos of Inl p \<Rightarrow> None | Inr r \<Rightarrow> Some r)"
  using assms
  by (auto simp: load_value_def replay_value_def snapshot_read_u32_le_def read_u32_le_def subslice_def drop_take)

lemma load_ttl_eq: "pe \<le> length d \<Longrightarrow> load_ttl d pe pos = read_i64_le (take pe d) pos"
  by (auto simp: load_ttl_def snapshot_read_i64_le_def read_i64_le_def subslice_def drop_take)

lemma load_fields_entry:
  assumes "drop pos (take pe d) = entry_bytes t @ rest" and "dump_ok t" and "pos \<le> pe" and "pe \<le> length d"
  shows "\<exists>k v ms. t = (k, v, ms) \<and> load_fields d pe pos = Some (k, v, ms, pos + length (entry_bytes t))"
proof -
  obtain k v ms where t: "t = (k, v, ms)" by (cases t)
  let ?d = "take pe d"
  have f: "log_key k" "log_value v" "in_i64 ms" using assms(2) t by (auto simp: dump_ok_def in_i64_def)
  have d: "drop pos ?d = aof_key_bytes k @ aof_value_bytes v @ le_i64 ms @ rest"
    using assms(1) t by (simp add: entry_bytes_def)
  have le: "pos \<le> length ?d" using assms(3,4) by simp
  note kf = replay_key_full [OF d f(1) le]
  note vf = replay_value_full [OF kf(2) f(2) kf(3)]
  have "drop (pos + length (aof_key_bytes k) + length (aof_value_bytes v)) ?d =
      take (length (le_i64 ms @ rest)) (le_i64 ms @ rest)"
    using vf(2) by simp
  from read_i64_take [OF this f(3) vf(3)] have "read_i64_le ?d (pos + length (aof_key_bytes k) + length (aof_value_bytes v))
      = Some (ms, pos + length (aof_key_bytes k) + length (aof_value_bytes v) + 8)"
    by simp
  with kf(1) vf(1) t show ?thesis
    by (simp add: load_fields_def load_key_eq [OF assms(4)] load_value_eq [OF assms(4)]
        load_ttl_eq [OF assms(4)] entry_bytes_def)
qed

lemma load_entry_of_eq: "load_entry_of clk v ms = replay_entry_of clk v ms"
  by (simp add: load_entry_of_def replay_entry_of_def)

lemma load_entry_restore:
  assumes "dump_ok (k, v, ms)"
  shows "load_entry_of clk v ms = set_entry clk v (if 0 < ms then Some (from_millis (nat ms)) else None)"
  by (simp add: load_entry_of_def set_entry_def value_entry_with_ttl_def value_entry_new_def)

context kv_engine_spec
begin

lemma load_loop_entries:
  assumes "drop pos (take pe d) = concat (map entry_bytes es)" and "list_all dump_ok es"
    and "pos \<le> pe" and "pe \<le> length d" and "ok s"
  shows "load_loop K clks d pe (length es) n pos loaded s =
    omap (\<lambda>s'. (loaded + length es, s')) (execute_all K clks n (map restore_command es) s)"
  using assms(1,2,3,5)
proof (induction es arbitrary: n pos loaded s)
  case (Cons t es)
  have t: "dump_ok t" "list_all dump_ok es" using Cons.prems(2) by simp_all
  have d: "drop pos (take pe d) = entry_bytes t @ concat (map entry_bytes es)" using Cons.prems(1) by simp
  obtain k v ms where f: "t = (k, v, ms)" "load_fields d pe pos = Some (k, v, ms, pos + length (entry_bytes t))"
    using load_fields_entry [OF d t(1) Cons.prems(3) assms(4)] by blast
  let ?ttl = "if 0 < ms then Some (from_millis (nat ms)) else None"
  have next_pos: "drop (pos + length (entry_bytes t)) (take pe d) = concat (map entry_bytes es)"
    using d by (rule drop_add_append)
  have le: "pos + length (entry_bytes t) \<le> pe"
    using drop_length_le [OF d] Cons.prems(3) assms(4) by simp
  show ?case
  proof (cases "set_entry (clks n) v ?ttl")
    case (Ret entry)
    obtain s1 where s1: "kv_set K (later 2 (clks n)) s k entry = (Inr (), s1)" "ok s1"
      using set_law [OF Cons.prems(4), of "later 2 (clks n)" k entry] by blast
    have "execute K (clks n) (restore_command t) s = Ret s1"
      using Ret s1(1) f(1) by (simp add: execute_def restore_command_def)
    with Cons.IH [OF next_pos t(2) le s1(2), of "n + 1" "loaded + 1"] Ret s1(1) f t(1) show ?thesis
      by (simp add: load_entry_restore)
  qed (use f t(1) in \<open>simp_all add: load_entry_restore execute_def restore_command_def\<close>)
qed simp

end

section \<open>Acceptance of a snapshot\<close>

context crates_spec
begin

lemma check_snapshot_bytes:
  assumes "length es < 2 ^ 32"
  shows "check_snapshot X (snapshot_bytes X ts es) = Inr (length (snapshot_payload ts es), length es)"
proof -
  let ?p = "snapshot_payload ts es" and ?c = "le_bytes 4 (crc32 X (snapshot_payload ts es))"
  have b: "snapshot_bytes X ts es = ?p @ ?c" by (simp add: snapshot_bytes_def Let_def)
  have len: "18 \<le> length ?p" by (simp add: snapshot_payload_eq magic_def)
  have four: "4 \<le> length ?p" "4 < length ?p" using len by simp_all
  have m: "subslice 0 4 (?p @ ?c) = magic" and v: "(?p @ ?c) ! 4 = version_byte"
    and n: "subslice 6 10 (?p @ ?c) = le_bytes 4 (as_u32 (length es))"
    by (simp_all add: snapshot_payload_eq magic_def subslice_def)
  have crc: "from_le ?c = crc32 X ?p" using crc32_u32 [of ?p] by (simp add: from_le_le_bytes)
  have cnt: "from_le (le_bytes 4 (as_u32 (length es))) = length es"
    using assms by (simp add: from_le_le_bytes as_u32_def)
  have "snapshot_read_u32_le (?p @ ?c) (length ?p) = Some (crc32 X ?p, length ?p + 4)"
    using crc by (simp add: snapshot_read_u32_le_def subslice_def)
  moreover have "snapshot_read_u32_le (?p @ ?c) 6 = Some (length es, 10)"
    using n cnt len by (simp add: snapshot_read_u32_le_def)
  ultimately show ?thesis
    using len m v by (simp add: b check_snapshot_def header_size_def crc_size_def Let_def)
qed

end

lemma load_snapshot_bytes:
  assumes "zet_engine D X" and "max_keys e = 0" and "list_all dump_ok es" and "length es < 2 ^ 32"
  shows "load_snapshot X (dashmap_engine X D) clks (Contents (snapshot_bytes X ts es)) e =
           omap (\<lambda>e'. (Inr (length es), e'))
             (execute_all (dashmap_engine X D) clks 0 (map restore_command es) e)"
proof -
  let ?p = "snapshot_payload ts es"
  have X: "crates_spec X" using assms(1) by (simp add: zet_engine_def)
  have t: "take (length ?p) (snapshot_bytes X ts es) = ?p" by (simp add: snapshot_bytes_def Let_def)
  have "drop header_size (take (length ?p) (snapshot_bytes X ts es)) = concat (map entry_bytes es)"
    unfolding t by (simp add: snapshot_payload_eq header_size_def magic_def)
  moreover have "header_size \<le> length ?p" by (simp add: snapshot_payload_eq header_size_def magic_def)
  moreover have "length ?p \<le> length (snapshot_bytes X ts es)" by (simp add: snapshot_bytes_def Let_def)
  ultimately have "load_loop (dashmap_engine X D) clks (snapshot_bytes X ts es) (length ?p) (length es) 0 header_size 0 e =
      omap (\<lambda>s'. (0 + length es, s')) (execute_all (dashmap_engine X D) clks 0 (map restore_command es) e)"
    using kv_engine_spec.load_loop_entries [OF zet_engine.contract [OF assms(1)], where s = e and es = es
        and pos = header_size and pe = "length ?p" and d = "snapshot_bytes X ts es"] assms(2,3) by blast
  then show ?thesis
    using crates_spec.check_snapshot_bytes [OF X assms(4)]
    by (simp add: load_snapshot_def omap_omap comp_def split_def)
qed

text \<open>
  (C12) A snapshot restores what it dumped: loading the file that a dump of \<open>es\<close> wrote runs
  the SET of every dumped entry, with its remaining time to live, in order, and reports
  their number; checksum, version and count checks accept it.
\<close>

theorem snapshot_roundtrip:
  assumes "zet_engine D X" and "max_keys e = 0" and "list_all dump_ok es" and "length es < 2 ^ 32"
  shows "load_snapshot X (dashmap_engine X D) clks (Contents (snapshot_bytes X ts es)) e =
           omap (\<lambda>e'. (Inr (length es), e'))
             (execute_all (dashmap_engine X D) clks 0 (map restore_command es) e)"
  using assms by (rule load_snapshot_bytes)

definition demo_dump :: "(key \<times> bytes \<times> int) list" where
  "demo_dump = [(''a'', ''1'', -1), (''b'', [], 250)]"

lemma demo_dump_ok: "list_all dump_ok demo_dump"
proof -
  have "valid_utf8 ''a''" "valid_utf8 ''b''" by code_simp+
  then show ?thesis by (simp add: demo_dump_def dump_ok_def log_key_def log_value_def)
qed

theorem snapshot_roundtrip_witness:
  "load_snapshot reference_crates (dashmap_engine reference_crates alist_dashmap) (\<lambda>_ _. 5)
      (Contents (snapshot_bytes reference_crates 1000 demo_dump)) (demo_engine 0 []) =
   omap (\<lambda>e'. (Inr (length demo_dump), e')) (execute_all (dashmap_engine reference_crates alist_dashmap)
      (\<lambda>_ _. 5) 0 (map restore_command demo_dump) (demo_engine 0 []))"
  by (rule snapshot_roundtrip [OF reference_engine.zet_engine_axioms _ demo_dump_ok])
    (simp_all add: demo_dump_def demo_engine_def)

text \<open>
  A snapshot that fails a check changes nothing: whatever the file holds, an error
  result leaves the engine exactly as it was, and a file is accepted only if it has the
  length, the magic, the version and the CRC-32 of its payload.
\<close>

theorem load_snapshot_rejects_unchanged:
  "(case load_snapshot X K clks (Contents d) s of
      Ret (Inl err, s') \<Rightarrow> s' = s
    | _ \<Rightarrow> header_size + crc_size \<le> length d \<and> take 4 d = magic \<and> d ! 4 = version_byte \<and>
        from_le (drop (length d - crc_size) d) = crc32 X (take (length d - crc_size) d))"
proof (cases "check_snapshot X d")
  case (Inl err)
  then show ?thesis by (simp add: load_snapshot_def)
next
  case (Inr pc)
  then have "header_size + crc_size \<le> length d \<and> take 4 d = magic \<and> d ! 4 = version_byte \<and>
        from_le (drop (length d - crc_size) d) = crc32 X (take (length d - crc_size) d)"
    by (auto simp: check_snapshot_def Let_def snapshot_read_u32_le_def subslice_def crc_size_def
        header_size_def split: if_splits option.splits)
  moreover have "\<not> (\<exists>err s'. load_snapshot X K clks (Contents d) s = Ret (Inl err, s'))"
    using Inr by (auto simp: load_snapshot_def omap_def obind_eq_Ret_iff split: prod.splits)
  ultimately show ?thesis
    by (auto split: outcome.splits prod.splits sum.splits)
qed

section \<open>Loading never panics\<close>

text \<open>With clock readings in the first half of the range, no expiry time can overflow.\<close>

lemma load_entry_returns:
  assumes "clk 0 \<le> 2 ^ 62 * 10 ^ 9" and "ttl_ms < 2 ^ 63"
  shows "returns (load_entry_of clk v ttl_ms)"
proof -
  have "nat ttl_ms \<le> 2 ^ 63" using assms(2) by simp
  then have "clk 0 + from_millis (nat ttl_ms) \<le> instant_max"
    using assms(1) by (simp add: from_millis_def instant_max_def)
  then show ?thesis by (simp add: load_entry_of_def instant_add_def)
qed

lemma load_fields_ttl: "load_fields d pe pos = Some (k, v, ms, p) \<Longrightarrow> ms < 2 ^ 63"
  using from_le_i64_range
  by (auto simp: load_fields_def load_ttl_def snapshot_read_i64_le_def in_i64_def
      split: option.splits if_splits)

lemma load_loop_returns:
  assumes "\<And>n. clks n 0 \<le> 2 ^ 62 * 10 ^ 9"
  shows "returns (load_loop K clks d pe count n pos loaded s)"
proof (induction count arbitrary: n pos loaded s)
  case (Suc count)
  show ?case
  proof (cases "load_fields d pe pos")
    case (Some f)
    obtain k v ms p where f: "f = (k, v, ms, p)" by (cases f)
    obtain entry where "load_entry_of (clks n) v ms = Ret entry"
      using load_entry_returns [where clk = "clks n" and ttl_ms = ms and v = v] assms [of n]
        load_fields_ttl [of d pe pos k v ms p] Some f by (auto simp: returns_iff)
    with Some f Suc show ?thesis by (auto split: prod.splits sum.splits)
  qed simp
qed simp

text \<open>
  Loading a snapshot file never crashes the server: for every byte string in the file,
  every engine state and every clock in the first half of its range, \<open>load_snapshot\<close>
  returns, with an error or with the number of entries it set.
\<close>

theorem load_snapshot_returns:
  assumes "\<And>n. clks n 0 \<le> 2 ^ 62 * 10 ^ 9"
  shows "returns (load_snapshot X K clks file s)"
proof -
  have "returns (omap (\<lambda>(l, s'). (Inr l, s')) (load_loop K clks d pe c 0 header_size 0 s))" for d pe c
    using load_loop_returns [of clks K d pe c 0 header_size 0 s] assms
    by (auto simp: returns_iff)
  then show ?thesis
    by (auto simp: load_snapshot_def split: io_read.splits sum.splits)
qed

theorem load_snapshot_returns_witness:
  "returns (load_snapshot reference_crates (dashmap_engine reference_crates alist_dashmap) (\<lambda>_ _. 5)
     (Contents (replicate 30 (CHR 0x00))) (demo_engine 0 []))"
  by (rule load_snapshot_returns) simp

end
