(* ===== verification/Recovery.thy ===== *)
theory Recovery
  imports Snapshot
begin

text \<open>
  From an engine to a file and back, for both kinds of files: what a dump writes, replayed
  or loaded into an empty engine, is the live data of the dumped engine, key by key, with
  the remaining times to live. The exception the code makes is stated too: an entry with
  less than a millisecond to live comes back without an expiry.
\<close>

section \<open>What a dump contains\<close>

lemma dump_scan_keys: "set (map fst (dump_scan now xs)) \<subseteq> set (map fst xs)"
  by (induction now xs rule: dump_scan.induct) auto

lemma distinct_dump_scan: "distinct (map fst xs) \<Longrightarrow> distinct (map fst (dump_scan now xs))"
proof (induction now xs rule: dump_scan.induct)
  case (2 now k v rest)
  then show ?case using dump_scan_keys [of now rest] by auto
qed simp

lemma map_of_dump_scan:
  "distinct (map fst xs) \<Longrightarrow> map_of (dump_scan now xs) k =
     (case map_of xs k of None \<Rightarrow> None
      | Some v \<Rightarrow> if is_expired_at v now then None else Some (data v, dump_remaining now v))"
proof (induction now xs rule: dump_scan.induct)
  case (2 now k' v rest)
  have "map_of (dump_scan now rest) k' = None" if "k' \<notin> fst ` set rest"
    using that dump_scan_keys [of now rest] by (auto simp: map_of_eq_None_iff)
  with 2 show ?case by (auto split: option.splits)
qed simp

context zet_engine
begin

lemma map_of_dump_entries:
  "map_of (dump_entries D now e) k = map_option (\<lambda>v. (data v, dump_remaining now v)) (live D e now k)"
proof -
  have d: "distinct (map fst (dm_iter D (emap e)))" by (rule iter_distinct)
  have m: "map_of (dm_iter D (emap e)) k = dm_get D (emap e) k"
    by (simp add: iter_get)
  show ?thesis
    unfolding dump_entries_def map_of_dump_scan [OF d] m
    by (auto simp: live_def live_at_def split: option.splits)
qed

lemma distinct_dump_entries: "distinct (map fst (dump_entries D now e))"
  unfolding dump_entries_def by (intro distinct_dump_scan iter_distinct)

end

section \<open>Restoring a dump\<close>

definition restore_ttl :: "int \<Rightarrow> duration option" where
  "restore_ttl ms = (if 0 < ms then Some (from_millis (nat ms)) else None)"

text \<open>The entry that the SET of a dumped entry stores, run with the clock \<open>clk\<close>.\<close>

definition restored :: "clock \<Rightarrow> bytes \<Rightarrow> int \<Rightarrow> value_entry \<Rightarrow> bool" where
  "restored clk v ms entry \<longleftrightarrow>
     data entry = v \<and>
     expires_at entry = (if 0 < ms then Some (clk 0 + from_millis (nat ms)) else None)"

lemma set_entry_restored:
  assumes "0 < ms \<longrightarrow> clk 0 + from_millis (nat ms) \<le> instant_max"
  obtains entry where "set_entry clk v (restore_ttl ms) = Ret entry" and "restored clk v ms entry"
  using assms that
  by (cases "0 < ms")
    (auto simp: set_entry_def restore_ttl_def restored_def value_entry_with_ttl_def instant_add_def)

definition times_fit :: "(nat \<Rightarrow> clock) \<Rightarrow> (key \<times> bytes \<times> int) list \<Rightarrow> bool" where
  "times_fit clks es \<longleftrightarrow> (\<forall>n. \<forall>(k, v, ms) \<in> set es. 0 < ms \<longrightarrow> clks n 0 + from_millis (nat ms) \<le> instant_max)"

context kv_engine_spec
begin

lemma execute_restore:
  assumes "ok s" and "0 < ms \<longrightarrow> clks n 0 + from_millis (nat ms) \<le> instant_max"
  obtains s' entry where "execute K (clks n) (restore_command (k, v, ms)) s = Ret s'" and "ok s'"
    and "restored (clks n) v ms entry" and "\<forall>t. view s' t = (view s t)(k := live_at entry t)"
proof -
  obtain entry where entry: "set_entry (clks n) v (restore_ttl ms) = Ret entry" "restored (clks n) v ms entry"
    using assms(2) by (rule set_entry_restored)
  obtain s' where "kv_set K (later 2 (clks n)) s k entry = (Inr (), s')" "ok s'"
      "\<forall>t. view s' t = (view s t)(k := live_at entry t)"
    using set_law [OF assms(1), of "later 2 (clks n)" k entry] by blast
  with entry show ?thesis
    by (intro that) (auto simp: execute_def restore_command_def restore_ttl_def)
qed

lemma execute_all_restore:
  assumes "ok s" and "times_fit clks es" and "distinct (map fst es)"
  shows "\<exists>s'. execute_all K clks n (map restore_command es) s = Ret s' \<and> ok s' \<and>
    (\<forall>k. case map_of es k of
       None \<Rightarrow> \<forall>t. view s' t k = view s t k
     | Some (v, ms) \<Rightarrow> \<exists>i entry. restored (clks i) v ms entry \<and> (\<forall>t. view s' t k = live_at entry t))"
  using assms
proof (induction es arbitrary: s n)
  case (Cons e es)
  obtain k v ms where e: "e = (k, v, ms)" by (cases e)
  have fit: "0 < ms \<longrightarrow> clks n 0 + from_millis (nat ms) \<le> instant_max" and fits: "times_fit clks es"
    using Cons.prems(2) e by (auto simp: times_fit_def)
  obtain s1 entry where s1: "execute K (clks n) (restore_command e) s = Ret s1" "ok s1"
      "restored (clks n) v ms entry" "\<forall>t. view s1 t = (view s t)(k := live_at entry t)"
    using execute_restore [where clks = clks and n = n and s = s and ms = ms and k = k and v = v]
      Cons.prems(1) fit e by metis
  obtain s2 where s2: "execute_all K clks (n + 1) (map restore_command es) s1 = Ret s2" "ok s2"
      "\<forall>k. case map_of es k of None \<Rightarrow> \<forall>t. view s2 t k = view s1 t k
         | Some (v, ms) \<Rightarrow> \<exists>i entry. restored (clks i) v ms entry \<and> (\<forall>t. view s2 t k = live_at entry t)"
    using Cons.IH [OF s1(2) fits, of "n + 1"] Cons.prems(3) by (simp only: list.map distinct.simps) blast
  have k: "map_of es k = None" using Cons.prems(3) e by (simp add: map_of_eq_None_iff)
  have "case map_of (e # es) k' of None \<Rightarrow> \<forall>t. view s2 t k' = view s t k'
      | Some (v, ms) \<Rightarrow> \<exists>i entry. restored (clks i) v ms entry \<and> (\<forall>t. view s2 t k' = live_at entry t)" for k'
  proof (cases "k' = k")
    case True
    have "\<forall>t. view s2 t k = live_at entry t" using spec [OF s2(3), of k] k s1(4) by simp
    with s1(3) True e show ?thesis by auto
  next
    case False
    with spec [OF s2(3), of k'] s1(4) e show ?thesis by (cases "map_of es k'") auto
  qed
  with s1(1) s2(1,2) show ?case by auto
qed simp

end

text \<open>
  What a restored entry should keep of the time that the dumped one had left: its whole
  milliseconds. An entry without expiry has none to keep, and neither has one with less than
  a millisecond left.
\<close>

definition kept_time :: "instant \<Rightarrow> value_entry \<Rightarrow> duration option" where
  "kept_time now v =
     (case expires_at v of
        None \<Rightarrow> None
      | Some x \<Rightarrow> if x - now < 1000000 then None else Some ((x - now) div 1000000 * 1000000))"

text \<open>
  The state of a dumped engine in a restored one: the same live keys, the same data, and
  expiry times that continue, from the clock reading of the restoring SET, the time kept.
\<close>

definition restores :: "'m entries \<Rightarrow> (nat \<Rightarrow> clock) \<Rightarrow> instant \<Rightarrow> 'm engine \<Rightarrow> 'm engine \<Rightarrow> bool" where
  "restores D clks now e e' \<longleftrightarrow>
     (\<forall>k. case live D e now k of
        None \<Rightarrow> \<forall>t. live D e' t k = None
      | Some v \<Rightarrow> \<exists>i entry. data entry = data v \<and>
          expires_at entry = map_option (\<lambda>d. clks i 0 + d) (kept_time now v) \<and>
          (\<forall>t. live D e' t k = live_at entry t))"

text \<open>
  The expiry times that survive: less than \<open>2 ^ 63\<close> milliseconds away, which an \<open>i64\<close>
  holds, and within the range of an instant when they are counted from the restart.
\<close>

definition expiries_fit :: "'m entries \<Rightarrow> (nat \<Rightarrow> clock) \<Rightarrow> instant \<Rightarrow> 'm engine \<Rightarrow> bool" where
  "expiries_fit D clks now e \<longleftrightarrow>
     (\<forall>k v x. live D e now k = Some v \<longrightarrow> expires_at v = Some x \<longrightarrow>
        x - now < 2 ^ 63 * 1000000 \<and> (\<forall>n. clks n 0 + (x - now) \<le> instant_max))"

lemma dump_remaining_kept:
  assumes "\<And>x. expires_at v = Some x \<Longrightarrow> x - now < 2 ^ 63 * 1000000"
  shows "restore_ttl (dump_remaining now v) = kept_time now v"
proof (cases "expires_at v")
  case (Some x)
  have "as_millis (x - now) < 2 ^ 63"
    using assms [OF Some] by (simp add: as_millis_def div_less_iff_less_mult)
  then have "wrap_i64 (int (as_millis (x - now))) = int (as_millis (x - now))"
    by (intro wrap_i64_id) (simp add: in_i64_def)
  with Some show ?thesis
    by (auto simp: dump_remaining_def restore_ttl_def kept_time_def as_millis_def from_millis_def Let_def
        div_greater_zero_iff)
qed (simp add: dump_remaining_def restore_ttl_def kept_time_def)

lemma restored_kept:
  assumes "restored clk d ms entry" and "restore_ttl ms = kept_time now v"
  shows "data entry = d \<and> expires_at entry = map_option (\<lambda>t. clk 0 + t) (kept_time now v)"
  unfolding assms(2) [symmetric] using assms(1) by (simp add: restored_def restore_ttl_def)

context zet_engine
begin

lemma live_new [simp]: "live D (engine_new D) t k = None"
  by (simp add: live_def engine_new_def)

lemma expiries_fit_times:
  assumes "expiries_fit D clks now e"
  shows "times_fit clks (dump_entries D now e)"
  unfolding times_fit_def
proof (intro allI ballI, clarify)
  fix n k d ms
  assume "(k, d, ms) \<in> set (dump_entries D now e)" and ms: "0 < ms"
  then have "map_of (dump_entries D now e) k = Some (d, ms)" by (simp add: distinct_dump_entries)
  then obtain v where v: "live D e now k = Some v" "ms = dump_remaining now v"
    by (auto simp: map_of_dump_entries)
  have fit: "x - now < 2 ^ 63 * 1000000 \<and> clks n 0 + (x - now) \<le> instant_max" if "expires_at v = Some x" for x
    using assms v(1) that by (simp add: expiries_fit_def)
  have "kept_time now v = Some (from_millis (nat ms))"
    using dump_remaining_kept [of v now] fit ms v(2) by (simp add: restore_ttl_def)
  then obtain x where "expires_at v = Some x" "from_millis (nat ms) = (x - now) div 1000000 * 1000000"
    by (auto simp: kept_time_def split: option.splits if_splits)
  with fit [of x] show "clks n 0 + from_millis (nat ms) \<le> instant_max"
    using div_times_less_eq_dividend [of "x - now" 1000000] by linarith
qed

lemma restore_dump:
  assumes "expiries_fit D clks now e"
  shows "\<exists>e'. execute_all (dashmap_engine X D) clks 0 (map restore_command (dump_entries D now e)) (engine_new D)
      = Ret e' \<and> restores D clks now e e'"
proof -
  have ok: "max_keys (engine_new D) = 0" by (simp add: engine_new_def)
  obtain e' where e': "execute_all (dashmap_engine X D) clks 0 (map restore_command (dump_entries D now e)) (engine_new D)
      = Ret e'"
    and v: "\<forall>k. case map_of (dump_entries D now e) k of
       None \<Rightarrow> \<forall>t. live D e' t k = live D (engine_new D) t k
     | Some (v, ms) \<Rightarrow> \<exists>i entry. restored (clks i) v ms entry \<and> (\<forall>t. live D e' t k = live_at entry t)"
    using kv.execute_all_restore [where s = "engine_new D" and es = "dump_entries D now e" and clks = clks and n = 0]
      ok expiries_fit_times [OF assms] distinct_dump_entries by blast
  have "case live D e now k of None \<Rightarrow> \<forall>t. live D e' t k = None
      | Some v \<Rightarrow> \<exists>i entry. data entry = data v \<and>
          expires_at entry = map_option (\<lambda>d. clks i 0 + d) (kept_time now v) \<and>
          (\<forall>t. live D e' t k = live_at entry t)" for k
  proof (cases "live D e now k")
    case (Some w)
    then obtain i entry where "restored (clks i) (data w) (dump_remaining now w) entry"
        "\<forall>t. live D e' t k = live_at entry t"
      using spec [OF v, of k] by (auto simp: map_of_dump_entries)
    moreover have "restore_ttl (dump_remaining now w) = kept_time now w"
      using assms Some by (intro dump_remaining_kept) (simp add: expiries_fit_def)
    ultimately show ?thesis using Some restored_kept by fastforce
  qed (use spec [OF v, of k] in \<open>simp add: map_of_dump_entries\<close>)
  then have "restores D clks now e e'" by (simp add: restores_def)
  with e' show ?thesis by blast
qed

end

lemma dumped_snapshot_restores:
  assumes "zet_engine D X" and "list_all dump_ok (dump_entries D now e)"
    and "length (dump_entries D now e) < 2 ^ 32" and "expiries_fit D clks now e"
  shows "\<exists>file n e'. dump_snapshot X D now ts (\<lambda>_. None) e old = (Some n, file) \<and>
           load_snapshot X (dashmap_engine X D) clks file (engine_new D) = Ret (Inr n, e') \<and>
           restores D clks now e e'"
proof -
  obtain e' where "execute_all (dashmap_engine X D) clks 0 (map restore_command (dump_entries D now e)) (engine_new D)
      = Ret e'" "restores D clks now e e'"
    using zet_engine.restore_dump [OF assms(1,4)] by blast
  moreover have "max_keys (engine_new D) = 0" by (simp add: engine_new_def)
  ultimately show ?thesis
    using load_snapshot_bytes [OF assms(1) _ assms(2,3), of "engine_new D" clks ts]
    by (simp add: dump_snapshot_def Let_def)
qed

text \<open>
  A snapshot is faithful: dumping an engine and loading the file into an empty engine
  restores exactly the live keys with their data, and every expiry time continues the time
  that remained at the dump, in whole milliseconds; an entry with less than one left comes
  back without an expiry.
\<close>

theorem snapshot_restores_live_data:
  assumes "zet_engine D X" and "list_all dump_ok (dump_entries D now e)"
    and "length (dump_entries D now e) < 2 ^ 32" and "expiries_fit D clks now e"
  shows "\<exists>file n e'. dump_snapshot X D now ts (\<lambda>_. None) e old = (Some n, file) \<and>
           load_snapshot X (dashmap_engine X D) clks file (engine_new D) = Ret (Inr n, e') \<and>
           restores D clks now e e'"
  using assms by (rule dumped_snapshot_restores)

definition demo_store :: "(key, value_entry) alist engine" where
  "demo_store = demo_engine 0 [(''a'', demo_entry ''1'' None 3), (''b'', demo_entry ''x'' (Some 4) 3),
    (''c'', demo_entry ''2'' (Some 3000006) 3)]"

lemma demo_store_dump: "dump_entries alist_dashmap 5 demo_store = [(''c'', ''2'', 3), (''a'', ''1'', -1)]"
proof -
  have "dm_iter alist_dashmap (emap demo_store) =
      [(''c'', demo_entry ''2'' (Some 3000006) 3), (''b'', demo_entry ''x'' (Some 4) 3), (''a'', demo_entry ''1'' None 3)]"
    by (simp add: demo_store_def demo_engine_def alist_dashmap_def DAList.update.rep_eq DAList.empty.rep_eq)
  then show ?thesis
    by (simp add: dump_entries_def demo_entry_def is_expired_at_def dump_remaining_def as_millis_def in_i64_def)
qed

lemma demo_store_ok:
  "list_all dump_ok (dump_entries alist_dashmap 5 demo_store)"
  "length (dump_entries alist_dashmap 5 demo_store) < 2 ^ 32"
  "expiries_fit alist_dashmap (\<lambda>_ _. 9) 5 demo_store"
proof -
  have "valid_utf8 ''a''" "valid_utf8 ''c''" by code_simp+
  then show "list_all dump_ok (dump_entries alist_dashmap 5 demo_store)"
    by (simp add: demo_store_dump dump_ok_def log_key_def log_value_def)
  show "expiries_fit alist_dashmap (\<lambda>_ _. 9) 5 demo_store"
    by (auto simp: expiries_fit_def live_def live_at_def demo_store_def demo_engine_def demo_entry_def alist_dashmap_def
        DAList.lookup_update is_expired_at_def instant_max_def split: bind_splits if_splits)
qed (simp add: demo_store_dump)

theorem snapshot_restores_live_data_witness:
  "\<exists>file n e'. dump_snapshot reference_crates alist_dashmap 5 1000 (\<lambda>_. None) demo_store Missing = (Some n, file) \<and>
     load_snapshot reference_crates (dashmap_engine reference_crates alist_dashmap) (\<lambda>_ _. 9) file
       (engine_new alist_dashmap) = Ret (Inr n, e') \<and>
     restores alist_dashmap (\<lambda>_ _. 9) 5 demo_store e'"
  by (rule snapshot_restores_live_data [OF reference_engine.zet_engine_axioms demo_store_ok])

text \<open>
  (C27) A rewritten append-only file is equivalent to the state it was made from: replaying
  the file that \<open>rewrite_aof\<close> wrote, in an empty engine, restores the live keys of the
  engine with their data, and counts them. An expiry less than \<open>2 ^ 63\<close> milliseconds away
  continues, from the SET that restores the key, for the whole milliseconds it had left; an
  entry with less than one millisecond left comes back without an expiry.
\<close>

theorem rewrite_aof_restores_live_data:
  assumes "zet_engine D X" and "list_all dump_ok (dump_entries D now e)"
    and "expiries_fit D clks now e" and "\<And>n. mono (clks n)"
  shows "\<exists>file n e'. rewrite_aof D now (\<lambda>_. None) e = Some (file, n) \<and>
           replay_aof (dashmap_engine X D) clks (Contents file) (engine_new D) = Ret (Some n, e') \<and>
           restores D clks now e e'"
proof -
  let ?es = "dump_entries D now e"
  obtain e' where "execute_all (dashmap_engine X D) clks 0 (map restore_command ?es) (engine_new D) = Ret e'"
    "restores D clks now e e'"
    using zet_engine.restore_dump [OF assms(1,3)] by blast
  moreover have "list_all loggable (map restore_command ?es)"
    using assms(2) by (auto simp: list_all_iff dump_ok_loggable)
  moreover have "max_keys (engine_new D) = 0" by (simp add: engine_new_def)
  ultimately show ?thesis
    using replay_aof_log [OF assms(1) _ assms(4), of "engine_new D" "map restore_command ?es" CFlushDb 0]
      rewrite_entries_log [OF assms(2), of "[]"]
    by (simp add: rewrite_aof_def Let_def log_entry_def)
qed

theorem rewrite_aof_restores_live_data_witness:
  "\<exists>file n e'. rewrite_aof alist_dashmap 5 (\<lambda>_. None) demo_store = Some (file, n) \<and>
     replay_aof (dashmap_engine reference_crates alist_dashmap) (\<lambda>_ _. 9) (Contents file)
       (engine_new alist_dashmap) = Ret (Some n, e') \<and>
     restores alist_dashmap (\<lambda>_ _. 9) 5 demo_store e'"
  by (rule rewrite_aof_restores_live_data [OF reference_engine.zet_engine_axioms demo_store_ok(1,3)])
    (simp add: mono_def)

section \<open>What is not kept\<close>

text \<open>
  An entry about to expire becomes permanent: with less than a millisecond to live at
  the dump, it is written as an entry without a time to live, so no restored entry for it
  ever expires.
\<close>

theorem dump_makes_expiring_entry_permanent:
  assumes "expires_at v = Some x" and "now < x" and "x - now < from_millis 1"
    and "restored clk (data v) (dump_remaining now v) entry"
  shows "\<not> is_expired_at v now \<and> (\<forall>t. \<not> is_expired_at entry t)"
proof -
  have "as_millis (x - now) = 0" using assms(3) by (simp add: as_millis_def from_millis_def)
  then have "dump_remaining now v = -1" using assms(1) by (simp add: dump_remaining_def in_i64_def)
  with assms show ?thesis by (simp add: restored_def is_expired_at_def)
qed

theorem dump_makes_expiring_entry_permanent_witness:
  "\<not> is_expired_at (demo_entry ''x'' (Some 1000) 3) 5 \<and> (\<forall>t. \<not> is_expired_at (demo_entry ''x'' None 9) t)"
proof (rule dump_makes_expiring_entry_permanent [where clk = "\<lambda>_. 9" and x = 1000])
  show "restored (\<lambda>_. 9) (data (demo_entry ''x'' (Some 1000) 3))
      (dump_remaining 5 (demo_entry ''x'' (Some 1000) 3)) (demo_entry ''x'' None 9)"
    by (simp add: restored_def demo_entry_def dump_remaining_def as_millis_def in_i64_def)
qed (simp_all add: demo_entry_def from_millis_def)

section \<open>The writer\<close>

lemma append_handle_attached: "detached w = None \<Longrightarrow> append_handle w bs = w\<lparr>on_path := on_path w @ bs\<rparr>"
  by (simp add: append_handle_def)

lemma write_batch_ok:
  assumes "detached w = None"
  shows "write_batch (\<lambda>_. None) i w = (True, w\<lparr>on_path := on_path w @ batch w, batch := []\<rparr>)"
  using assms by (simp add: write_batch_def write_all_def append_handle_attached)

lemma fsync_keeps_file:
  "\<exists>w'. fsync_by_policy clk (\<lambda>_. None) i w = (True, w') \<and> on_path w' = on_path w \<and>
     batch w' = batch w \<and> detached w' = detached w"
  by (cases "policy w") (auto simp: fsync_by_policy_def sync_all_def)

text \<open>The bytes a replay would see once the batch is written out.\<close>

definition logged_bytes :: "aof_writer \<Rightarrow> bytes" where
  "logged_bytes w = on_path w @ batch w"

text \<open>What an append adds to the log, and what it leaves in the batch.\<close>

lemma append_raw_logged:
  assumes "detached w = None" and "append_raw clk (\<lambda>_. None) entry w = (r, w')"
  shows "r \<and> detached w' = None \<and> logged_bytes w' =
      logged_bytes w @ entry @ (if aof_batch_size \<le> length (batch w @ entry) then entry else []) \<and>
    batch w' = (if aof_batch_size \<le> length (batch w @ entry) then [] else batch w @ entry)"
proof (cases "length (batch w @ entry) < aof_batch_size")
  case True
  with assms show ?thesis by (auto simp: append_raw_def logged_bytes_def)
next
  case False
  let ?w1 = "w\<lparr>batch := batch w @ entry\<rparr>"
  let ?w2 = "?w1\<lparr>on_path := on_path ?w1 @ batch ?w1, batch := []\<rparr>"
  have "append_raw clk (\<lambda>_. None) entry w =
      fsync_by_policy clk (\<lambda>_. None) 2 (?w2\<lparr>on_path := on_path ?w2 @ entry\<rparr>)"
    using False assms(1)
    by (simp add: append_raw_def flush_batch_def write_batch_ok write_all_def append_handle_attached)
  with fsync_keeps_file [of clk 2 "?w2\<lparr>on_path := on_path ?w2 @ entry\<rparr>"] assms False show ?thesis
    by (auto simp: logged_bytes_def)
qed

text \<open>
  (C35) A full batch logs its last entry twice: as long as the batch stays below 4096 bytes,
  an appended entry is logged once; the entry that fills it is written with the batch and
  then again by itself, whatever the fsync policy. A logged INCR is then replayed twice.
\<close>

theorem append_raw_duplicates_on_full_batch:
  assumes "detached w = None" and "append_raw clk (\<lambda>_. None) entry w = (r, w')"
  shows "r \<and> logged_bytes w' =
    logged_bytes w @ entry @ (if aof_batch_size \<le> length (batch w @ entry) then entry else [])"
  using append_raw_logged [OF assms] by blast

definition demo_writer :: "bytes \<Rightarrow> aof_writer" where
  "demo_writer b = \<lparr>on_path = [], detached = None, synced = [], policy = No, last_fsync = 0, batch = b\<rparr>"

theorem append_raw_duplicates_on_full_batch_witness:
  "logged_bytes (snd (append_raw (\<lambda>_. 0) (\<lambda>_. None) ''abc'' (demo_writer (replicate 4095 (CHR 0x05))))) =
     replicate 4095 (CHR 0x05) @ ''abcabc''"
  using append_raw_duplicates_on_full_batch [of "demo_writer (replicate 4095 (CHR 0x05))" "\<lambda>_. 0" "''abc''"]
  by (cases "append_raw (\<lambda>_. 0) (\<lambda>_. None) ''abc'' (demo_writer (replicate 4095 (CHR 0x05)))")
    (simp add: demo_writer_def logged_bytes_def aof_batch_size_def)

text \<open>
  (C36) A rewrite forgets what was logged after its dump: finishing it writes the pending
  batch to the file that the rename then replaces, so the file is the dump alone and every
  entry appended in between, on disk or in the batch, is lost.
\<close>

theorem finalize_rewrite_forgets_pending:
  assumes "detached w = None" and "finalize_rewrite (\<lambda>_. None) tmp w = (r, w')"
  shows "r \<and> logged_bytes w' = tmp"
  using assms by (auto simp: finalize_rewrite_def write_batch_ok logged_bytes_def Let_def)

theorem finalize_rewrite_forgets_pending_witness:
  "logged_bytes (snd (finalize_rewrite (\<lambda>_. None) [] (demo_writer (log_entry CFlushDb)))) = [] \<and>
   logged_bytes (demo_writer (log_entry CFlushDb)) \<noteq> []"
  using finalize_rewrite_forgets_pending [of "demo_writer (log_entry CFlushDb)" "[]"]
  by (cases "finalize_rewrite (\<lambda>_. None) [] (demo_writer (log_entry CFlushDb))")
    (simp add: demo_writer_def logged_bytes_def log_entry_def)

end
