(* ===== verification/Session.thy ===== *)
theory Session
  imports Recovery
begin

text \<open>
  One client connection (\<open>src/src/server/session.rs\<close>). A session appends what it reads to
  its buffer, handles the complete frames at the front of the buffer, and sends the replies
  it has collected. The model has one definition per loop body, for the RESP and the inline
  protocol and for the fast and the full path, one for a round of the outer loop, and the
  choice between the paths. What the calls of a session meet outside (results of reads and
  writes of the socket, clock readings, disk faults, the worker thread that runs the task)
  are arguments.
\<close>

section \<open>State\<close>

text \<open>
  The local variables of a session and the objects it shares: the engine, the metrics and
  the log writer. \<open>sent\<close> are the bytes that the socket has taken, \<open>served\<close> the number
  of commands handled so far; the \<open>n\<close>-th command takes its clock readings, disk and
  thread from position \<open>n\<close> of the surroundings.
\<close>

record 'm session =
  read_buf :: bytes
  write_buf :: bytes
  store :: "'m engine"
  counters :: metrics
  aof :: "aof_writer option"
  sent :: bytes
  served :: nat

record surroundings =
  clock_at :: "nat \<Rightarrow> clock"
  log_clock_at :: "nat \<Rightarrow> clock"
  disk_at :: "nat \<Rightarrow> disk"
  thread_at :: "nat \<Rightarrow> thread"

definition max_read_buf :: nat where
  "max_read_buf = 1024 * 1024"

definition max_write_buf :: nat where
  "max_write_buf = 1024 * 1024"

section \<open>Buffers\<close>

text \<open>\<open>BytesMut::advance\<close> panics when it is asked to go beyond the end.\<close>

definition advance :: "nat \<Rightarrow> bytes \<Rightarrow> bytes outcome" where
  "advance n buf = (if n \<le> length buf then Ret (drop n buf) else Panic)"

definition write_response :: "crates \<Rightarrow> response \<Rightarrow> bytes \<Rightarrow> bool \<Rightarrow> bytes" where
  "write_response X r buf is_resp = (if is_resp then write_to_resp X r buf else write_to X r buf)"

definition skip_to_newline :: "crates \<Rightarrow> bytes \<Rightarrow> bytes outcome" where
  "skip_to_newline X buf =
     (case memchr X (CHR 0x0A) buf of
        Some pos \<Rightarrow> advance (pos + 1) buf
      | None \<Rightarrow> Ret [])"

section \<open>Commands\<close>

text \<open>The metrics of a RESP command of the full path, from its response.\<close>

definition record_response :: "thread \<Rightarrow> command_type \<Rightarrow> response \<Rightarrow> metrics \<Rightarrow> metrics" where
  "record_response i ct r m =
     (let m1 = record_command i ct m;
          m2 = (if ct = TGet then
                  (case r of
                     Value (Some _) \<Rightarrow> record_hit i m1
                   | Value None \<Rightarrow> record_miss i m1
                   | _ \<Rightarrow> m1)
                else m1)
      in case r of Error _ \<Rightarrow> record_error i m2 | _ \<Rightarrow> m2)"

text \<open>The append of an entry to the log; its result is ignored.\<close>

definition log_write :: "clock \<Rightarrow> disk \<Rightarrow> bytes option \<Rightarrow> bool \<Rightarrow> aof_writer option \<Rightarrow> aof_writer option" where
  "log_write clk disk entry success w =
     (case (entry, w, success) of
        (Some e, Some aof_writer, True) \<Rightarrow> Some (snd (append_raw clk disk e aof_writer))
      | _ \<Rightarrow> w)"

definition resp_fast_command ::
    "crates \<Rightarrow> 'm entries \<Rightarrow> surroundings \<Rightarrow> command \<Rightarrow> 'm session \<Rightarrow> 'm session outcome" where
  "resp_fast_command X D V cmd st =
     (let n = served st in
      obind (dispatch (dashmap_engine X D) (thread_at V n) (clock_at V n) (counters st) cmd (store st))
        (\<lambda>(response, e).
          Ret (st\<lparr>store := e, write_buf := write_response X response (write_buf st) True,
                  served := Suc n\<rparr>)))"

definition resp_full_command ::
    "crates \<Rightarrow> 'm entries \<Rightarrow> surroundings \<Rightarrow> bool \<Rightarrow> command \<Rightarrow> 'm session \<Rightarrow> 'm session outcome" where
  "resp_full_command X D V metrics_enabled cmd st =
     (let n = served st;
          aof_entry = (if aof st \<noteq> None \<and> is_write cmd then to_aof_entry cmd else None);
          cmd_type = (if metrics_enabled then Some (command_type_of cmd) else None) in
      obind (dispatch (dashmap_engine X D) (thread_at V n) (clock_at V n) (counters st) cmd (store st))
        (\<lambda>(response, e).
          Ret (st\<lparr>store := e,
                  counters := (case cmd_type of
                     Some ct \<Rightarrow> record_response (thread_at V n) ct response (counters st)
                   | None \<Rightarrow> counters st),
                  aof := log_write (log_clock_at V n) (disk_at V n) aof_entry (is_success response) (aof st),
                  write_buf := write_response X response (write_buf st) True,
                  served := Suc n\<rparr>)))"

text \<open>
  The inline command of the full path: the entry is computed from the borrowed command, the
  reply goes to the buffer at once, and the append does not depend on the reply.
\<close>

definition inline_full_command ::
    "crates \<Rightarrow> 'm entries \<Rightarrow> surroundings \<Rightarrow> bool \<Rightarrow> parsed_command \<Rightarrow> 'm session \<Rightarrow> 'm session outcome" where
  "inline_full_command X D V metrics_enabled cmd st =
     (let n = served st;
          aof_entry = (if aof st \<noteq> None \<and> parsed_is_write cmd then parsed_to_aof_entry cmd else None);
          cmd_type = (if metrics_enabled then Some (parsed_command_type_of cmd) else None) in
      obind (dispatch_to_buffer X (dashmap_engine X D) (thread_at V n) (clock_at V n) (counters st)
               (to_owned cmd) (store st) (write_buf st) False)
        (\<lambda>(buf, e).
          Ret (st\<lparr>store := e, write_buf := buf,
                  counters := (case cmd_type of
                     Some ct \<Rightarrow> record_command (thread_at V n) ct (counters st)
                   | None \<Rightarrow> counters st),
                  aof := log_write (log_clock_at V n) (disk_at V n) aof_entry True (aof st),
                  served := Suc n\<rparr>)))"

section \<open>Loop bodies\<close>

text \<open>
  One pass of a loop ends it or goes on. A loop may run forever, so its result is an
  option: \<open>None\<close> when it does.
\<close>

datatype 's pass = Next 's | Break 's

partial_function (option) repeat_passes :: "('s \<Rightarrow> 's pass outcome) \<Rightarrow> 's \<Rightarrow> 's outcome option" where
  "repeat_passes body s =
     (case body s of
        Ret p \<Rightarrow> (case p of Next s' \<Rightarrow> repeat_passes body s' | Break s' \<Rightarrow> Some (Ret s'))
      | Panic \<Rightarrow> Some Panic
      | Blocked \<Rightarrow> Some Blocked)"

declare repeat_passes.simps [code]

definition syntax_error_reply :: response where
  "syntax_error_reply = Error (SyntaxError ''syntax error'')"

definition unknown_command_reply :: response where
  "unknown_command_reply = Error (UnknownCommand ''unknown command'')"

text \<open>An error of the parser: skip a line and reply.\<close>

definition reject :: "crates \<Rightarrow> bool \<Rightarrow> response \<Rightarrow> 'm session \<Rightarrow> 'm session outcome" where
  "reject X is_resp reply st =
     obind (skip_to_newline X (read_buf st)) (\<lambda>b.
       Ret (st\<lparr>read_buf := b, write_buf := write_response X reply (write_buf st) is_resp\<rparr>))"

text \<open>The body of the RESP loops, with the handling of a command as an argument.\<close>

definition resp_pass ::
    "crates \<Rightarrow> (command \<Rightarrow> 'm session \<Rightarrow> 'm session outcome) \<Rightarrow> 'm session \<Rightarrow> 'm session pass outcome" where
  "resp_pass X run st =
     (case try_parse_frame X (read_buf st) of
        Inr (Complete consumed cmd) \<Rightarrow>
          obind (advance consumed (read_buf st)) (\<lambda>b. obind (run cmd (st\<lparr>read_buf := b\<rparr>)) (\<lambda>st'. Ret (Next st')))
      | Inr (Skip consumed) \<Rightarrow> obind (advance consumed (read_buf st)) (\<lambda>b. Ret (Next (st\<lparr>read_buf := b\<rparr>)))
      | Inr Incomplete \<Rightarrow> Ret (Break st)
      | Inl (PE_SyntaxError _) \<Rightarrow> obind (reject X True syntax_error_reply st) (\<lambda>st'. Ret (Next st'))
      | Inl (PE_UnknownCommand _) \<Rightarrow> obind (reject X True unknown_command_reply st) (\<lambda>st'. Ret (Next st'))
      | Inl PE_EmptyCommand \<Rightarrow> Ret (Break st))"

text \<open>
  The body of the inline loop of the fast path. The offset counts what the loop has handled
  of the buffer; \<open>read_buf[offset..]\<close> panics beyond the end.
\<close>

definition inline_fast_pass ::
    "crates \<Rightarrow> 'm entries \<Rightarrow> nat \<times> 'm session \<Rightarrow> (nat \<times> 'm session) pass outcome" where
  "inline_fast_pass X D = (\<lambda>(offset, st).
     if length (read_buf st) < offset then Panic
     else case parse_inline_borrowed X (drop offset (read_buf st)) of
        Inr (BComplete consumed cmd) \<Rightarrow>
          (case dispatch_fast D cmd (store st) (write_buf st) of
             (buf, e) \<Rightarrow> Ret (Next (offset + consumed, st\<lparr>store := e, write_buf := buf, served := Suc (served st)\<rparr>)))
      | Inr (BSkip consumed) \<Rightarrow> Ret (Next (offset + consumed, st))
      | Inr BIncomplete \<Rightarrow> Ret (Break (offset, st))
      | Inl (PE_SyntaxError _) \<Rightarrow> obind (reject X False syntax_error_reply st) (\<lambda>st'. Ret (Next (offset, st')))
      | Inl (PE_UnknownCommand _) \<Rightarrow> obind (reject X False unknown_command_reply st) (\<lambda>st'. Ret (Next (offset, st')))
      | Inl PE_EmptyCommand \<Rightarrow> Ret (Break (offset, st)))"

definition inline_full_pass ::
    "crates \<Rightarrow> (parsed_command \<Rightarrow> 'm session \<Rightarrow> 'm session outcome) \<Rightarrow> 'm session \<Rightarrow> 'm session pass outcome" where
  "inline_full_pass X run st =
     (case parse_inline_borrowed X (read_buf st) of
        Inr (BComplete consumed cmd) \<Rightarrow>
          obind (advance consumed (read_buf st)) (\<lambda>b. obind (run cmd (st\<lparr>read_buf := b\<rparr>)) (\<lambda>st'. Ret (Next st')))
      | Inr (BSkip consumed) \<Rightarrow> obind (advance consumed (read_buf st)) (\<lambda>b. Ret (Next (st\<lparr>read_buf := b\<rparr>)))
      | Inr BIncomplete \<Rightarrow> Ret (Break st)
      | Inl (PE_SyntaxError _) \<Rightarrow> obind (reject X False syntax_error_reply st) (\<lambda>st'. Ret (Next st'))
      | Inl (PE_UnknownCommand _) \<Rightarrow> obind (reject X False unknown_command_reply st) (\<lambda>st'. Ret (Next st'))
      | Inl PE_EmptyCommand \<Rightarrow> Ret (Break st))"

section \<open>Rounds\<close>

text \<open>
  What a read and a write of the socket do: a read gives bytes (none at the end of the
  stream), fails or times out; a write takes everything, or a part before it fails or times
  out.
\<close>

datatype read_event = ReadOk bytes | ReadErr | ReadTimeout

datatype write_event = WriteOk | WriteErr nat | WriteTimeout nat

definition is_resp_batch :: "bytes \<Rightarrow> bool" where
  "is_resp_batch buf \<longleftrightarrow> (case buf of [] \<Rightarrow> False | b # _ \<Rightarrow> b = CHR ''*'')"

text \<open>The frames of a batch, on the fast path and on the full path.\<close>

definition fast_batch :: "crates \<Rightarrow> 'm entries \<Rightarrow> surroundings \<Rightarrow> 'm session \<Rightarrow> 'm session outcome option" where
  "fast_batch X D V st =
     (if is_resp_batch (read_buf st) then repeat_passes (resp_pass X (resp_fast_command X D V)) st
      else map_option (\<lambda>r. obind r (\<lambda>(offset, st').
             obind (advance offset (read_buf st')) (\<lambda>b. Ret (st'\<lparr>read_buf := b\<rparr>))))
           (repeat_passes (inline_fast_pass X D) (0, st)))"

definition full_batch :: "crates \<Rightarrow> 'm entries \<Rightarrow> surroundings \<Rightarrow> bool \<Rightarrow> 'm session \<Rightarrow> 'm session outcome option" where
  "full_batch X D V metrics_enabled st =
     (if is_resp_batch (read_buf st) then
        repeat_passes (resp_pass X (resp_full_command X D V metrics_enabled)) st
      else repeat_passes (inline_full_pass X (inline_full_command X D V metrics_enabled)) st)"

text \<open>The end of a round: the limit on the replies, then the write.\<close>

definition send_replies :: "write_event \<Rightarrow> 'm session \<Rightarrow> 'm session pass" where
  "send_replies w st =
     (if length (write_buf st) > max_write_buf then Break st
      else if write_buf st = [] then Next st
      else case w of
        WriteOk \<Rightarrow> Next (st\<lparr>sent := sent st @ write_buf st, write_buf := []\<rparr>)
      | WriteErr n \<Rightarrow> Break (st\<lparr>sent := sent st @ take n (write_buf st)\<rparr>)
      | WriteTimeout n \<Rightarrow> Break (st\<lparr>sent := sent st @ take n (write_buf st)\<rparr>))"

text \<open>A round of the outer loop, from the read to the write.\<close>

definition session_round ::
    "('m session \<Rightarrow> 'm session outcome option) \<Rightarrow> read_event \<Rightarrow> write_event \<Rightarrow> 'm session \<Rightarrow>
       'm session pass outcome option" where
  "session_round handle r w st =
     (case r of
        ReadErr \<Rightarrow> Some (Ret (Break st))
      | ReadTimeout \<Rightarrow> Some (Ret (Break st))
      | ReadOk bs \<Rightarrow>
          if bs = [] then Some (Ret (Break st))
          else let st1 = st\<lparr>read_buf := read_buf st @ bs\<rparr> in
            if length (read_buf st1) > max_read_buf then Some (Ret (Break st1))
            else map_option (\<lambda>b. obind b (\<lambda>st2. Ret (send_replies w st2))) (handle st1))"

text \<open>
  The outer loop over the reads and writes that happen. It is \<open>Next\<close> as long as the
  session waits for the next read, \<open>Break\<close> once it has ended.
\<close>

fun session_loop ::
    "('m session \<Rightarrow> 'm session outcome option) \<Rightarrow> (read_event \<times> write_event) list \<Rightarrow> 'm session \<Rightarrow>
       'm session pass outcome option" where
  "session_loop handle [] st = Some (Ret (Next st))"
| "session_loop handle ((r, w) # evs) st =
     (case session_round handle r w st of
        Some (Ret (Next st')) \<Rightarrow> session_loop handle evs st'
      | res \<Rightarrow> res)"

definition handle_session_fast ::
    "crates \<Rightarrow> 'm entries \<Rightarrow> surroundings \<Rightarrow> (read_event \<times> write_event) list \<Rightarrow> 'm session \<Rightarrow>
       'm session pass outcome option" where
  "handle_session_fast X D V = session_loop (fast_batch X D V)"

definition handle_session_full ::
    "crates \<Rightarrow> 'm entries \<Rightarrow> surroundings \<Rightarrow> bool \<Rightarrow> (read_event \<times> write_event) list \<Rightarrow> 'm session \<Rightarrow>
       'm session pass outcome option" where
  "handle_session_full X D V metrics_enabled = session_loop (full_batch X D V metrics_enabled)"

text \<open>The choice of the path, and the connection counters around the session.\<close>

definition handle_session ::
    "crates \<Rightarrow> 'm entries \<Rightarrow> surroundings \<Rightarrow> duration \<Rightarrow> bool \<Rightarrow> (read_event \<times> write_event) list \<Rightarrow>
       'm session \<Rightarrow> 'm session pass outcome option" where
  "handle_session X D V write_timeout metrics_enabled evs st =
     (let st1 = (if metrics_enabled then st\<lparr>counters := connection_opened (counters st)\<rparr> else st);
          use_write_timeout = (0 < as_secs write_timeout);
          res = (if aof st1 = None \<and> \<not> metrics_enabled \<and> \<not> use_write_timeout
                 then handle_session_fast X D V evs st1
                 else handle_session_full X D V metrics_enabled evs st1)
      in if metrics_enabled then
           map_option (\<lambda>r. obind r (\<lambda>p. Ret (case p of
             Break st' \<Rightarrow> Break (st'\<lparr>counters := connection_closed (counters st')\<rparr>)
           | Next st' \<Rightarrow> Next st'))) res
         else res)"

end
