(* ===== verification/Session_Stream.thy ===== *)
theory Session_Stream
  imports Session "HOL-Library.Sublist"
begin

text \<open>
  A connection as a stream of frames, for any protocol. The network delivers the bytes of a
  stream in chunks that need not respect the frames; a session keeps the beginning of an
  incomplete frame in its buffer. The locale \<open>framed_stream\<close> states what the handler of a
  batch must do with whole frames followed by the beginning of another; its conclusion is
  that the session handles the commands of the stream one after the other and sends their
  replies in order, however the stream is cut.
\<close>

section \<open>Commands one after the other\<close>

fun run_all :: "('c \<Rightarrow> 's \<Rightarrow> 's outcome) \<Rightarrow> 'c list \<Rightarrow> 's \<Rightarrow> 's outcome" where
  "run_all run [] s = Ret s"
| "run_all run (c # cs) s = obind (run c s) (run_all run cs)"

lemma obind_assoc: "obind (obind m f) g = obind m (\<lambda>a. obind (f a) g)"
  by (cases m) auto

lemma run_all_append: "run_all run (us @ vs) s = obind (run_all run us s) (run_all run vs)"
  by (induction us arbitrary: s) (auto simp: obind_assoc intro: obind_cong)

text \<open>A handler of commands that leaves the read buffer alone.\<close>

definition keeps_buffer :: "('c \<Rightarrow> 'm session \<Rightarrow> 'm session outcome) \<Rightarrow> bool" where
  "keeps_buffer run \<longleftrightarrow>
     (\<forall>c st b. run c (st\<lparr>read_buf := b\<rparr>) = obind (run c st) (\<lambda>st'. Ret (st'\<lparr>read_buf := b\<rparr>)))"

lemma keeps_bufferD:
  assumes "keeps_buffer run" and "run c (st\<lparr>read_buf := b\<rparr>) = Ret st'"
  shows "read_buf st' = b"
  using assms by (auto simp: keeps_buffer_def obind_eq_Ret_iff)

text \<open>A handler that appends its reply to the write buffer and sends nothing itself.\<close>

definition appends_reply :: "('c \<Rightarrow> 'm session \<Rightarrow> 'm session outcome) \<Rightarrow> bool" where
  "appends_reply run \<longleftrightarrow>
     (\<forall>c st b x. run c (st\<lparr>write_buf := b, sent := x\<rparr>) =
        obind (run c (st\<lparr>write_buf := []\<rparr>)) (\<lambda>st'. Ret (st'\<lparr>write_buf := b @ write_buf st', sent := x\<rparr>)))"

lemma run_all_buffer:
  "keeps_buffer run \<Longrightarrow>
     run_all run cs (st\<lparr>read_buf := b\<rparr>) = obind (run_all run cs st) (\<lambda>st'. Ret (st'\<lparr>read_buf := b\<rparr>))"
  by (induction cs arbitrary: st) (auto simp: keeps_buffer_def obind_assoc)

lemma run_all_reply:
  assumes "appends_reply run"
  shows "run_all run cs (st\<lparr>write_buf := b, sent := x\<rparr>) =
    obind (run_all run cs (st\<lparr>write_buf := []\<rparr>)) (\<lambda>st'. Ret (st'\<lparr>write_buf := b @ write_buf st', sent := x\<rparr>))"
proof (induction cs arbitrary: st b x)
  case (Cons c cs)
  have run: "run c (st\<lparr>write_buf := b, sent := x\<rparr>) =
      obind (run c (st\<lparr>write_buf := []\<rparr>)) (\<lambda>st'. Ret (st'\<lparr>write_buf := b @ write_buf st', sent := x\<rparr>))" for b x
    using assms by (simp add: appends_reply_def)
  show ?case
  proof (cases "run c (st\<lparr>write_buf := []\<rparr>)")
    case (Ret st')
    have "run_all run cs st' = obind (run_all run cs (st'\<lparr>write_buf := []\<rparr>))
        (\<lambda>st''. Ret (st''\<lparr>write_buf := write_buf st' @ write_buf st'', sent := sent st'\<rparr>))"
      using Cons.IH [where st = st' and b = "write_buf st'" and x = "sent st'"] by simp
    with Ret run [where b = b and x = x] Cons.IH [where st = st' and b = "b @ write_buf st'" and x = x] show ?thesis
      by (simp add: obind_assoc)
  qed (simp_all add: run)
qed simp

text \<open>How a run depends on the buffers of the session.\<close>

lemma run_all_buffers:
  assumes "keeps_buffer run" and "appends_reply run"
  shows "run_all run cs (st\<lparr>read_buf := r, write_buf := b, sent := x\<rparr>) =
    obind (run_all run cs (st\<lparr>write_buf := []\<rparr>))
      (\<lambda>st'. Ret (st'\<lparr>read_buf := r, write_buf := b @ write_buf st', sent := x\<rparr>))"
proof -
  have "run_all run cs (st\<lparr>read_buf := r, write_buf := b, sent := x\<rparr>) =
      run_all run cs (st\<lparr>write_buf := b, sent := x\<rparr>\<lparr>read_buf := r\<rparr>)" by (cases st) simp
  also have "\<dots> = obind (run_all run cs (st\<lparr>write_buf := []\<rparr>))
      (\<lambda>st'. Ret (st'\<lparr>read_buf := r, write_buf := b @ write_buf st', sent := x\<rparr>))"
    unfolding run_all_buffer [OF assms(1)] run_all_reply [OF assms(2)]
    by (cases "run_all run cs (st\<lparr>write_buf := []\<rparr>)") (auto intro: session.equality)
  finally show ?thesis .
qed

lemma run_all_from_empty:
  assumes "keeps_buffer run" and "appends_reply run" and "run_all run cs st = Ret st'"
  obtains st0 where "run_all run cs (st\<lparr>write_buf := []\<rparr>) = Ret st0"
    and "st' = st0\<lparr>read_buf := read_buf st, write_buf := write_buf st @ write_buf st0, sent := sent st\<rparr>"
proof -
  have "run_all run cs st = obind (run_all run cs (st\<lparr>write_buf := []\<rparr>))
      (\<lambda>st'. Ret (st'\<lparr>read_buf := read_buf st, write_buf := write_buf st @ write_buf st', sent := sent st\<rparr>))"
    using run_all_buffers [OF assms(1,2), where cs = cs and st = st and r = "read_buf st" and b = "write_buf st"
        and x = "sent st"] by simp
  with assms(3) that show ?thesis by (cases "run_all run cs (st\<lparr>write_buf := []\<rparr>)") auto
qed

section \<open>Frames\<close>

definition stream :: "('c \<Rightarrow> bytes) \<Rightarrow> 'c list \<Rightarrow> bytes" where
  "stream frame cs = concat (map frame cs)"

lemma stream_simps [simp]:
  "stream frame [] = []"
  "stream frame (c # cs) = frame c @ stream frame cs"
  "stream frame (cs @ ds) = stream frame cs @ stream frame ds"
  by (simp_all add: stream_def)

text \<open>What may be left of a stream in the buffer: nothing, or the beginning of its next frame.\<close>

definition partial_frame :: "('c \<Rightarrow> bytes) \<Rightarrow> bytes \<Rightarrow> 'c list \<Rightarrow> bool" where
  "partial_frame frame b cs \<longleftrightarrow> b = [] \<or> (\<exists>c cs'. cs = c # cs' \<and> strict_prefix b (frame c))"

lemma stream_prefix_split:
  assumes "prefix b (stream frame cs)"
  obtains us vs rest where "cs = us @ vs" and "b = stream frame us @ rest" and "partial_frame frame rest vs"
  using assms
proof (induction cs arbitrary: b thesis)
  case Nil
  then show ?case by (auto simp: partial_frame_def)
next
  case (Cons c cs)
  show ?case
  proof (cases "strict_prefix b (frame c)")
    case True
    then show ?thesis by (intro Cons.prems(1) [of "[]" "c # cs" b]) (auto simp: partial_frame_def)
  next
    case False
    have "prefix b (frame c) \<or> prefix (frame c) b"
      using Cons.prems(2) prefix_same_cases [of b "frame c @ stream frame cs" "frame c"] by auto
    with False obtain b' where b: "b = frame c @ b'"
      by (auto simp: strict_prefix_def prefix_def)
    with Cons.prems(2) have "prefix b' (stream frame cs)" by simp
    then show ?thesis
    proof (rule Cons.IH [rotated])
      fix us vs rest
      assume "cs = us @ vs" "b' = stream frame us @ rest" "partial_frame frame rest vs"
      with b show ?thesis by (intro Cons.prems(1) [of "c # us" vs rest]) auto
    qed
  qed
qed

section \<open>Sessions on a stream\<close>

text \<open>
  The limits: no chunk that meets a partial frame fills the read buffer, and no run of
  commands that fits in the read buffer has replies beyond the write limit.
\<close>

definition chunks_fit :: "('c \<Rightarrow> bytes) \<Rightarrow> 'c list \<Rightarrow> bytes list \<Rightarrow> bool" where
  "chunks_fit frame cs chunks \<longleftrightarrow>
     (\<forall>c \<in> set cs. \<forall>b \<in> set chunks. length (frame c) + length b \<le> max_read_buf)"

definition output_fits ::
    "('c \<Rightarrow> bytes) \<Rightarrow> ('c \<Rightarrow> 'm session \<Rightarrow> 'm session outcome) \<Rightarrow> 'c list \<Rightarrow> 'm session \<Rightarrow> bool" where
  "output_fits frame run cs st \<longleftrightarrow>
     (\<forall>us ws vs st1 st2. cs = us @ ws @ vs \<longrightarrow> run_all run us st = Ret st1 \<longrightarrow>
        run_all run ws (st1\<lparr>write_buf := []\<rparr>) = Ret st2 \<longrightarrow> length (stream frame ws) \<le> max_read_buf \<longrightarrow>
        length (write_buf st2) \<le> max_write_buf)"

text \<open>The session after the replies of \<open>st\<close> have been sent.\<close>

definition flushed_session :: "'m session \<Rightarrow> bytes \<Rightarrow> 'm session \<Rightarrow> 'm session" where
  "flushed_session st b st' = st'\<lparr>read_buf := b, write_buf := [], sent := sent st @ write_buf st'\<rparr>"

locale framed_stream =
  fixes frame :: "'c \<Rightarrow> bytes"
    and fits :: "'c \<Rightarrow> bool"
    and run :: "'c \<Rightarrow> 'm session \<Rightarrow> 'm session outcome"
    and ready :: "'m session \<Rightarrow> bool"
    and handle :: "'m session \<Rightarrow> 'm session outcome option"
  assumes frame_not_Nil: "frame c \<noteq> []"
    and handle_frames:
      "list_all fits (us @ vs) \<Longrightarrow> partial_frame frame rest vs \<Longrightarrow> stream frame us @ rest \<noteq> [] \<Longrightarrow> ready st \<Longrightarrow>
       handle (st\<lparr>read_buf := stream frame us @ rest\<rparr>) =
         Some (obind (run_all run us st) (\<lambda>st'. Ret (st'\<lparr>read_buf := rest\<rparr>)))"
    and keeps_read: "keeps_buffer run"
    and appends: "appends_reply run"
    and run_ready: "ready st \<Longrightarrow> run c st = Ret st' \<Longrightarrow> ready st'"
    and ready_buffers: "ready (st\<lparr>read_buf := b, write_buf := b', sent := x\<rparr>) = ready st"
begin

lemma run_all_ready: "ready st \<Longrightarrow> run_all run cs st = Ret st' \<Longrightarrow> ready st'"
  by (induction cs arbitrary: st) (auto simp: obind_eq_Ret_iff dest: run_ready)

lemma partial_room:
  assumes "partial_frame frame b cs" and "cs \<noteq> []" and "\<forall>c \<in> set cs. length (frame c) + n \<le> max_read_buf"
  shows "length b + n \<le> max_read_buf"
proof -
  have "length b \<le> length (frame (hd cs))"
    using assms(1,2) by (auto simp: partial_frame_def dest: prefix_length_less)
  with assms(2,3) show ?thesis by (cases cs) auto
qed

lemma round_chunk:
  assumes "partial_frame frame (read_buf st) cs" and "prefix (read_buf st @ b) (stream frame cs)" and "b \<noteq> []"
    and "write_buf st = []" and "list_all fits cs" and "ready st"
    and "\<forall>c \<in> set cs. length (frame c) + length b \<le> max_read_buf"
    and "run_all run cs st = Ret st'" and "output_fits frame run cs st"
  obtains us vs rest st1 where "cs = us @ vs" and "run_all run us st = Ret st1" and "run_all run vs st1 = Ret st'"
    and "read_buf st @ b = stream frame us @ rest" and "partial_frame frame rest vs"
    and "session_round handle (ReadOk b) WriteOk st = Some (Ret (Next (flushed_session st rest st1)))"
proof -
  obtain us vs rest where cs: "cs = us @ vs" and buf: "read_buf st @ b = stream frame us @ rest"
    and rest: "partial_frame frame rest vs"
    using assms(2) by (rule stream_prefix_split)
  obtain st1 where us: "run_all run us st = Ret st1" and vs: "run_all run vs st1 = Ret st'"
    using assms(8) cs by (auto simp: run_all_append obind_eq_Ret_iff)
  have "cs \<noteq> []" using assms(2,3) by auto
  then have room: "length (read_buf st @ b) \<le> max_read_buf"
    using partial_room [OF assms(1) _ assms(7)] by simp
  have "cs = [] @ us @ vs" "run_all run [] st = Ret st" "run_all run us (st\<lparr>write_buf := []\<rparr>) = Ret st1"
    "length (stream frame us) \<le> max_read_buf"
    using cs us assms(4) room by (simp_all add: buf) (simp flip: assms(4))
  then have small: "length (write_buf st1) \<le> max_write_buf"
    using assms(9) unfolding output_fits_def by blast
  have "handle (st\<lparr>read_buf := stream frame us @ rest\<rparr>) = Some (Ret (st1\<lparr>read_buf := rest\<rparr>))"
    using handle_frames [OF _ rest _ assms(6), of us] assms(3,5) cs us by (simp flip: buf)
  moreover have "sent st1 = sent st"
    using us by (rule run_all_from_empty [OF keeps_read appends]) simp
  ultimately have "session_round handle (ReadOk b) WriteOk st = Some (Ret (Next (flushed_session st rest st1)))"
    using room assms(3) small by (auto simp: session_round_def buf send_replies_def flushed_session_def)
  with cs us vs buf rest that show ?thesis by blast
qed

text \<open>Sending the replies of the first commands early changes nothing but where they are.\<close>

lemma flushed_run:
  "run_all run cs (flushed_session st rest st1) =
     obind (run_all run cs (st1\<lparr>write_buf := []\<rparr>))
       (\<lambda>st'. Ret (st'\<lparr>read_buf := rest, sent := sent st @ write_buf st1\<rparr>))"
proof -
  have "flushed_session st rest st1 = st1\<lparr>read_buf := rest, write_buf := [], sent := sent st @ write_buf st1\<rparr>"
    by (simp add: flushed_session_def)
  then show ?thesis
    unfolding run_all_buffers [OF keeps_read appends, where st = st1]
    by (cases "run_all run cs (st1\<lparr>write_buf := []\<rparr>)") (simp_all add: run_all_buffers [OF keeps_read appends, where st = st1])
qed

lemma flushed_rest:
  assumes "run_all run vs st1 = Ret st'" and "sent st1 = sent st"
  obtains st2 where "run_all run vs (flushed_session st rest st1) = Ret st2"
    and "flushed_session (flushed_session st rest st1) [] st2 = flushed_session st [] st'"
proof -
  obtain st0 where st0: "run_all run vs (st1\<lparr>write_buf := []\<rparr>) = Ret st0"
      "st' = st0\<lparr>read_buf := read_buf st1, write_buf := write_buf st1 @ write_buf st0, sent := sent st1\<rparr>"
    using assms(1) by (rule run_all_from_empty [OF keeps_read appends])
  then show ?thesis
    using that flushed_run [of vs st rest st1] by (auto simp: flushed_session_def)
qed

lemma output_fits_rest:
  assumes "output_fits frame run (us @ vs) st" and "run_all run us st = Ret st1"
  shows "output_fits frame run vs (flushed_session st rest st1)"
  unfolding output_fits_def
proof (intro allI impI)
  fix us' ws vs' st2 st3
  assume vs: "vs = us' @ ws @ vs'" and us': "run_all run us' (flushed_session st rest st1) = Ret st2"
    and ws: "run_all run ws (st2\<lparr>write_buf := []\<rparr>) = Ret st3" and len: "length (stream frame ws) \<le> max_read_buf"
  obtain st0 where st0: "run_all run us' (st1\<lparr>write_buf := []\<rparr>) = Ret st0"
      "st2 = st0\<lparr>read_buf := rest, sent := sent st @ write_buf st1\<rparr>"
    using us' by (auto simp: flushed_run obind_eq_Ret_iff)
  let ?st5 = "st0\<lparr>read_buf := read_buf st1, write_buf := write_buf st1 @ write_buf st0, sent := sent st1\<rparr>"
  have full: "run_all run (us @ us') st = Ret ?st5"
    using assms(2) st0(1) run_all_buffers [OF keeps_read appends, where cs = us' and st = st1 and r = "read_buf st1"
        and b = "write_buf st1" and x = "sent st1"]
    by (simp add: run_all_append)
  have st3: "run_all run ws (st0\<lparr>read_buf := rest, write_buf := [], sent := sent st @ write_buf st1\<rparr>) = Ret st3"
    using ws st0(2) by (cases st0) simp
  then obtain st6 where st6: "run_all run ws (st0\<lparr>write_buf := []\<rparr>) = Ret st6" "write_buf st3 = write_buf st6"
    unfolding run_all_buffers [OF keeps_read appends, where st = st0] by (auto simp: obind_eq_Ret_iff)
  have "run_all run ws (?st5\<lparr>write_buf := []\<rparr>) =
      Ret (st6\<lparr>read_buf := read_buf st1, write_buf := [] @ write_buf st6, sent := sent st1\<rparr>)"
    using run_all_buffers [OF keeps_read appends, where cs = ws and st = st0 and r = "read_buf st1" and b = "[]"
        and x = "sent st1"] st6(1) by (cases st0) simp
  moreover have "us @ vs = (us @ us') @ ws @ vs'" by (simp add: vs)
  ultimately have "length (write_buf (st6\<lparr>read_buf := read_buf st1, write_buf := [] @ write_buf st6, sent := sent st1\<rparr>))
      \<le> max_write_buf"
    using assms(1) [unfolded output_fits_def] full len by blast
  then show "length (write_buf st3) \<le> max_write_buf" by (simp add: st6(2))
qed

text \<open>Replies that are within the write limit altogether are within it batch by batch.\<close>

lemma output_fits_total:
  assumes "run_all run cs st = Ret st'" and "length (write_buf st') \<le> max_write_buf"
  shows "output_fits frame run cs st"
  unfolding output_fits_def
proof (intro allI impI)
  fix us ws vs st1 st2
  assume cs: "cs = us @ ws @ vs" and us: "run_all run us st = Ret st1"
    and ws: "run_all run ws (st1\<lparr>write_buf := []\<rparr>) = Ret st2"
  obtain st3 where st3: "run_all run ws st1 = Ret st3" and vs: "run_all run vs st3 = Ret st'"
    using assms(1) cs us by (auto simp: run_all_append obind_eq_Ret_iff)
  have "write_buf st3 = write_buf st1 @ write_buf st2"
    using st3 by (rule run_all_from_empty [OF keeps_read appends]) (use ws in simp)
  moreover have "prefix (write_buf st3) (write_buf st')"
    using vs by (rule run_all_from_empty [OF keeps_read appends]) simp
  ultimately show "length (write_buf st2) \<le> max_write_buf"
    using assms(2) by (auto dest: prefix_length_le)
qed

lemma session_chunks:
  assumes "read_buf st @ concat chunks = stream frame cs" and "partial_frame frame (read_buf st) cs"
    and "[] \<notin> set chunks" and "write_buf st = []" and "list_all fits cs" and "ready st"
    and "chunks_fit frame cs chunks"
    and "run_all run cs st = Ret st'" and "output_fits frame run cs st"
  shows "session_loop handle (map (\<lambda>b. (ReadOk b, WriteOk)) chunks) st =
    Some (Ret (Next (flushed_session st [] st')))"
  using assms
proof (induction chunks arbitrary: st cs st')
  case Nil
  have "cs = []"
  proof (rule ccontr)
    assume "cs \<noteq> []"
    then obtain c cs' where "cs = c # cs'" by (cases cs) auto
    with Nil.prems(1,2) frame_not_Nil [of c] show False by (auto simp: partial_frame_def strict_prefix_def)
  qed
  with Nil.prems show ?case by (simp add: flushed_session_def)
next
  case (Cons b chunks)
  have "prefix (read_buf st @ b) (stream frame cs)" "b \<noteq> []"
    "\<forall>c \<in> set cs. length (frame c) + length b \<le> max_read_buf"
    using Cons.prems(3,7) by (auto simp: chunks_fit_def prefix_def simp flip: Cons.prems(1))
  then obtain us vs rest st1 where h: "cs = us @ vs" "run_all run us st = Ret st1" "run_all run vs st1 = Ret st'"
    "read_buf st @ b = stream frame us @ rest" "partial_frame frame rest vs"
    "session_round handle (ReadOk b) WriteOk st = Some (Ret (Next (flushed_session st rest st1)))"
    using round_chunk [OF Cons.prems(2) _ _ Cons.prems(4,5,6) _ Cons.prems(8,9)] by metis
  let ?st = "flushed_session st rest st1"
  have sent: "sent st1 = sent st" using h(2) by (rule run_all_from_empty [OF keeps_read appends]) simp
  obtain st2 where st2: "run_all run vs ?st = Ret st2" "flushed_session ?st [] st2 = flushed_session st [] st'"
    using h(3) sent by (rule flushed_rest)
  have "read_buf ?st @ concat chunks = stream frame vs"
    using Cons.prems(1) h(1,4) by (simp add: flushed_session_def flip: append_assoc) (simp add: append_assoc)
  moreover have "ready ?st"
    using run_all_ready [OF Cons.prems(6) h(2)] ready_buffers by (simp add: flushed_session_def)
  moreover have "chunks_fit frame vs chunks" using Cons.prems(7) h(1) by (auto simp: chunks_fit_def)
  moreover have "output_fits frame run vs ?st"
    using Cons.prems(9) output_fits_rest [OF _ h(2)] h(1) by blast
  ultimately have "session_loop handle (map (\<lambda>b. (ReadOk b, WriteOk)) chunks) ?st =
      Some (Ret (Next (flushed_session ?st [] st2)))"
    using Cons.prems(3,5) h(1,5) st2(1) by (intro Cons.IH) (auto simp: flushed_session_def)
  then show ?case using h(6) st2(2) by simp
qed

end

end
