(* ===== verification/Session_Props.thy ===== *)
theory Session_Props
  imports Session_Stream
begin

text \<open>
  Sessions: the loops of a batch end, a stream of RESP frames is answered command by
  command in order however the network cuts it, and what the log records of it. The last
  section states what the code does on malformed input.
\<close>

section \<open>Loops that end\<close>

lemma repeat_Next: "body s = Ret (Next s') \<Longrightarrow> repeat_passes body s = repeat_passes body s'"
  by (subst repeat_passes.simps) simp

lemma repeat_Break: "body s = Ret (Break s') \<Longrightarrow> repeat_passes body s = Some (Ret s')"
  by (subst repeat_passes.simps) simp

lemma repeat_Panic: "body s = Panic \<Longrightarrow> repeat_passes body s = Some Panic"
  by (subst repeat_passes.simps) simp

lemma repeat_Blocked: "body s = Blocked \<Longrightarrow> repeat_passes body s = Some Blocked"
  by (subst repeat_passes.simps) simp

lemmas repeat_simps = repeat_Next repeat_Break repeat_Panic repeat_Blocked

text \<open>A loop whose passes use up something ends.\<close>

locale decreasing_loop =
  fixes body :: "'s \<Rightarrow> 's pass outcome"
    and remaining :: "'s \<Rightarrow> nat"
  assumes decreases: "body s = Ret (Next s') \<Longrightarrow> remaining s' < remaining s"
begin

lemma ends: "\<exists>r. repeat_passes body s = Some r"
proof (induction "remaining s" arbitrary: s rule: less_induct)
  case less
  show ?case
  proof (cases "body s")
    case (Ret p)
    then show ?thesis
    proof (cases p)
      case (Next s')
      with Ret have "body s = Ret (Next s')" by simp
      with less [OF decreases [OF this]] show ?thesis by (simp add: repeat_Next)
    next
      case (Break s')
      with Ret show ?thesis by (simp add: repeat_Break)
    qed
  qed (simp_all add: repeat_simps)
qed

end

lemma advance_Ret: "advance n buf = Ret b \<longleftrightarrow> n \<le> length buf \<and> b = drop n buf"
  by (auto simp: advance_def)

lemma obind_case: "obind m f = (case m of Ret a \<Rightarrow> f a | Panic \<Rightarrow> Panic | Blocked \<Rightarrow> Blocked)"
  by (cases m) auto

lemma keeps_buffer_fast: "keeps_buffer (resp_fast_command X D V)"
  unfolding keeps_buffer_def
  by (auto simp: resp_fast_command_def Let_def obind_case split: outcome.splits)

lemma keeps_buffer_full: "keeps_buffer (resp_full_command X D V me)"
  unfolding keeps_buffer_def
  by (auto simp: resp_full_command_def Let_def obind_case split: outcome.splits)

lemma keeps_buffer_inline: "keeps_buffer (inline_full_command X D V me)"
  unfolding keeps_buffer_def
  by (auto simp: inline_full_command_def Let_def obind_case split: outcome.splits)

context crates_spec
begin

lemma memchr_Nil [simp]: "memchr X b [] = None"
  using memchr_Some [of b "[]"] by (cases "memchr X b []") auto

lemma memchr2_Nil [simp]: "memchr2 X a b [] = None"
  using memchr2_Some [of a b "[]"] by (cases "memchr2 X a b []") auto

lemma skip_to_newline_shrinks:
  assumes "buf \<noteq> []"
  obtains b where "skip_to_newline X buf = Ret b" and "length b < length buf"
proof (cases "memchr X (CHR 0x0A) buf")
  case None
  with assms that show ?thesis by (simp add: skip_to_newline_def)
next
  case (Some i)
  with memchr_Some [OF Some] have "skip_to_newline X buf = Ret (drop (Suc i) buf)"
    and "length (drop (Suc i) buf) < length buf"
    by (auto simp: skip_to_newline_def advance_def)
  then show ?thesis by (rule that)
qed

lemma reject_shrinks:
  assumes "read_buf st \<noteq> []" and "reject X is_resp reply st = Ret st'"
  shows "length (read_buf st') < length (read_buf st)"
  using assms(1)
proof (rule skip_to_newline_shrinks)
  fix b
  assume "skip_to_newline X (read_buf st) = Ret b" and "length b < length (read_buf st)"
  with assms(2) show ?thesis by (auto simp: reject_def)
qed

lemma resp_pass_decreases:
  assumes "keeps_buffer run" and "resp_pass X run st = Ret (Next st')"
  shows "length (read_buf st') < length (read_buf st)"
proof (cases "try_parse_frame X (read_buf st)")
  case (Inl e)
  then have "read_buf st \<noteq> []" by (auto simp: try_parse_frame_def)
  from reject_shrinks [OF this] Inl assms(2) show ?thesis
    by (cases e) (auto simp: resp_pass_def obind_eq_Ret_iff)
next
  case (Inr f)
  have "frame_within (length (read_buf st)) (try_parse_frame X (read_buf st))"
    by (rule frame_within_buffer)
  with Inr assms show ?thesis
    by (cases f) (auto simp: resp_pass_def obind_eq_Ret_iff advance_Ret dest: keeps_bufferD)
qed

lemma borrowed_Nil: "parse_inline_borrowed X [] = Inr BIncomplete"
  by (simp add: parse_inline_borrowed_def borrowed_line_end_def)

lemma borrowed_consumes_some: "borrowed_consumes (\<lambda>n. 0 < n) (parse_inline_borrowed X buf)"
  by (auto simp: parse_inline_borrowed_def intro!: borrowed_line_consumes split: option.splits)

lemma inline_full_pass_decreases:
  assumes "keeps_buffer run" and "inline_full_pass X run st = Ret (Next st')"
  shows "length (read_buf st') < length (read_buf st)"
proof (cases "parse_inline_borrowed X (read_buf st)")
  case (Inl e)
  then have "read_buf st \<noteq> []" using borrowed_Nil by auto
  from reject_shrinks [OF this] Inl assms(2) show ?thesis
    by (cases e) (auto simp: inline_full_pass_def obind_eq_Ret_iff)
next
  case (Inr f)
  have "borrowed_consumes (\<lambda>n. 0 < n) (parse_inline_borrowed X (read_buf st))"
    by (rule borrowed_consumes_some)
  with Inr assms show ?thesis
    by (cases f) (auto simp: inline_full_pass_def obind_eq_Ret_iff advance_Ret dest: keeps_bufferD)
qed

text \<open>
  On the fast path the offset grows or the buffer shrinks. A pass that leaves the offset
  beyond the end has used up the buffer as well: the next one panics.
\<close>

lemma less_minus: "n < b \<Longrightarrow> a < b \<Longrightarrow> a - n < b - (n :: nat)"
  by arith

lemma inline_fast_pass_decreases:
  assumes "inline_fast_pass X D p = Ret (Next p')"
  shows "(\<lambda>(offset, st). length (read_buf st) - offset) p' < (\<lambda>(offset, st). length (read_buf st) - offset) p"
proof -
  obtain offset st where p: "p = (offset, st)" by (cases p)
  let ?r = "drop offset (read_buf st)"
  have r: "parse_inline_borrowed X ?r \<noteq> Inr BIncomplete"
    using assms p by (auto simp: inline_fast_pass_def split: if_splits)
  then have "?r \<noteq> []" using borrowed_Nil by auto
  then have offset: "offset < length (read_buf st)" by simp
  have c: "borrowed_consumes (\<lambda>n. 0 < n) (parse_inline_borrowed X ?r)" by (rule borrowed_consumes_some)
  show ?thesis
  proof (cases "parse_inline_borrowed X ?r")
    case (Inl e)
    have "read_buf st \<noteq> []" using offset by auto
    note shrinks = reject_shrinks [OF this, THEN less_minus [OF offset]]
    from Inl assms p offset show ?thesis
      by (cases e) (auto simp: inline_fast_pass_def obind_eq_Ret_iff shrinks split: if_splits)
  next
    case (Inr f)
    with assms p c offset show ?thesis
      by (cases f) (auto simp: inline_fast_pass_def split: if_splits prod.splits)
  qed
qed

end

sublocale crates_spec \<subseteq> resp_fast: decreasing_loop "resp_pass X (resp_fast_command X D V)" "\<lambda>st. length (read_buf st)"
  for D :: "'m entries" and V :: surroundings
  by unfold_locales (rule resp_pass_decreases [OF keeps_buffer_fast])

sublocale crates_spec \<subseteq> resp_full: decreasing_loop "resp_pass X (resp_full_command X D V me)" "\<lambda>st. length (read_buf st)"
  for D :: "'m entries" and V :: surroundings and me :: bool
  by unfold_locales (rule resp_pass_decreases [OF keeps_buffer_full])

sublocale crates_spec \<subseteq> inline_full: decreasing_loop "inline_full_pass X (inline_full_command X D V me)" "\<lambda>st. length (read_buf st)"
  for D :: "'m entries" and V :: surroundings and me :: bool
  by unfold_locales (rule inline_full_pass_decreases [OF keeps_buffer_inline])

sublocale crates_spec \<subseteq> inline_fast: decreasing_loop "inline_fast_pass X D" "\<lambda>(offset, st). length (read_buf st) - offset"
  for D :: "'m entries"
  by unfold_locales (rule inline_fast_pass_decreases)

context crates_spec
begin

lemma batches_end: "fast_batch X D V st \<noteq> None \<and> full_batch X D V me st \<noteq> None"
  using resp_fast.ends [of D V st] resp_full.ends [of D V me st] inline_fast.ends [of D "(0, st)"]
    inline_full.ends [of D V me st]
  by (auto simp: fast_batch_def full_batch_def)

end

text \<open>
  (C22) No input makes a session spin: on both paths and both protocols the loop over the
  frames of a batch ends, whatever bytes the buffer holds.
\<close>

theorem session_batch_ends:
  assumes "crates_spec X"
  shows "fast_batch X D V st \<noteq> None \<and> full_batch X D V me st \<noteq> None"
  using assms by (rule crates_spec.batches_end)

section \<open>Streams of frames\<close>

abbreviation frames :: "crates \<Rightarrow> command list \<Rightarrow> bytes" where
  "frames X \<equiv> stream (resp_frame X)"

text \<open>
  A loop that handles the frame at the front of the buffer and leaves at an incomplete one
  handles the frames of a stream one after the other.
\<close>

lemma repeat_stream:
  assumes "keeps_buffer run" and "list_all fits cs"
    and pass: "\<And>c b st. fits c \<Longrightarrow> body (st\<lparr>read_buf := frame c @ b\<rparr>) =
      obind (run c (st\<lparr>read_buf := b\<rparr>)) (\<lambda>st'. Ret (Next st'))"
    and stop: "\<And>st. body (st\<lparr>read_buf := rest\<rparr>) = Ret (Break (st\<lparr>read_buf := rest\<rparr>))"
  shows "repeat_passes body (st\<lparr>read_buf := stream frame cs @ rest\<rparr>) =
    Some (obind (run_all run cs st) (\<lambda>st'. Ret (st'\<lparr>read_buf := rest\<rparr>)))"
  using assms(2)
proof (induction cs arbitrary: st)
  case Nil
  show ?case by (simp add: repeat_Break [where body = body, OF stop])
next
  case (Cons c cs)
  let ?b = "stream frame cs @ rest"
  have pass: "body (st\<lparr>read_buf := stream frame (c # cs) @ rest\<rparr>) =
      obind (run c st) (\<lambda>st'. Ret (Next (st'\<lparr>read_buf := ?b\<rparr>)))"
    using assms(1) Cons.prems pass [where c = c and st = st and b = ?b] by (cases "run c st") (simp_all add: keeps_buffer_def)
  show ?case
  proof (cases "run c st")
    case (Ret st')
    with pass Cons.IH [of st'] Cons.prems show ?thesis by (simp add: repeat_Next)
  qed (use pass in \<open>simp_all add: repeat_simps\<close>)
qed

lemma resp_frame_star: "\<exists>tl. resp_frame X c = CHR ''*'' # tl"
  by (simp add: resp_frame_def write_array_def)

lemma resp_frame_not_Nil [simp]: "resp_frame X c \<noteq> []"
  using resp_frame_star [of X c] by auto

context crates_spec
begin

lemma frame_parses:
  assumes "frame_fits c"
  shows "try_parse_frame X (resp_frame X c @ rest) = Inr (Complete (length (resp_frame X c)) c)"
  using resp_frame_take [OF assms, of "length (resp_frame X c @ rest)" rest] by simp

lemma frame_prefix_incomplete:
  assumes "frame_fits c" and "strict_prefix b (resp_frame X c)"
  shows "try_parse_frame X b = Inr Incomplete"
proof -
  obtain z zs where "resp_frame X c = b @ z # zs" using assms(2) by (rule strict_prefixE')
  then show ?thesis using resp_frame_take [OF assms(1), of "length b" "[]"] by simp
qed

lemma resp_stream:
  assumes "keeps_buffer run" and "list_all frame_fits cs" and "try_parse_frame X rest = Inr Incomplete"
  shows "repeat_passes (resp_pass X run) (st\<lparr>read_buf := frames X cs @ rest\<rparr>) =
    Some (obind (run_all run cs st) (\<lambda>st'. Ret (st'\<lparr>read_buf := rest\<rparr>)))"
  using assms by (intro repeat_stream [where fits = frame_fits]) (simp_all add: resp_pass_def frame_parses advance_def)

end

section \<open>Answers and log of a stream\<close>

text \<open>
  The specification of a session: the commands are dispatched one after the other, and the
  metrics, when they are enabled, follow. The log takes the entries of the writes that
  succeeded.
\<close>

fun answer_all ::
    "crates \<Rightarrow> 'm entries \<Rightarrow> surroundings \<Rightarrow> bool \<Rightarrow> nat \<Rightarrow> command list \<Rightarrow> metrics \<Rightarrow> 'm engine \<Rightarrow>
       (response list \<times> metrics \<times> 'm engine) outcome" where
  "answer_all X D V me n [] m e = Ret ([], m, e)"
| "answer_all X D V me n (c # cs) m e =
     obind (dispatch (dashmap_engine X D) (thread_at V n) (clock_at V n) m c e) (\<lambda>(r, e1).
       obind (answer_all X D V me (Suc n) cs
                (if me then record_response (thread_at V n) (command_type_of c) r m else m) e1)
         (\<lambda>(rs, m', e'). Ret (r # rs, m', e')))"

fun log_all :: "surroundings \<Rightarrow> nat \<Rightarrow> (command \<times> response) list \<Rightarrow> aof_writer option \<Rightarrow> aof_writer option" where
  "log_all V n [] w = w"
| "log_all V n ((c, r) # crs) w =
     log_all V (Suc n) crs
       (log_write (log_clock_at V n) (disk_at V n) (if w \<noteq> None \<and> is_write c then to_aof_entry c else None)
          (is_success r) w)"

definition replies :: "crates \<Rightarrow> response list \<Rightarrow> bytes" where
  "replies X rs = concat (map (response_bytes X True) rs)"

lemma replies_simps [simp]:
  "replies X [] = []"
  "replies X (r # rs) = response_bytes X True r @ replies X rs"
  "replies X (rs @ rs') = replies X rs @ replies X rs'"
  by (simp_all add: replies_def)

definition answered ::
    "crates \<Rightarrow> surroundings \<Rightarrow> command list \<Rightarrow> response list \<Rightarrow> metrics \<Rightarrow> 'm engine \<Rightarrow> 'm session \<Rightarrow> 'm session" where
  "answered X V cs rs m e st =
     st\<lparr>store := e, counters := m, aof := log_all V (served st) (zip cs rs) (aof st),
        write_buf := write_buf st @ replies X rs, served := served st + length cs\<rparr>"

lemma write_response_resp: "write_response X r buf True = buf @ response_bytes X True r"
  by (simp add: write_response_def write_to_resp_def write_to_impl_def)

lemma answer_all_length: "answer_all X D V me n cs m e = Ret (rs, m', e') \<Longrightarrow> length rs = length cs"
  by (induction cs arbitrary: n m e rs m' e') (auto simp: obind_eq_Ret_iff)

lemma answer_all_append:
  "answer_all X D V me n (us @ vs) m e =
     obind (answer_all X D V me n us m e) (\<lambda>(rs, m1, e1).
       obind (answer_all X D V me (n + length us) vs m1 e1) (\<lambda>(rs', m2, e2). Ret (rs @ rs', m2, e2)))"
  by (induction us arbitrary: n m e) (auto simp: obind_case split: outcome.splits)

lemma log_all_append: "log_all V n (us @ vs) w = log_all V (n + length us) vs (log_all V n us w)"
  by (induction us arbitrary: n w) auto

lemma log_write_None [simp]: "log_write clk disk entry success None = None"
  by (simp add: log_write_def split: option.splits)

lemma log_all_None [simp]: "log_all V n crs None = None"
  by (induction crs arbitrary: n) auto

lemma answered_append:
  "length rs = length us \<Longrightarrow>
   answered X V vs rs' m' e' (answered X V us rs m e st) = answered X V (us @ vs) (rs @ rs') m' e' st"
  by (simp add: answered_def log_all_append)

lemma resp_full_command_answers:
  "resp_full_command X D V me c st =
     obind (answer_all X D V me (served st) [c] (counters st) (store st))
       (\<lambda>(rs, m, e). Ret (answered X V [c] rs m e st))"
  by (auto simp: resp_full_command_def Let_def obind_case answered_def write_response_resp
      split: outcome.splits)

lemma resp_fast_command_answers:
  "aof st = None \<Longrightarrow> resp_fast_command X D V c st =
     obind (answer_all X D V False (served st) [c] (counters st) (store st))
       (\<lambda>(rs, m, e). Ret (answered X V [c] rs m e st))"
  by (auto simp: resp_fast_command_def Let_def obind_case answered_def write_response_resp
      split: outcome.splits)

text \<open>Commands that each behave as \<open>answer_all\<close> says do so one after the other.\<close>

lemma run_all_answers:
  assumes "P st"
    and "\<And>c st. P st \<Longrightarrow> run c st = obind (answer_all X D V me (served st) [c] (counters st) (store st))
        (\<lambda>(rs, m, e). Ret (answered X V [c] rs m e st))"
    and "\<And>cs rs m e st. P st \<Longrightarrow> P (answered X V cs rs m e st)"
  shows "run_all run cs st = obind (answer_all X D V me (served st) cs (counters st) (store st))
    (\<lambda>(rs, m, e). Ret (answered X V cs rs m e st))"
  using assms(1)
proof (induction cs arbitrary: st)
  case Nil
  then show ?case by (simp add: answered_def)
next
  case (Cons c cs)
  show ?case
  proof (cases "answer_all X D V me (served st) [c] (counters st) (store st)")
    case (Ret p)
    then obtain rs m e where p: "p = (rs, m, e)" by (cases p)
    let ?st = "answered X V [c] rs m e st"
    have "run_all run (c # cs) st = run_all run cs ?st"
      using assms(2) [OF Cons.prems] Ret p by simp
    moreover have "length rs = length [c]" using Ret p by (intro answer_all_length) simp
    moreover have "served ?st = served st + length [c]" "counters ?st = m" "store ?st = e"
      by (simp_all add: answered_def)
    ultimately show ?thesis
      using Cons.IH [OF assms(3) [OF Cons.prems], of "[c]" rs m e] Ret p
        answer_all_append [of X D V me "served st" "[c]" cs "counters st" "store st"]
        answered_append [of rs "[c]" X V cs _ _ _ m e st]
      by (auto simp: obind_case split: outcome.splits)
  qed (use assms(2) [OF Cons.prems] answer_all_append [of X D V me "served st" "[c]" cs] in simp_all)
qed

lemmas run_all_full = run_all_answers [where P = "\<lambda>_. True", OF _ resp_full_command_answers, simplified]

lemma run_all_fast:
  "aof st = None \<Longrightarrow> run_all (resp_fast_command X D V) cs st =
     obind (answer_all X D V False (served st) cs (counters st) (store st))
       (\<lambda>(rs, m, e). Ret (answered X V cs rs m e st))"
  by (rule run_all_answers [where P = "\<lambda>st. aof st = None"])
    (simp_all add: resp_fast_command_answers, simp add: answered_def)

text \<open>The handler of a batch that \<open>handle_session\<close> chooses.\<close>

definition batch_handler ::
    "crates \<Rightarrow> 'm entries \<Rightarrow> surroundings \<Rightarrow> bool \<Rightarrow> bool \<Rightarrow> 'm session \<Rightarrow> 'm session outcome option" where
  "batch_handler X D V me fast = (if fast then fast_batch X D V else full_batch X D V me)"

context crates_spec
begin

lemma batch_frames:
  assumes "list_all frame_fits cs" and "try_parse_frame X rest = Inr Incomplete"
    and "is_resp_batch (frames X cs @ rest)" and "fast \<Longrightarrow> aof st = None \<and> \<not> me"
  shows "batch_handler X D V me fast (st\<lparr>read_buf := frames X cs @ rest\<rparr>) =
    Some (obind (answer_all X D V me (served st) cs (counters st) (store st))
      (\<lambda>(rs, m, e). Ret ((answered X V cs rs m e st)\<lparr>read_buf := rest\<rparr>)))"
  using resp_stream [OF keeps_buffer_fast [of X D V] assms(1,2), of st]
    resp_stream [OF keeps_buffer_full [of X D V me] assms(1,2), of st] assms(3,4)
  by (auto simp: batch_handler_def fast_batch_def full_batch_def run_all_fast run_all_full obind_case
      split: outcome.splits)

lemma incomplete_Nil [simp]: "try_parse_frame X [] = Inr Incomplete"
  by (simp add: try_parse_frame_def)

end

section \<open>Chunks\<close>

text \<open>
  The limits of a session: no chunk that meets a partial frame fills the read buffer, and no
  run of commands that fits in the read buffer has replies beyond the write limit.
\<close>

abbreviation requests_fit :: "crates \<Rightarrow> command list \<Rightarrow> bytes list \<Rightarrow> bool" where
  "requests_fit X \<equiv> chunks_fit (resp_frame X)"

definition replies_fit :: "crates \<Rightarrow> command list \<Rightarrow> response list \<Rightarrow> bool" where
  "replies_fit X cs rs \<longleftrightarrow>
     (\<forall>i j. length (frames X (subslice i j cs)) \<le> max_read_buf \<longrightarrow>
        length (replies X (subslice i j rs)) \<le> max_write_buf)"

text \<open>The handling of a command that \<open>handle_session\<close> chooses.\<close>

definition command_handler ::
    "crates \<Rightarrow> 'm entries \<Rightarrow> surroundings \<Rightarrow> bool \<Rightarrow> bool \<Rightarrow> command \<Rightarrow> 'm session \<Rightarrow> 'm session outcome" where
  "command_handler X D V me fast = (if fast then resp_fast_command X D V else resp_full_command X D V me)"

definition path_ready :: "bool \<Rightarrow> bool \<Rightarrow> 'm session \<Rightarrow> bool" where
  "path_ready me fast st \<longleftrightarrow> (fast \<longrightarrow> aof st = None \<and> \<not> me)"

lemma command_handler_answers:
  "path_ready me fast st \<Longrightarrow> run_all (command_handler X D V me fast) cs st =
     obind (answer_all X D V me (served st) cs (counters st) (store st))
       (\<lambda>(rs, m, e). Ret (answered X V cs rs m e st))"
  by (cases fast) (simp_all add: command_handler_def path_ready_def run_all_fast run_all_full)

lemma appends_reply_resp: "appends_reply (command_handler X D V me fast)"
  unfolding appends_reply_def
  by (auto simp: command_handler_def resp_fast_command_def resp_full_command_def Let_def obind_case
      write_response_resp split: outcome.splits)

lemma keeps_buffer_resp: "keeps_buffer (command_handler X D V me fast)"
  by (simp add: command_handler_def keeps_buffer_fast keeps_buffer_full)

context crates_spec
begin

lemma partial_incomplete:
  "partial_frame (resp_frame X) b cs \<Longrightarrow> list_all frame_fits cs \<Longrightarrow> try_parse_frame X b = Inr Incomplete"
  by (auto simp: partial_frame_def intro: frame_prefix_incomplete)

lemma frames_star:
  assumes "partial_frame (resp_frame X) rest vs" and "frames X us @ rest \<noteq> []"
  shows "is_resp_batch (frames X us @ rest)"
proof (cases us)
  case Nil
  with assms obtain c where "strict_prefix rest (resp_frame X c)" "rest \<noteq> []" by (auto simp: partial_frame_def)
  with Nil resp_frame_star [of X c] show ?thesis by (cases rest) (auto simp: is_resp_batch_def)
next
  case (Cons c us')
  with resp_frame_star [of X c] show ?thesis by (auto simp: is_resp_batch_def)
qed

end

sublocale crates_spec \<subseteq> resp_stream: framed_stream "resp_frame X" frame_fits "command_handler X D V me fast"
    "path_ready me fast" "batch_handler X D V me fast"
  for D :: "'m entries" and V :: surroundings and me :: bool and fast :: bool
proof (unfold_locales, goal_cases)
  case (2 us vs rest st)
  have "list_all frame_fits us" "try_parse_frame X rest = Inr Incomplete" "is_resp_batch (frames X us @ rest)"
    using 2 partial_incomplete frames_star by auto
  from batch_frames [OF this, of fast st me D V] 2(4) command_handler_answers [OF 2(4), of X D V us] show ?case
    by (auto simp: path_ready_def obind_case split: outcome.splits)
next
  case (5 st c st')
  then show ?case
    by (auto simp: path_ready_def command_handler_def resp_fast_command_def Let_def obind_eq_Ret_iff)
qed (simp_all add: keeps_buffer_resp appends_reply_resp path_ready_def)

context crates_spec
begin

lemma answers_output_fits:
  assumes "answer_all X D V me (served st) cs (counters st) (store st) = Ret (rs, m, e)"
    and "replies_fit X cs rs" and "path_ready me fast st"
  shows "output_fits (resp_frame X) (command_handler X D V me fast) cs st"
  unfolding output_fits_def
proof (intro allI impI)
  fix us ws vs st1 st2
  assume cs: "cs = us @ ws @ vs" and us: "run_all (command_handler X D V me fast) us st = Ret st1"
    and ws: "run_all (command_handler X D V me fast) ws (st1\<lparr>write_buf := []\<rparr>) = Ret st2"
    and len: "length (frames X ws) \<le> max_read_buf"
  obtain rs1 m1 e1 where us1: "answer_all X D V me (served st) us (counters st) (store st) = Ret (rs1, m1, e1)"
      "st1 = answered X V us rs1 m1 e1 st"
    using us command_handler_answers [OF assms(3), of X D V us] by (auto simp: obind_eq_Ret_iff)
  have "path_ready me fast (st1\<lparr>write_buf := []\<rparr>)"
    using assms(3) us1(2) by (auto simp: path_ready_def answered_def)
  from command_handler_answers [OF this, of X D V ws] ws us1(2) obtain rs2 m2 e2 where
    ws2: "answer_all X D V me (served st + length us) ws m1 e1 = Ret (rs2, m2, e2)" "write_buf st2 = replies X rs2"
    by (auto simp: obind_eq_Ret_iff answered_def)
  obtain rs3 where rs: "rs = rs1 @ rs2 @ rs3"
    using assms(1) us1(1) ws2(1) unfolding cs answer_all_append by (auto simp: obind_eq_Ret_iff)
  have l: "length rs1 = length us" "length rs2 = length ws"
    using us1(1) ws2(1) by (auto dest: answer_all_length)
  have "subslice (length us) (length us + length ws) cs = ws" "subslice (length us) (length us + length ws) rs = rs2"
    using l by (simp_all add: subslice_def cs rs)
  with assms(2) len ws2(2) show "length (write_buf st2) \<le> max_write_buf"
    unfolding replies_fit_def by metis
qed

lemma session_loop_answers:
  assumes "list_all frame_fits cs" and "concat chunks = frames X cs"
    and "[] \<notin> set chunks" and "read_buf st = []" and "write_buf st = []"
    and "requests_fit X cs chunks" and "path_ready me fast st"
    and "answer_all X D V me (served st) cs (counters st) (store st) = Ret (rs, m, e)"
    and "replies_fit X cs rs"
  shows "session_loop (batch_handler X D V me fast) (map (\<lambda>b. (ReadOk b, WriteOk)) chunks) st =
    Some (Ret (Next (flushed_session st [] (answered X V cs rs m e st))))"
  using assms answers_output_fits [OF assms(8,9,7)] command_handler_answers [OF assms(7), of X D V cs]
  by (intro resp_stream.session_chunks) (simp_all add: partial_frame_def)

end

lemma handle_session_chunks:
  assumes "crates_spec X" and "list_all frame_fits cs" and "concat chunks = frames X cs"
    and "[] \<notin> set chunks" and "read_buf st = []" and "write_buf st = []"
    and "requests_fit X cs chunks"
    and "answer_all X D V me (served st) cs
           (if me then connection_opened (counters st) else counters st) (store st) = Ret (rs, m, e)"
    and "replies_fit X cs rs"
  shows "handle_session X D V wt me (map (\<lambda>b. (ReadOk b, WriteOk)) chunks) st =
    Some (Ret (Next (st\<lparr>store := e, counters := m, aof := log_all V (served st) (zip cs rs) (aof st),
      sent := sent st @ replies X rs, served := served st + length cs\<rparr>)))"
proof -
  let ?st = "if me then st\<lparr>counters := connection_opened (counters st)\<rparr> else st"
  have "session_loop (batch_handler X D V me fast) (map (\<lambda>b. (ReadOk b, WriteOk)) chunks) ?st =
      Some (Ret (Next (flushed_session ?st [] (answered X V cs rs m e ?st))))" if "fast \<Longrightarrow> aof st = None \<and> \<not> me" for fast
    using that assms by (intro crates_spec.session_loop_answers) (auto simp: path_ready_def)
  from this [of False] this [of True] show ?thesis
    using assms(5,6)
    by (auto simp: handle_session_def handle_session_fast_def handle_session_full_def batch_handler_def
        Let_def flushed_session_def answered_def)
qed

text \<open>
  (C1) A session answers a stream of RESP commands in order, whatever the chunks in which the
  network delivers it: every command is dispatched exactly once, in the order of the stream,
  on the state its predecessors left; the client receives exactly the responses, in order,
  and the log takes the successful writes. This holds on the fast and on the full path, with
  and without metrics and log, as long as the buffer limits are respected.
\<close>

theorem session_answers_in_order:
  assumes "crates_spec X" and "list_all frame_fits cs" and "concat chunks = frames X cs"
    and "[] \<notin> set chunks" and "read_buf st = []" and "write_buf st = []"
    and "requests_fit X cs chunks"
    and "answer_all X D V me (served st) cs
           (if me then connection_opened (counters st) else counters st) (store st) = Ret (rs, m, e)"
    and "replies_fit X cs rs"
  shows "handle_session X D V wt me (map (\<lambda>b. (ReadOk b, WriteOk)) chunks) st =
    Some (Ret (Next (st\<lparr>store := e, counters := m, aof := log_all V (served st) (zip cs rs) (aof st),
      sent := sent st @ replies X rs, served := served st + length cs\<rparr>)))"
  using assms by (rule handle_session_chunks)

definition demo_session :: "(key, value_entry) alist session" where
  "demo_session = \<lparr>read_buf = [], write_buf = [], store = demo_engine 0 [], counters = metrics_init 0,
     aof = None, sent = [], served = 0\<rparr>"

definition demo_surroundings :: surroundings where
  "demo_surroundings = \<lparr>clock_at = (\<lambda>_ _. 5), log_clock_at = (\<lambda>_ _. 5), disk_at = (\<lambda>_ _. None),
     thread_at = (\<lambda>_. 0)\<rparr>"

definition demo_requests :: "command list" where
  "demo_requests = [CSet ''k'' ''1'' None, CIncr ''k'']"

lemma demo_answers:
  "answer_all reference_crates alist_dashmap demo_surroundings False 0 demo_requests m (demo_engine 0 []) =
     Ret ([Ok, Integer 2], m, demo_engine 0 [(''k'', demo_entry ''2'' None 5)])"
proof -
  have s: "engine_set alist_dashmap (\<lambda>_. 5) (demo_engine 0 []) ''k'' (demo_entry ''1'' None 5) =
      (Inr (), demo_engine 0 [(''k'', demo_entry ''1'' None 5)])"
    by code_simp
  have i: "engine_incr reference_crates alist_dashmap (\<lambda>_. 5) (demo_engine 0 [(''k'', demo_entry ''1'' None 5)]) ''k'' =
      Ret (Inr 2, demo_engine 0 [(''k'', demo_entry ''2'' None 5)])"
    by code_simp
  have "value_entry_new (\<lambda>_. 5) ''1'' = demo_entry ''1'' None 5"
    by (simp add: value_entry_new_def demo_entry_def)
  with s i show ?thesis
    by (simp add: demo_requests_def demo_surroundings_def set_entry_def dashmap_engine_def)
qed

lemma replies_fit_total:
  assumes "length (replies X rs) \<le> max_write_buf"
  shows "replies_fit X cs rs"
proof -
  have "length (replies X (subslice i j rs)) \<le> length (replies X rs)" for i j
  proof -
    have "rs = take i rs @ subslice i j rs @ drop (j - i) (drop i rs)"
      unfolding subslice_def by (simp only: append_take_drop_id)
    then have "replies X rs = replies X (take i rs) @ replies X (subslice i j rs) @ replies X (drop (j - i) (drop i rs))"
      by (metis replies_simps(3))
    then show ?thesis by simp
  qed
  with assms show ?thesis by (meson le_trans replies_fit_def)
qed

theorem session_answers_in_order_witness:
  "handle_session reference_crates alist_dashmap demo_surroundings 0 False
     (map (\<lambda>b. (ReadOk b, WriteOk))
       [take 5 (frames reference_crates demo_requests), drop 5 (frames reference_crates demo_requests)])
     demo_session =
   Some (Ret (Next (demo_session\<lparr>store := demo_engine 0 [(''k'', demo_entry ''2'' None 5)],
     sent := ''+OK'' @ crlf @ '':2'' @ crlf, served := 2\<rparr>)))"
proof -
  let ?f = "frames reference_crates demo_requests"
  have l: "length ?f = 48" "length (resp_frame reference_crates (CSet ''k'' ''1'' None)) = 27"
    "length (resp_frame reference_crates (CIncr ''k'')) = 21"
    by (simp_all add: demo_requests_def resp_frame_def write_array_def write_bulk_def crlf_def
        reference_crates.itoa_decimal show_int_def show_nat.simps)
  have r: "replies reference_crates [Ok, Integer 2] = ''+OK'' @ crlf @ '':2'' @ crlf"
    by code_simp
  have f: "list_all frame_fits demo_requests"
    by (simp add: demo_requests_def frame_fits_def)
  have q: "requests_fit reference_crates demo_requests [take 5 ?f, drop 5 ?f]"
    using l by (simp add: chunks_fit_def demo_requests_def max_read_buf_def)
  have "[] \<notin> set [take 5 ?f, drop 5 ?f]" using l(1) by auto
  from session_answers_in_order [OF reference_crates.crates_spec_axioms f _ this _ _ q, of demo_session
      alist_dashmap demo_surroundings False "[Ok, Integer 2]" "metrics_init 0"
      "demo_engine 0 [(''k'', demo_entry ''2'' None 5)]" 0] show ?thesis
    using demo_answers [of "metrics_init 0"] replies_fit_total [of reference_crates "[Ok, Integer 2]"] r
    by (simp add: demo_session_def max_write_buf_def crlf_def demo_requests_def del: stream_simps replies_simps)
qed

theorem session_batch_ends_witness:
  "fast_batch reference_crates alist_dashmap demo_surroundings (demo_session\<lparr>read_buf := ''*x''\<rparr>) \<noteq> None \<and>
   full_batch reference_crates alist_dashmap demo_surroundings True (demo_session\<lparr>read_buf := ''*x''\<rparr>) \<noteq> None"
  by (rule session_batch_ends [OF reference_crates.crates_spec_axioms])

end
