(* ===== verification/Durability.thy ===== *)
theory Durability
  imports Session_Props
begin

text \<open>
  What a restart recovers of a session. Commands without expiry act on the data of the
  store alone, as a function of the data; so executing the logged commands again, at any
  later time, gives the same data.
\<close>

section \<open>Commands on the data of a store\<close>

fun apply_data :: "command \<Rightarrow> (key \<Rightarrow> bytes option) \<Rightarrow> key \<Rightarrow> bytes option" where
  "apply_data (CSet k v ttl) dv = dv(k \<mapsto> v)"
| "apply_data (CDel k) dv = dv(k := None)"
| "apply_data (CIncr k) dv =
     (case dv k of
        None \<Rightarrow> dv(k \<mapsto> ''1'')
      | Some d \<Rightarrow> (case parse_i64 (from_utf8_lossy d) of
                     None \<Rightarrow> dv
                   | Some z \<Rightarrow> dv(k \<mapsto> show_int (wrap_i64 (z + 1)))))"
| "apply_data CFlushDb dv = Map.empty"
| "apply_data (CMset ps) dv = (\<lambda>k. case map_of (rev ps) k of Some v \<Rightarrow> Some v | None \<Rightarrow> dv k)"
| "apply_data _ dv = dv"

fun no_expiry :: "command \<Rightarrow> bool" where
  "no_expiry (CSet k v ttl) = (ttl = None)"
| "no_expiry (CExpire k n) = False"
| "no_expiry _ = True"

lemma no_expiry_in_time: "no_expiry c \<Longrightarrow> in_time clk c"
  by (cases "(clk, c)" rule: in_time.cases) auto

text \<open>From the time \<open>t0\<close> on, a view shows the same data.\<close>

definition steady :: "instant \<Rightarrow> view \<Rightarrow> (key \<Rightarrow> bytes option) \<Rightarrow> bool" where
  "steady t0 V dv \<longleftrightarrow> (\<forall>t \<ge> t0. \<forall>k. map_option data (V t k) = dv k)"

lemma steady_later: "steady t0 V dv \<Longrightarrow> t0 \<le> t1 \<Longrightarrow> steady t1 V dv"
  by (auto simp: steady_def)

context kv_engine_spec
begin

lemma steady_not_expired:
  assumes "steady t0 (view s) dv" and "t0 \<le> u" and "u \<le> t" and "view s u k = Some v"
  shows "\<not> is_expired_at v t"
proof -
  have "map_option data (view s t k) = map_option data (view s u k)"
    using assms(1-3) by (simp add: steady_def)
  moreover have "view s t k = live_at v t" using view_later [OF assms(3), of s k] assms(4) by simp
  ultimately show ?thesis using assms(4) by (auto simp: live_at_def split: if_splits)
qed

lemma steady_effect:
  assumes "steady t0 (view s) dv" and "t0 \<le> clk 0" and "no_expiry c"
    and "takes_effect clk (view s) c V'"
  shows "steady (clk 0) V' (apply_data c dv)"
proof -
  have dv: "map_option data (view s t k) = dv k" if "clk 0 \<le> t" for t k
    using assms(1,2) that by (simp add: steady_def)
  show ?thesis
  proof (cases c)
    case (CIncr k)
    then obtain c0 where V': "\<forall>t \<ge> clk 0. V' t =
        (view s t)(k := Option.bind (snd (spec_incr k (view s (clk 0) k) c0)) (\<lambda>v. live_at v t))"
      using assms(4) by auto
    show ?thesis
    proof (cases "view s (clk 0) k")
      case None
      with V' CIncr dv [of "clk 0" k] dv show ?thesis
        by (auto simp: steady_def spec_incr_def live_at_def is_expired_at_def)
    next
      case (Some v)
      have alive: "\<not> is_expired_at v t" "\<not> is_expired_at (v\<lparr>data := d\<rparr>) t" if "clk 0 \<le> t" for t d
        using steady_not_expired [OF assms(1,2) that Some] by (simp_all add: is_expired_at_def)
      have "dv k = Some (data v)" using dv [of "clk 0" k] Some by simp
      with V' CIncr Some dv alive show ?thesis
        by (auto simp: steady_def spec_incr_def live_at_def split: option.splits)
    qed
  qed (use assms(3,4) dv in \<open>auto simp: steady_def set_entry_def split: option.splits\<close>)
qed

lemma failed_keeps_data:
  assumes "answers i m n clk (view s) c r" and "\<not> is_success r" and "steady t0 (view s) dv" and "t0 \<le> clk 0"
  shows "apply_data c dv = dv"
proof (cases c)
  case (CIncr k)
  have "dv k = map_option data (view s (clk 0) k)" using assms(3,4) by (simp add: steady_def)
  with CIncr assms(1,2) show ?thesis
    by (auto simp: incr_answer_def spec_incr_def split: option.splits)
qed (use assms(1,2) in auto)

end

lemma read_keeps_data: "\<not> is_write c \<Longrightarrow> apply_data c dv = dv"
  by (cases c) auto

section \<open>Sequences of commands\<close>

text \<open>The writes of a stream that were answered with success.\<close>

definition acknowledged :: "(command \<times> response) list \<Rightarrow> command list" where
  "acknowledged crs = map fst (filter (\<lambda>(c, r). is_write c \<and> is_success r) crs)"

lemma acknowledged_simps [simp]:
  "acknowledged [] = []"
  "acknowledged ((c, r) # crs) = (if is_write c \<and> is_success r then c # acknowledged crs else acknowledged crs)"
  by (simp_all add: acknowledged_def)

lemma set_acknowledged: "set (acknowledged crs) \<subseteq> fst ` set crs"
  by (auto simp: acknowledged_def)

text \<open>The clocks of consecutive commands, each monotone and none before the last.\<close>

definition clocks_advance :: "(nat \<Rightarrow> clock) \<Rightarrow> bool" where
  "clocks_advance clks \<longleftrightarrow> (\<forall>n. mono (clks n) \<and> clks n 0 \<le> clks (Suc n) 0)"

context kv_engine_spec
begin

lemma dispatch_steady:
  assumes "ok s" and "clocks_advance clks" and "no_expiry c" and "steady (clks n 0) (view s) dv"
  shows "\<exists>r s'. dispatch K i (clks n) m c s = Ret (r, s') \<and> ok s' \<and>
    steady (clks (Suc n) 0) (view s') (apply_data c dv) \<and>
    apply_data c dv = (if is_write c \<and> is_success r then apply_data c dv else dv)"
proof -
  have mono: "mono (clks n)" and step: "clks n 0 \<le> clks (Suc n) 0"
    using assms(2) by (simp_all add: clocks_advance_def)
  obtain r s' where r: "dispatch K i (clks n) m c s = Ret (r, s')" "ok s'"
      "answers i m (card (held s)) (clks n) (view s) c r" "takes_effect (clks n) (view s) c (view s')"
    using dispatch_law [OF assms(1) mono no_expiry_in_time [OF assms(3)]] by blast
  have "steady (clks n 0) (view s') (apply_data c dv)"
    using steady_effect [OF assms(4) _ assms(3) r(4)] by simp
  then have "steady (clks (Suc n) 0) (view s') (apply_data c dv)" using step by (rule steady_later)
  with r failed_keeps_data [OF r(3) _ assms(4)] read_keeps_data [of c dv] show ?thesis by auto
qed

lemma execute_all_steady:
  assumes "clocks_advance clks" and "list_all no_expiry cs" and "ok s" and "steady (clks n 0) (view s) dv"
  shows "\<exists>s'. execute_all K clks n cs s = Ret s' \<and> ok s' \<and>
    steady (clks (n + length cs) 0) (view s') (fold apply_data cs dv)"
  using assms(2-4)
proof (induction cs arbitrary: n s dv)
  case (Cons c cs)
  obtain r s' where "dispatch K 0 (clks n) (metrics_init 0) c s = Ret (r, s')" "ok s'"
      "steady (clks (Suc n) 0) (view s') (apply_data c dv)"
    using dispatch_steady [where s = s and clks = clks and n = n and c = c and dv = dv] assms(1) Cons.prems
    by (auto simp: list_all_iff) blast
  with Cons.IH [of s' "n + 1" "apply_data c dv"] Cons.prems show ?case by (auto simp: execute_def)
qed simp

end

lemma answer_all_steady:
  assumes "zet_engine D X" and "clocks_advance (clock_at V)"
    and "list_all no_expiry cs" and "max_keys e = 0" and "steady (clock_at V n 0) (live D e) dv"
  shows "\<exists>rs m' e'. answer_all X D V me n cs m e = Ret (rs, m', e') \<and>
    steady (clock_at V (n + length cs) 0) (live D e') (fold apply_data (acknowledged (zip cs rs)) dv)"
  using assms(3-5)
proof (induction cs arbitrary: n e m dv)
  case (Cons c cs)
  note contract = zet_engine.contract [OF assms(1)]
  obtain r e1 where r: "dispatch (dashmap_engine X D) (thread_at V n) (clock_at V n) m c e = Ret (r, e1)"
      "max_keys e1 = 0" "steady (clock_at V (Suc n) 0) (live D e1) (apply_data c dv)"
      "apply_data c dv = (if is_write c \<and> is_success r then apply_data c dv else dv)"
    using kv_engine_spec.dispatch_steady [OF contract, where s = e and clks = "clock_at V" and n = n and c = c
        and dv = dv and i = "thread_at V n" and m = m] assms(2) Cons.prems by (auto simp: list_all_iff)
  let ?m = "if me then record_response (thread_at V n) (command_type_of c) r m else m"
  obtain rs m' e' where "answer_all X D V me (Suc n) cs ?m e1 = Ret (rs, m', e')"
      "steady (clock_at V (Suc n + length cs) 0) (live D e')
         (fold apply_data (acknowledged (zip cs rs)) (apply_data c dv))"
    using Cons.IH [of e1 "Suc n" "apply_data c dv" ?m] Cons.prems r(2,3) by (auto simp: list_all_iff)
  with r show ?case by (auto split: if_splits)
qed simp

section \<open>Log and recovery\<close>

lemma to_aof_entry_write: "is_write c \<Longrightarrow> to_aof_entry c = Some (log_entry c)"
  by (cases c) (simp_all add: log_entry_def)

lemma log_of_simps [simp]: "log_of [] = []" "log_of (c # cs) = log_entry c @ log_of cs"
  by (simp_all add: log_of_def)

text \<open>Below the size of a batch, the log is the acknowledged writes in order.\<close>

lemma log_all_batch:
  "length (batch w @ log_of (acknowledged crs)) < aof_batch_size \<Longrightarrow>
   log_all V n crs (Some w) = Some (w\<lparr>batch := batch w @ log_of (acknowledged crs)\<rparr>)"
proof (induction crs arbitrary: w n)
  case (Cons p crs)
  obtain c r where p: "p = (c, r)" by (cases p)
  show ?case
  proof (cases "is_write c \<and> is_success r")
    case True
    let ?w = "w\<lparr>batch := batch w @ log_entry c\<rparr>"
    have "append_raw (log_clock_at V n) (disk_at V n) (log_entry c) w = (True, ?w)"
      using Cons.prems p True by (simp add: append_raw_def)
    with Cons.IH [of ?w "Suc n"] Cons.prems p True show ?thesis
      by (simp add: log_write_def to_aof_entry_write)
  next
    case False
    with Cons p show ?thesis by (auto simp: log_write_def split: option.splits)
  qed
qed simp

text \<open>
  Beyond the size of a batch, the entry that fills a batch is in the log twice. The first
  argument is what the batch holds already.
\<close>

fun log_sequence :: "nat \<Rightarrow> command list \<Rightarrow> command list" where
  "log_sequence n [] = []"
| "log_sequence n (c # cs) =
     (if n + length (log_entry c) < aof_batch_size then c # log_sequence (n + length (log_entry c)) cs
      else c # c # log_sequence 0 cs)"

lemma set_log_sequence [simp]: "set (log_sequence n cs) = set cs"
  by (induction n cs rule: log_sequence.induct) auto

lemma log_sequence_batch: "n + length (log_of cs) < aof_batch_size \<Longrightarrow> log_sequence n cs = cs"
  by (induction n cs rule: log_sequence.induct) auto

lemma log_all_sequence:
  assumes "detached w = None" and "\<And>n. disk_at V n = (\<lambda>_. None)"
  shows "\<exists>w'. log_all V n crs (Some w) = Some w' \<and> detached w' = None \<and>
    logged_bytes w' = logged_bytes w @ log_of (log_sequence (length (batch w)) (acknowledged crs))"
  using assms(1)
proof (induction crs arbitrary: w n)
  case (Cons p crs)
  obtain c r where p: "p = (c, r)" by (cases p)
  show ?case
  proof (cases "is_write c \<and> is_success r")
    case True
    obtain ok w1 where w1: "append_raw (log_clock_at V n) (\<lambda>_. None) (log_entry c) w = (ok, w1)"
      by (cases "append_raw (log_clock_at V n) (\<lambda>_. None) (log_entry c) w")
    note added = append_raw_logged [OF Cons.prems w1]
    with Cons.IH [of w1 "Suc n"] p True w1 show ?thesis
      by (auto simp: log_write_def to_aof_entry_write assms(2) not_less split: if_splits)
  next
    case False
    with Cons p show ?thesis by (auto simp: log_write_def split: option.splits)
  qed
qed simp

text \<open>Every command but INCR has the same effect on the data when it is executed twice in a row.\<close>

lemma apply_data_twice: "\<forall>k. CIncr k \<noteq> c \<Longrightarrow> apply_data c (apply_data c dv) = apply_data c dv"
  by (cases c) (auto simp: fun_eq_iff split: option.split)

lemma fold_log_sequence:
  "\<forall>k. CIncr k \<notin> set cs \<Longrightarrow> fold apply_data (log_sequence n cs) dv = fold apply_data cs dv"
  by (induction n cs arbitrary: dv rule: log_sequence.induct) (auto simp: apply_data_twice)

text \<open>The two kinds of sessions whose log restores their data.\<close>

lemma log_all_restores:
  assumes "detached w = None" and "logged_bytes w = []"
    and "aof_batch_size \<le> length (log_of (acknowledged crs)) \<longrightarrow>
      (\<forall>k. CIncr k \<notin> set (acknowledged crs)) \<and> (\<forall>n. disk_at V n = (\<lambda>_. None))"
  shows "\<exists>w'. log_all V n crs (Some w) = Some w' \<and> detached w' = None \<and>
    logged_bytes w' = log_of (log_sequence 0 (acknowledged crs)) \<and>
    fold apply_data (log_sequence 0 (acknowledged crs)) dv = fold apply_data (acknowledged crs) dv"
proof (cases "aof_batch_size \<le> length (log_of (acknowledged crs))")
  case True
  with assms log_all_sequence [OF assms(1), of V n crs] fold_log_sequence [of "acknowledged crs" 0 dv]
  show ?thesis by (auto simp: logged_bytes_def)
next
  case False
  with assms(1,2) log_all_batch [of w crs V n] log_sequence_batch [of 0 "acknowledged crs"] show ?thesis
    by (auto simp: logged_bytes_def)
qed

lemma aof_flush_file:
  assumes "detached w = None"
  shows "on_path (snd (aof_flush (\<lambda>_. None) w)) = on_path w @ batch w"
  using assms by (simp add: aof_flush_def write_batch_ok sync_all_def)

text \<open>
  (C8) An orderly restart loses nothing of a RESP session that starts on an empty store with
  an empty log and sets no expiry: it answers all commands, and once the log is flushed, as
  the server does at shutdown, replaying it into an empty engine at any later time restores
  for every key exactly the data that the store held when the session had ended. This holds
  for a log below the size of a batch, 4096 bytes; and for a log of any size if the session
  has no INCR and the disk does not fail, since beyond a batch some entries are logged twice,
  which only an INCR can tell.
\<close>

theorem session_log_recovers:
  assumes "zet_engine D X" and "list_all frame_fits cs" and "list_all no_expiry cs"
    and "concat chunks = frames X cs" and "[] \<notin> set chunks" and "requests_fit X cs chunks"
    and "read_buf st = []" and "write_buf st = []" and "store st = engine_new D"
    and "aof st = Some w" and "on_path w = []" and "batch w = []" and "detached w = None"
    and "clocks_advance (clock_at V)" and "clocks_advance clks"
    and "answer_all X D V me (served st) cs
           (if me then connection_opened (counters st) else counters st) (store st) = Ret (rs, m, e)"
    and "replies_fit X cs rs"
    and "list_all loggable (acknowledged (zip cs rs))"
    and "aof_batch_size \<le> length (log_of (acknowledged (zip cs rs))) \<longrightarrow>
           (\<forall>k. CIncr k \<notin> set cs) \<and> (\<forall>n. disk_at V n = (\<lambda>_. None))"
    and "logged = log_sequence 0 (acknowledged (zip cs rs))"
  shows "\<exists>st' w' e'.
    handle_session X D V wt me (map (\<lambda>b. (ReadOk b, WriteOk)) chunks) st = Some (Ret (Next st')) \<and>
    aof st' = Some w' \<and> sent st' = sent st @ replies X rs \<and>
    replay_aof (dashmap_engine X D) clks (Contents (on_path (snd (aof_flush (\<lambda>_. None) w')))) (engine_new D) =
      Ret (Some (length logged), e') \<and>
    (\<forall>t \<ge> clock_at V (served st + length cs) 0. \<forall>t' \<ge> clks (length logged) 0. \<forall>k.
       map_option data (live D e' t' k) = map_option data (live D (store st') t k))"
proof -
  let ?acks = "acknowledged (zip cs rs)"
  have X: "crates_spec X" using assms(1) by (simp add: zet_engine_def)
  have new: "max_keys (engine_new D) = 0" by (simp add: engine_new_def)
  have empty: "steady t0 (live D (engine_new D)) Map.empty" for t0
    by (simp add: steady_def zet_engine.live_new [OF assms(1)])
  have acks: "set ?acks \<subseteq> set cs" using set_acknowledged [of "zip cs rs"] by (fastforce dest: set_zip_leftD)
  obtain w' where w': "log_all V (served st) (zip cs rs) (Some w) = Some w'" "detached w' = None"
      "logged_bytes w' = log_of logged" "fold apply_data logged Map.empty = fold apply_data ?acks Map.empty"
    using log_all_restores [OF assms(13), of "zip cs rs" V "served st" Map.empty] assms(11,12,19,20) acks
    by (auto simp: logged_bytes_def)
  have session: "handle_session X D V wt me (map (\<lambda>b. (ReadOk b, WriteOk)) chunks) st =
      Some (Ret (Next (st\<lparr>store := e, counters := m, aof := Some w', sent := sent st @ replies X rs,
        served := served st + length cs\<rparr>)))"
    using handle_session_chunks [OF X assms(2,4,5,7,8,6,16,17)] w'(1) assms(10) by simp
  have live: "steady (clock_at V (served st + length cs) 0) (live D e) (fold apply_data ?acks Map.empty)"
    using answer_all_steady [OF assms(1,14,3) new empty, where n = "served st" and me = me
        and m = "if me then connection_opened (counters st) else counters st"] assms(16) [unfolded assms(9)]
    by auto
  have "list_all no_expiry logged" and log: "list_all loggable logged"
    using assms(3,18,20) acks by (auto simp: list_all_iff)
  then obtain e' where e': "execute_all (dashmap_engine X D) clks 0 logged (engine_new D) = Ret e'"
      "steady (clks (length logged) 0) (live D e') (fold apply_data logged Map.empty)"
    using kv_engine_spec.execute_all_steady [OF zet_engine.contract [OF assms(1)] assms(15) _ new empty,
        of logged 0] by auto
  have content: "on_path (snd (aof_flush (\<lambda>_. None) w')) = log_of logged"
    using aof_flush_file [OF w'(2)] w'(3) by (simp add: logged_bytes_def)
  have "replay_aof (dashmap_engine X D) clks (Contents (log_of logged)) (engine_new D) = Ret (Some (length logged), e')"
    using replay_aof_log [OF assms(1) new _ log, of clks CFlushDb 0] assms(15) e'(1)
    by (simp add: clocks_advance_def log_entry_def)
  with session live e'(2) content w'(4) show ?thesis by (auto simp: steady_def)
qed

definition demo_logged_session :: "(key, value_entry) alist session" where
  "demo_logged_session = demo_session\<lparr>store := engine_new alist_dashmap, aof := Some (demo_writer [])\<rparr>"

lemma demo_new: "engine_new alist_dashmap = demo_engine 0 []"
  by code_simp

theorem session_log_recovers_witness:
  "\<exists>st' w' e'.
    handle_session reference_crates alist_dashmap demo_surroundings 0 False
      (map (\<lambda>b. (ReadOk b, WriteOk)) [frames reference_crates demo_requests]) demo_logged_session =
      Some (Ret (Next st')) \<and>
    aof st' = Some w' \<and> sent st' = replies reference_crates [Ok, Integer 2] \<and>
    replay_aof (dashmap_engine reference_crates alist_dashmap) (\<lambda>_ _. 100)
      (Contents (on_path (snd (aof_flush (\<lambda>_. None) w')))) (engine_new alist_dashmap) = Ret (Some 2, e') \<and>
    (\<forall>t \<ge> 5. \<forall>t' \<ge> 100. \<forall>k.
       map_option data (live alist_dashmap e' t' k) = map_option data (live alist_dashmap (store st') t k))"
proof -
  have k: "valid_utf8 ''k''" by code_simp
  have acks: "acknowledged (zip demo_requests [Ok, Integer 2]) = demo_requests"
    by (simp add: demo_requests_def)
  have fits: "list_all frame_fits demo_requests" "list_all no_expiry demo_requests"
    "list_all loggable demo_requests" "length (log_of demo_requests) < aof_batch_size"
    using k by (simp_all add: demo_requests_def frame_fits_def log_key_def log_value_def log_entry_def
        aof_batch_size_def)
  have q: "requests_fit reference_crates demo_requests [frames reference_crates demo_requests]"
    by (simp add: chunks_fit_def demo_requests_def max_read_buf_def resp_frame_def write_array_def
        write_bulk_def crlf_def reference_crates.itoa_decimal show_int_def show_nat.simps)
  have ne: "[] \<notin> set [frames reference_crates demo_requests]"
    by (auto simp: demo_requests_def)
  have r: "replies_fit reference_crates demo_requests [Ok, Integer 2]"
    by (rule replies_fit_total) (simp add: reference_crates.itoa_decimal show_int_def show_nat.simps
        max_write_buf_def crlf_def)
  have "clocks_advance (clock_at demo_surroundings)" "clocks_advance (\<lambda>_ _. 100)"
    by (simp_all add: clocks_advance_def demo_surroundings_def mono_def)
  note * = session_log_recovers [OF reference_engine.zet_engine_axioms fits(1,2) _ ne q _ _ _ _ _ _ _ this,
      of demo_logged_session "demo_writer []" False "[Ok, Integer 2]" "metrics_init 0"
        "demo_engine 0 [(''k'', demo_entry ''2'' None 5)]" demo_requests 0]
  have "log_sequence 0 demo_requests = demo_requests" using fits(4) by (simp add: log_sequence_batch)
  then show ?thesis
    using * demo_answers [of "metrics_init 0"] r fits acks
    by (simp add: demo_logged_session_def demo_session_def demo_writer_def demo_new demo_requests_def
        demo_surroundings_def numeral_2_eq_2 del: stream_simps(2) replies_simps log_sequence.simps)
qed

end
