(* ===== verification/Session_Faults.thy ===== *)
theory Session_Faults
  imports Durability
begin

text \<open>
  Sessions on input that the frames of the previous theories do not produce: an empty RESP
  array, a line that is a bare LF, a failing write on the inline protocol, and a bad line
  behind a good one on the fast path.
\<close>

section \<open>An empty array\<close>

lemma empty_array_parses:
  assumes "crates_spec X"
  shows "try_parse_frame X (''*0'' @ crlf @ rest) = Inl PE_EmptyCommand"
proof -
  have m: "memchr X (CHR 0x0A) ([CHR ''*'', CHR ''0'', CHR 0x0D] @ CHR 0x0A # rest) = Some 3"
    using crates_spec.memchr_append [OF assms, of "CHR 0x0A" "[CHR ''*'', CHR ''0'', CHR 0x0D]" rest] by simp
  have n: "resp_number ''0'' = Inr 0" by code_simp
  show ?thesis
    using m n by (simp add: try_parse_frame_def parse_resp_frame_def read_resp_line_int_def crlf_def
        subslice_def Let_def)
qed

definition pass_state :: "'s pass \<Rightarrow> 's" where
  "pass_state p = (case p of Next s \<Rightarrow> s | Break s \<Rightarrow> s)"

lemma pass_state_simps [simp]: "pass_state (Next s) = s" "pass_state (Break s) = s"
  by (simp_all add: pass_state_def)

text \<open>
  (C38) An empty RESP array blocks a connection for good: once the buffer starts with
  \<open>*0\<close>, whatever the client sends afterwards is neither executed nor answered, until the
  session ends (at the latest when the buffer is full).
\<close>

theorem session_empty_array_stalls:
  assumes "crates_spec X" and "read_buf st = ''*0'' @ crlf @ rest" and "write_buf st = []"
    and "handle = fast_batch X D V \<or> handle = full_batch X D V me"
  shows "\<exists>p. session_loop handle evs st = Some (Ret p) \<and>
    sent (pass_state p) = sent st \<and> store (pass_state p) = store st \<and> aof (pass_state p) = aof st"
  using assms(2,3)
proof (induction evs arbitrary: st rest)
  case (Cons ev evs)
  obtain r w where ev: "ev = (r, w)" by (cases ev)
  show ?case
  proof (cases r)
    case (ReadOk bs)
    let ?st = "st\<lparr>read_buf := ''*0'' @ crlf @ rest @ bs\<rparr>"
    have "resp_pass X run ?st = Ret (Break ?st)" for run
      using empty_array_parses [OF assms(1), of "rest @ bs"] by (simp add: resp_pass_def)
    then have "handle ?st = Some (Ret ?st)"
      using assms(4) by (auto simp: fast_batch_def full_batch_def is_resp_batch_def repeat_Break)
    with Cons.prems ReadOk ev Cons.IH [of ?st "rest @ bs"] show ?thesis
      by (auto simp: session_round_def send_replies_def Let_def)
  qed (simp_all add: ev session_round_def)
qed simp

theorem session_empty_array_stalls_witness:
  "\<exists>p. session_loop (fast_batch reference_crates alist_dashmap demo_surroundings)
      [(ReadOk (frames reference_crates demo_requests), WriteOk)]
      (demo_session\<lparr>read_buf := ''*0'' @ crlf\<rparr>) = Some (Ret p) \<and>
    sent (pass_state p) = [] \<and> store (pass_state p) = demo_engine 0 []"
  using session_empty_array_stalls [OF reference_crates.crates_spec_axioms, where rest = "[]"
      and st = "demo_session\<lparr>read_buf := ''*0'' @ crlf\<rparr>" and D = alist_dashmap and V = demo_surroundings
      and evs = "[(ReadOk (frames reference_crates demo_requests), WriteOk)]" and me = False]
  by (auto simp: demo_session_def)

section \<open>A bare line feed\<close>

text \<open>
  One byte ends a connection with a panic: an LF sent on an idle connection is taken for
  a line of two bytes, and advancing beyond the end of the buffer panics, on both paths. The
  task ends without the decrement of the connection count.
\<close>

theorem session_lone_lf_panics:
  assumes "crates_spec X" and "read_buf st = []"
  shows "session_round (fast_batch X D V) (ReadOk [CHR 0x0A]) w st = Some Panic \<and>
         session_round (full_batch X D V me) (ReadOk [CHR 0x0A]) w st = Some Panic"
proof -
  let ?st = "st\<lparr>read_buf := [CHR 0x0A]\<rparr>"
  note lf = parse_inline_borrowed_single_lf [OF assms(1)]
  have "repeat_passes (inline_fast_pass X D) (0, ?st) = repeat_passes (inline_fast_pass X D) (2, ?st)"
    by (rule repeat_Next) (simp add: inline_fast_pass_def lf)
  also have "\<dots> = Some Panic" by (rule repeat_Panic) (simp add: inline_fast_pass_def)
  finally have "fast_batch X D V ?st = Some Panic" by (simp add: fast_batch_def is_resp_batch_def)
  moreover have "full_batch X D V me ?st = Some Panic"
    by (simp add: full_batch_def is_resp_batch_def repeat_Panic inline_full_pass_def lf advance_def)
  ultimately show ?thesis
    using assms(2) by (simp add: session_round_def Let_def max_read_buf_def)
qed

theorem session_lone_lf_panics_witness:
  "session_round (fast_batch reference_crates alist_dashmap demo_surroundings) (ReadOk [CHR 0x0A]) WriteOk
     demo_session = Some Panic"
  using session_lone_lf_panics [OF reference_crates.crates_spec_axioms, of demo_session]
  by (simp add: demo_session_def)

section \<open>Failing writes\<close>

text \<open>
  (C39) The log records only successful writes on RESP, but all writes on the inline protocol:
  when the engine answers a write with an error, the RESP command leaves the log alone,
  while the same inline command appends its entry.
\<close>

theorem inline_logs_failed_write:
  assumes "dispatch (dashmap_engine X D) (thread_at V (served st)) (clock_at V (served st)) (counters st)
      (to_owned cmd) (store st) = Ret (Error err, e)"
    and "parsed_is_write cmd" and "aof st = Some w"
  shows "(\<exists>st1. resp_full_command X D V me (to_owned cmd) st = Ret st1 \<and> aof st1 = Some w) \<and>
    (\<exists>st2. inline_full_command X D V me cmd st = Ret st2 \<and>
       aof st2 = Some (snd (append_raw (log_clock_at V (served st)) (disk_at V (served st))
         (log_entry (to_owned cmd)) w)))"
proof -
  have "parsed_to_aof_entry cmd = Some (log_entry (to_owned cmd))"
    using assms(2) by (cases cmd) (simp_all add: parsed_to_aof_entry_def log_entry_def)
  with assms show ?thesis
    by (simp add: resp_full_command_def inline_full_command_def Let_def dispatch_to_buffer_dispatch
        log_write_def split: option.splits)
qed

definition demo_text_session :: "(key, value_entry) alist session" where
  "demo_text_session = demo_logged_session\<lparr>store := demo_engine 0 [(''k'', demo_entry ''x'' None 5)]\<rparr>"

theorem inline_logs_failed_write_witness:
  "(\<exists>st1. resp_full_command reference_crates alist_dashmap demo_surroundings False (CIncr ''k'') demo_text_session =
      Ret st1 \<and> aof st1 = Some (demo_writer [])) \<and>
   (\<exists>st2. inline_full_command reference_crates alist_dashmap demo_surroundings False (PIncr ''k'') demo_text_session =
      Ret st2 \<and> aof st2 = Some (demo_writer (log_entry (CIncr ''k''))))"
proof -
  have "engine_incr reference_crates alist_dashmap (\<lambda>_. 5) (demo_engine 0 [(''k'', demo_entry ''x'' None 5)]) ''k'' =
      Ret (Inl (NotAnInteger ''k''), demo_engine 0 [(''k'', demo_entry ''x'' None 5)])"
    by code_simp
  then have "dispatch (dashmap_engine reference_crates alist_dashmap) 0 (\<lambda>_. 5) m (CIncr ''k'')
      (demo_engine 0 [(''k'', demo_entry ''x'' None 5)]) =
      Ret (Error (TypeError (engine_error_text (NotAnInteger ''k''))),
        demo_engine 0 [(''k'', demo_entry ''x'' None 5)])" for m
    by (simp add: dashmap_engine_def)
  with inline_logs_failed_write [of reference_crates alist_dashmap demo_surroundings demo_text_session "PIncr ''k''"
      "TypeError (engine_error_text (NotAnInteger ''k''))" "demo_engine 0 [(''k'', demo_entry ''x'' None 5)]"
      "demo_writer []" False]
  show ?thesis
    by (simp add: demo_text_session_def demo_logged_session_def demo_session_def demo_surroundings_def
        append_raw_def demo_writer_def aof_batch_size_def log_entry_def aof_key_bytes_def Let_def)
qed

section \<open>A bad line on the fast path\<close>

text \<open>
  On the fast path an error skips a line from the start of the buffer, while the offset that
  counts the handled bytes stays. Behind one good line and one bad line, a good line is
  then cut in the middle and lost, with a second error reply in place of its answer.
\<close>

lemma fast_path_loses_line:
  "map_option (omap (\<lambda>st. (read_buf st, write_buf st)))
     (fast_batch reference_crates alist_dashmap demo_surroundings
       (demo_session\<lparr>store := demo_engine 0 [(''b'', demo_entry ''1'' None 5)],
          read_buf := ''GET a'' @ crlf @ ''NOPE'' @ crlf @ ''GET b'' @ crlf\<rparr>)) =
   Some (Ret ([], null_bulk @ ''-ERR unknown command '' @ quoted ''unknown command'' @ crlf @
     ''-ERR unknown command '' @ quoted ''unknown command'' @ crlf))"
  by code_simp

end
