(* ===== verification/Aof_Faults.thy ===== *)
theory Aof_Faults
  imports Recovery
begin

text \<open>
  A torn MSET entry at the end of the append-only file. The loop over its pairs ends when a
  field is cut off, but replay then goes on at the position it has reached, inside the
  entry, and takes data for commands.
\<close>

lemma take_without_end: "take (length (xs @ ys) - length ys) (xs @ ys) = xs"
  by simp

text \<open>
  (C37) The bytes of a torn MSET are executed as commands: if the file ends inside the value
  of an MSET, right behind a first value byte that is the FLUSHDB code, replay counts two
  commands and clears everything that was loaded before.
\<close>

theorem replay_torn_mset_executes_data:
  assumes "log_key k" and "log_value (CHR 0x05 # v)" and "v \<noteq> []"
    and "entry = log_entry (CMset [(k, CHR 0x05 # v)])"
  shows "replay_aof K clks (Contents (take (length entry - length v) entry)) s = Ret (Some 2, kv_clear K s)"
proof -
  let ?h = "CHR 0x06 # le_bytes 2 1"
  let ?l = "le_bytes 4 (as_u32 (Suc (length v)))"
  let ?d = "?h @ aof_key_bytes k @ ?l @ [CHR 0x05]"
  let ?p = "7 + (2 + length k)"
  have entry: "entry = ?h @ aof_key_bytes k @ ?l @ CHR 0x05 # v"
    using assms(4) by (simp add: log_entry_def aof_pair_bytes_pair aof_value_bytes_def as_u16_def)
  have "take (length (?d @ v) - length v) (?d @ v) = ?d" by (rule take_without_end)
  then have d: "take (length entry - length v) entry = ?d" by (simp add: entry)
  have len: "length ?d = Suc ?p" by simp
  have key: "replay_key ?d 3 = Inr (k, 3 + (2 + length k))"
    using replay_key_take [of 3 ?d "length (aof_key_bytes k @ ?l @ [CHR 0x05])" k "?l @ [CHR 0x05]"] assms(1)
    by (simp add: numeral_3_eq_3)
  have dv: "drop (3 + (2 + length k)) ?d = ?l @ [CHR 0x05]"
    by (simp add: numeral_3_eq_3 aof_key_bytes_def)
  have "from_le ?l = Suc (length v)"
    using assms(2) by (simp add: from_le_le_bytes as_u32_def log_value_def)
  moreover have "subslice (3 + (2 + length k)) (3 + (2 + length k) + 4) ?d = ?l"
    using dv by (simp add: subslice_def)
  ultimately have "read_u32_le ?d (3 + (2 + length k)) = Some (Suc (length v), ?p)"
    using len by (simp add: read_u32_le_def)
  then have val: "replay_value ?d (3 + (2 + length k)) = Inl ?p"
    using len assms(3) by (cases v) (simp_all add: replay_value_def)
  have "from_le (le_bytes 2 1) = 1" by (simp add: from_le_le_bytes)
  moreover have "subslice 1 3 ?d = le_bytes 2 1" by (simp add: subslice_def numeral_2_eq_2 numeral_3_eq_3)
  ultimately have "read_u16_le ?d 1 = Some (1, 3)"
    using len by (simp add: read_u16_le_def numeral_3_eq_3)
  then have one: "replay_entry K clk ?d 0 s = Ret (Some (?p, s))" for clk
    using key val by (simp add: replay_entry_def replay_mset_def)
  have "?d ! ?p = CHR 0x05" using dv by (simp add: nth_append)
  then have two: "replay_entry K clk ?d ?p s = Ret (Some (Suc ?p, kv_clear K s))" for clk
    by (simp add: replay_entry_def)
  have "replay_loop K clks ?d 0 0 s = replay_loop K clks ?d ?p 1 s"
    using one len by (subst replay_loop.simps) simp
  also have "\<dots> = replay_loop K clks ?d (Suc ?p) 2 (kv_clear K s)"
    using two len by (subst replay_loop.simps) (simp add: numeral_2_eq_2)
  also have "\<dots> = Ret (2, kv_clear K s)" using len by (subst replay_loop.simps) simp
  finally show ?thesis by (simp add: replay_aof_def d)
qed

theorem replay_torn_mset_executes_data_witness:
  "replay_aof (dashmap_engine reference_crates alist_dashmap) (\<lambda>_ _. 9)
     (Contents (take 11 (log_entry (CMset [(''k'', CHR 0x05 # ''x'')])))) demo_store =
   Ret (Some 2, engine_clear alist_dashmap demo_store)"
proof -
  have "log_key ''k''" by (simp add: log_key_def) code_simp
  then show ?thesis
    using replay_torn_mset_executes_data [of "''k''" "''x''" "log_entry (CMset [(''k'', CHR 0x05 # ''x'')])"
        "dashmap_engine reference_crates alist_dashmap" "\<lambda>_ _. 9" demo_store]
    by (simp add: log_value_def log_entry_def aof_pair_bytes_pair dashmap_engine_def)
qed

end
