(* ===== verification/Aof_Locks.thy ===== *)
theory Aof_Locks
  imports Aof
begin

text \<open>
  The locks of the log writer (\<open>src/src/storage/aof.rs\<close>). A writer is shared by all
  sessions and two background tasks; its file, its batch buffer and the time of the last
  fsync have a mutex each, and the methods await them one after the other. The model keeps
  of a method the order in which it takes and drops the locks, for each way through it, and
  lets any number of tasks run any of the methods, interleaved at every lock operation.
\<close>

section \<open>The lock operations of the methods\<close>

datatype lock = File_Lock | Batch_Lock | Fsync_Lock

text \<open>The order in which most methods take the locks.\<close>

definition lock_rank :: "lock \<Rightarrow> nat" where
  "lock_rank l = (case l of File_Lock \<Rightarrow> 0 | Batch_Lock \<Rightarrow> 1 | Fsync_Lock \<Rightarrow> 2)"

instantiation lock :: linorder
begin

definition less_eq_lock :: "lock \<Rightarrow> lock \<Rightarrow> bool" where
  "less_eq_lock a b \<longleftrightarrow> lock_rank a \<le> lock_rank b"

definition less_lock :: "lock \<Rightarrow> lock \<Rightarrow> bool" where
  "less_lock a b \<longleftrightarrow> lock_rank a < lock_rank b"

instance
proof
  fix a b :: lock
  assume "a \<le> b" and "b \<le> a"
  then show "a = b" by (cases a; cases b) (simp_all add: less_eq_lock_def lock_rank_def)
qed (auto simp: less_eq_lock_def less_lock_def)

end

lemma finite_locks [simp]: "finite (L :: lock set)"
proof (rule finite_subset)
  show "L \<subseteq> {File_Lock, Batch_Lock, Fsync_Lock}" using lock.exhaust by auto
qed simp

datatype action = Acquire lock | Release lock

definition flush_batch_locks :: "fsync_policy \<Rightarrow> action list" where
  "flush_batch_locks pol =
     [Acquire File_Lock, Acquire Batch_Lock, Release Batch_Lock] @
     (case pol of Everysec \<Rightarrow> [Acquire Fsync_Lock, Release Fsync_Lock] | _ \<Rightarrow> []) @
     [Release File_Lock]"

definition append_raw_locks :: "fsync_policy \<Rightarrow> bool \<Rightarrow> action list" where
  "append_raw_locks pol full =
     [Acquire Batch_Lock, Release Batch_Lock] @ (if full then flush_batch_locks pol else [])"

definition flush_locks :: "action list" where
  "flush_locks = [Acquire File_Lock, Acquire Batch_Lock, Release Batch_Lock, Release File_Lock]"

text \<open>Both branches on the batch take the file while the batch is locked.\<close>

definition flush_if_needed_locks :: "fsync_policy \<Rightarrow> bool \<Rightarrow> action list" where
  "flush_if_needed_locks pol due =
     (case pol of
        Everysec \<Rightarrow>
          [Acquire Fsync_Lock] @
          (if due then [Acquire Batch_Lock, Acquire File_Lock, Release File_Lock, Release Batch_Lock] else []) @
          [Release Fsync_Lock]
      | _ \<Rightarrow> [])"

definition finalize_rewrite_locks :: "action list" where
  "finalize_rewrite_locks = [Acquire File_Lock, Acquire Batch_Lock, Release Batch_Lock, Release File_Lock]"

inductive aof_method :: "fsync_policy \<Rightarrow> action list \<Rightarrow> bool" for pol where
  append_raw: "aof_method pol (append_raw_locks pol full)"
| flush: "aof_method pol flush_locks"
| flush_if_needed: "aof_method pol (flush_if_needed_locks pol due)"
| finalize_rewrite: "aof_method pol finalize_rewrite_locks"

section \<open>Tasks\<close>

record tasks =
  todo :: "nat \<Rightarrow> action list"
  holder :: "lock \<Rightarrow> nat option"

definition idle_tasks :: tasks where
  "idle_tasks = \<lparr>todo = (\<lambda>_. []), holder = (\<lambda>_. None)\<rparr>"

text \<open>A task calls a method, takes a free lock, or drops a lock.\<close>

inductive task_step :: "(action list \<Rightarrow> bool) \<Rightarrow> tasks \<Rightarrow> tasks \<Rightarrow> bool" for prog where
  call: "todo s i = [] \<Longrightarrow> prog p \<Longrightarrow> task_step prog s (s\<lparr>todo := (todo s)(i := p)\<rparr>)"
| acquire: "todo s i = Acquire l # p \<Longrightarrow> holder s l = None \<Longrightarrow>
    task_step prog s (s\<lparr>todo := (todo s)(i := p), holder := (holder s)(l := Some i)\<rparr>)"
| release: "todo s i = Release l # p \<Longrightarrow>
    task_step prog s (s\<lparr>todo := (todo s)(i := p), holder := (holder s)(l := None)\<rparr>)"

inductive task_reachable :: "(action list \<Rightarrow> bool) \<Rightarrow> tasks \<Rightarrow> bool" for prog where
  start: "task_reachable prog idle_tasks"
| step: "task_reachable prog s \<Longrightarrow> task_step prog s s' \<Longrightarrow> task_reachable prog s'"

definition can_run :: "tasks \<Rightarrow> nat \<Rightarrow> bool" where
  "can_run s i = (case todo s i of [] \<Rightarrow> False | Acquire l # p \<Rightarrow> holder s l = None | Release l # p \<Rightarrow> True)"

text \<open>Some task is inside a method, and none of those can go on.\<close>

definition deadlocked :: "tasks \<Rightarrow> bool" where
  "deadlocked s \<longleftrightarrow> (\<exists>i. todo s i \<noteq> []) \<and> (\<forall>i. \<not> can_run s i)"

section \<open>Ordered locks\<close>

text \<open>
  A method that holds the locks \<open>H\<close> follows an order of the locks if it takes only locks
  above those it holds, and has dropped all of them at the end.
\<close>

fun ordered :: "lock set \<Rightarrow> action list \<Rightarrow> bool" where
  "ordered H [] \<longleftrightarrow> H = {}"
| "ordered H (Acquire l # p) \<longleftrightarrow> (\<forall>h \<in> H. h < l) \<and> ordered (insert l H) p"
| "ordered H (Release l # p) \<longleftrightarrow> l \<in> H \<and> ordered (H - {l}) p"

definition held :: "tasks \<Rightarrow> nat \<Rightarrow> lock set" where
  "held s i = {l. holder s l = Some i}"

locale lock_discipline =
  fixes prog :: "action list \<Rightarrow> bool"
  assumes prog_ordered: "prog p \<Longrightarrow> ordered {} p"
begin

lemma step_ordered:
  assumes "task_step prog s s'" and "\<forall>i. ordered (held s i) (todo s i)"
  shows "\<forall>i. ordered (held s' i) (todo s' i)"
  using assms(1)
proof cases
  case (call i p)
  then have "held s i = {}" using spec [OF assms(2), of i] by simp
  with call prog_ordered assms(2) show ?thesis by (auto simp: held_def)
next
  case (acquire i l p)
  have "held s' j = (if j = i then insert l (held s i) else held s j)" for j
    using acquire by (auto simp: held_def)
  with acquire spec [OF assms(2), of i] assms(2) show ?thesis by simp
next
  case (release i l p)
  then have l: "holder s l = Some i" using spec [OF assms(2), of i] by (simp add: held_def)
  have "held s' j = (if j = i then held s i - {l} else held s j)" for j
    using release l by (auto simp: held_def)
  with release spec [OF assms(2), of i] assms(2) show ?thesis by simp
qed

lemma reachable_ordered: "task_reachable prog s \<Longrightarrow> \<forall>i. ordered (held s i) (todo s i)"
proof (induction rule: task_reachable.induct)
  case start
  show ?case by (simp add: idle_tasks_def held_def)
next
  case (step s s')
  from step.hyps(2) step.IH show ?case by (rule step_ordered)
qed

text \<open>The blocked task that wants the highest lock waits for one that wants a higher lock.\<close>

lemma no_deadlock:
  assumes "task_reachable prog s"
  shows "\<not> deadlocked s"
proof
  assume dl: "deadlocked s"
  note ord = reachable_ordered [OF assms]
  have blocked: "\<exists>l p j. todo s i = Acquire l # p \<and> holder s l = Some j \<and> todo s j \<noteq> []"
    if ne: "todo s i \<noteq> []" for i
  proof -
    have "\<not> can_run s i" using dl by (simp add: deadlocked_def)
    then obtain l p j where l: "todo s i = Acquire l # p" "holder s l = Some j"
      using ne by (auto simp: can_run_def split: list.splits action.splits)
    then have "l \<in> held s j" by (simp add: held_def)
    then have "todo s j \<noteq> []" using spec [OF ord, of j] by auto
    with l show ?thesis by blast
  qed
  have higher: "\<exists>j l' p'. todo s j = Acquire l' # p' \<and> l < l'"
    if wants: "todo s i = Acquire l # p" for i l p
  proof -
    obtain j where j: "holder s l = Some j" "todo s j \<noteq> []" using blocked [of i] wants by auto
    obtain l' p' where "todo s j = Acquire l' # p'" using blocked [OF j(2)] by auto
    moreover have "l \<in> held s j" using j(1) by (simp add: held_def)
    ultimately show ?thesis using spec [OF ord, of j] by auto
  qed
  let ?wanted = "{l. \<exists>i p. todo s i = Acquire l # p}"
  obtain i where "todo s i \<noteq> []" using dl by (auto simp: deadlocked_def)
  with blocked have "?wanted \<noteq> {}" by blast
  then have "Max ?wanted \<in> ?wanted" by (rule Max_in [OF finite_locks])
  then obtain i p where "todo s i = Acquire (Max ?wanted) # p" by blast
  from higher [OF this] obtain l' where l': "l' \<in> ?wanted" "Max ?wanted < l'" by blast
  from l'(1) have "l' \<le> Max ?wanted" by (rule Max_ge [OF finite_locks])
  then show False using l'(2) by (simp add: leD)
qed

end

section \<open>The writer\<close>

lemmas lock_programs = append_raw_locks_def flush_batch_locks_def flush_locks_def
  flush_if_needed_locks_def finalize_rewrite_locks_def

lemma aof_method_ordered: "pol \<noteq> Everysec \<Longrightarrow> aof_method pol p \<Longrightarrow> ordered {} p"
  by (cases pol) (auto elim!: aof_method.cases simp: lock_programs less_lock_def lock_rank_def)

interpretation fsync_always: lock_discipline "aof_method Always"
  by unfold_locales (rule aof_method_ordered, simp_all)

interpretation fsync_no: lock_discipline "aof_method No"
  by unfold_locales (rule aof_method_ordered, simp_all)

text \<open>
  (C16) With the fsync policies \<open>always\<close> and \<open>no\<close> the writer never deadlocks: however
  many tasks append, flush and rewrite at the same time, as long as one of them is inside a
  method, some task can take its next lock.
\<close>

theorem aof_no_deadlock:
  assumes "pol \<noteq> Everysec" and "task_reachable (aof_method pol) s"
  shows "\<not> deadlocked s"
  using assms fsync_always.no_deadlock fsync_no.no_deadlock by (cases pol) auto

text \<open>Runs: a task calls a method, then tasks take their next lock operations in turn.\<close>

definition call_method :: "nat \<Rightarrow> action list \<Rightarrow> tasks \<Rightarrow> tasks" where
  "call_method i p s = s\<lparr>todo := (todo s)(i := p)\<rparr>"

definition next_action :: "nat \<Rightarrow> tasks \<Rightarrow> tasks" where
  "next_action i s =
     (case todo s i of
        Acquire l # p \<Rightarrow>
          if holder s l = None then s\<lparr>todo := (todo s)(i := p), holder := (holder s)(l := Some i)\<rparr> else s
      | Release l # p \<Rightarrow> s\<lparr>todo := (todo s)(i := p), holder := (holder s)(l := None)\<rparr>
      | [] \<Rightarrow> s)"

lemma reachable_call:
  "task_reachable m s \<Longrightarrow> todo s i = [] \<Longrightarrow> m p \<Longrightarrow> task_reachable m (call_method i p s)"
  unfolding call_method_def by (blast intro: task_reachable.step task_step.call)

lemma reachable_next: "task_reachable m s \<Longrightarrow> task_reachable m (next_action i s)"
  by (auto simp: next_action_def split: list.splits action.splits
      intro: task_reachable.step task_step.acquire task_step.release)

lemma reachable_schedule: "task_reachable m s \<Longrightarrow> task_reachable m (fold next_action is s)"
  by (induction "is" arbitrary: s) (auto intro: reachable_next)

definition demo_tasks :: tasks where
  "demo_tasks = fold next_action [0] (call_method 0 flush_locks idle_tasks)"

lemma demo_tasks_reachable: "task_reachable (aof_method pol) demo_tasks"
  unfolding demo_tasks_def
  by (intro reachable_schedule reachable_call task_reachable.start aof_method.flush)
    (simp add: idle_tasks_def)

theorem aof_no_deadlock_witness: "\<not> deadlocked demo_tasks \<and> todo demo_tasks 0 \<noteq> []"
  using aof_no_deadlock [OF _ demo_tasks_reachable, of Always]
  by (simp add: demo_tasks_def flush_locks_def call_method_def next_action_def idle_tasks_def)

text \<open>
  (C32) With the default policy \<open>everysec\<close> the writer can deadlock for good: the fsync
  task takes the batch and waits for the file, while an append that flushes a full batch
  holds the file and waits for the batch.
\<close>

theorem aof_everysec_deadlocks: "\<exists>s. task_reachable (aof_method Everysec) s \<and> deadlocked s"
proof (intro exI conjI)
  let ?s = "call_method 1 (flush_if_needed_locks Everysec True)
    (call_method 0 (append_raw_locks Everysec True) idle_tasks)"
  have idle: "todo idle_tasks i = []" for i by (simp add: idle_tasks_def)
  have "task_reachable (aof_method Everysec) ?s"
    by (intro reachable_call task_reachable.start aof_method.append_raw aof_method.flush_if_needed)
      (simp_all add: idle call_method_def)
  then show "task_reachable (aof_method Everysec) (fold next_action [0, 0, 0, 1, 1] ?s)"
    by (rule reachable_schedule)
  show "deadlocked (fold next_action [0, 0, 0, 1, 1] ?s)"
    by (auto simp: deadlocked_def can_run_def next_action_def call_method_def idle_tasks_def lock_programs
        fun_upd_apply)
qed

end
