(* ===== verification/Server.thy ===== *)
theory Server
  imports Session_Faults Aof_Faults Aof_Locks
begin

text \<open>
  The process around the sessions: the configuration (\<open>src/src/config/mod.rs\<close>), the accept
  loop with its connection limit and the drain at shutdown (\<open>src/src/server/tcp.rs\<close>), the
  threads and their cores (\<open>src/src/observability/cpu_affinity.rs\<close>), the
  sweeper task (\<open>src/src/storage/ttl.rs\<close>), and what \<open>main\<close> does before and after the
  server runs (\<open>src/src/main.rs\<close>).
\<close>

section \<open>Configuration\<close>

record snapshot_config =
  snapshot_enabled :: bool
  snapshot_path :: bytes
  snapshot_interval_secs :: nat

record aof_config =
  aof_enabled :: bool
  aof_path :: bytes
  aof_fsync :: fsync_policy
  aof_rewrite_threshold_mb :: nat

record config =
  bind_addr :: bytes
  port :: nat
  read_timeout_secs :: nat
  sweep_interval_secs :: nat
  max_connections :: nat
  write_timeout_secs :: nat
  config_max_keys :: nat
  snapshot_conf :: snapshot_config
  aof_conf :: aof_config
  metrics_enabled :: bool

definition read_timeout :: "config \<Rightarrow> duration" where
  "read_timeout c = from_secs (read_timeout_secs c)"

definition sweep_interval :: "config \<Rightarrow> duration" where
  "sweep_interval c = from_secs (sweep_interval_secs c)"

definition write_timeout :: "config \<Rightarrow> duration" where
  "write_timeout c = (if write_timeout_secs c = 0 then from_secs 0 else from_secs (write_timeout_secs c))"

definition snapshot_interval :: "snapshot_config \<Rightarrow> duration" where
  "snapshot_interval c = from_secs (snapshot_interval_secs c)"

definition snapshot_config_default :: snapshot_config where
  "snapshot_config_default =
     \<lparr>snapshot_enabled = True, snapshot_path = ''dump.zdb'', snapshot_interval_secs = 60\<rparr>"

definition aof_config_default :: aof_config where
  "aof_config_default =
     \<lparr>aof_enabled = False, aof_path = ''appendonly.zdb'', aof_fsync = Everysec, aof_rewrite_threshold_mb = 64\<rparr>"

definition config_default :: config where
  "config_default =
     \<lparr>bind_addr = ''127.0.0.1'', port = 6379, read_timeout_secs = 30, sweep_interval_secs = 1,
      max_connections = 0, write_timeout_secs = 30, config_max_keys = 0,
      snapshot_conf = snapshot_config_default, aof_conf = aof_config_default, metrics_enabled = False\<rparr>"

fun is_every_write :: "fsync_policy \<Rightarrow> bool" where
  "is_every_write p = (p = Always)"

fun is_every_second :: "fsync_policy \<Rightarrow> bool" where
  "is_every_second p = (p = Everysec)"

fun is_never :: "fsync_policy \<Rightarrow> bool" where
  "is_never p = (p = No)"

section \<open>Accepting connections\<close>

text \<open>
  The server counts its sessions in \<open>active_conns\<close>. \<open>running\<close> are the session tasks that
  exist, \<open>panicked\<close> the number of those that ended by a panic.
\<close>

datatype server_phase = Accepting | Draining | Stopped | Failed

record tcp_server =
  phase :: server_phase
  active_conns :: nat
  running :: "nat set"
  panicked :: nat

definition server_start :: tcp_server where
  "server_start = \<lparr>phase = Accepting, active_conns = 0, running = {}, panicked = 0\<rparr>"

definition at_limit :: "nat \<Rightarrow> tcp_server \<Rightarrow> bool" where
  "at_limit max_conns s \<longleftrightarrow> 0 < max_conns \<and> max_conns \<le> active_conns s"

text \<open>A connection is turned away with a line of text, or gets a session task.\<close>

definition rejection :: bytes where
  "rejection = ''-ERR max connections reached'' @ crlf"

definition accept_connection :: "nat \<Rightarrow> nat \<Rightarrow> tcp_server \<Rightarrow> bytes \<times> tcp_server" where
  "accept_connection max_conns i s =
     (if at_limit max_conns s then (rejection, s)
      else ([], s\<lparr>active_conns := active_conns s + 1, running := insert i (running s)\<rparr>))"

definition session_ends :: "nat \<Rightarrow> tcp_server \<Rightarrow> tcp_server" where
  "session_ends i s = s\<lparr>active_conns := active_conns s - 1, running := running s - {i}\<rparr>"

text \<open>A panic unwinds the task before the decrement.\<close>

definition session_panics :: "nat \<Rightarrow> tcp_server \<Rightarrow> tcp_server" where
  "session_panics i s = s\<lparr>running := running s - {i}, panicked := panicked s + 1\<rparr>"

inductive server_step :: "nat \<Rightarrow> tcp_server \<Rightarrow> tcp_server \<Rightarrow> bool" for max_conns where
  accept: "phase s = Accepting \<Longrightarrow> i \<notin> running s \<Longrightarrow> server_step max_conns s (snd (accept_connection max_conns i s))"
| accept_fails: "phase s = Accepting \<Longrightarrow> server_step max_conns s (s\<lparr>phase := Failed\<rparr>)"
| ends: "i \<in> running s \<Longrightarrow> server_step max_conns s (session_ends i s)"
| panics: "i \<in> running s \<Longrightarrow> server_step max_conns s (session_panics i s)"
| shutdown: "phase s = Accepting \<Longrightarrow> server_step max_conns s (s\<lparr>phase := Draining\<rparr>)"
| drained: "phase s = Draining \<Longrightarrow> active_conns s = 0 \<Longrightarrow> server_step max_conns s (s\<lparr>phase := Stopped\<rparr>)"
| drain_times_out: "phase s = Draining \<Longrightarrow> server_step max_conns s (s\<lparr>phase := Stopped\<rparr>)"

inductive server_reachable :: "nat \<Rightarrow> tcp_server \<Rightarrow> bool" for max_conns where
  start: "server_reachable max_conns server_start"
| step: "server_reachable max_conns s \<Longrightarrow> server_step max_conns s s' \<Longrightarrow> server_reachable max_conns s'"

inductive_cases server_step_cases: "server_step max_conns s s'"

section \<open>Draining\<close>

definition drain_timeout :: duration where
  "drain_timeout = from_secs 5"

definition drain_poll_interval :: duration where
  "drain_poll_interval = from_millis 50"

text \<open>
  The drain loop: the \<open>n\<close>-th pass finds \<open>remaining n\<close> connections at the time \<open>now n\<close>. The
  result is the number of the last pass.
\<close>

partial_function (option) drain_loop :: "(nat \<Rightarrow> nat) \<Rightarrow> (nat \<Rightarrow> instant) \<Rightarrow> instant \<Rightarrow> nat \<Rightarrow> nat option" where
  "drain_loop remaining now start n =
     (if remaining n = 0 then Some n
      else if now n - start > drain_timeout then Some n
      else drain_loop remaining now start (n + 1))"

section \<open>Sessions of a server\<close>

text \<open>
  What \<open>run_server_with_shutdown\<close> takes from the configuration for the accept loop, and the
  session it starts for a connection.
\<close>

record listener_settings =
  session_read_timeout :: duration
  session_write_timeout :: duration
  connection_limit :: nat
  session_metrics :: bool

definition run_server_with_shutdown :: "config \<Rightarrow> listener_settings" where
  "run_server_with_shutdown c =
     \<lparr>session_read_timeout = read_timeout c, session_write_timeout = write_timeout c,
      connection_limit = max_connections c, session_metrics = metrics_enabled c\<rparr>"

definition serve_connection ::
    "crates \<Rightarrow> 'm entries \<Rightarrow> surroundings \<Rightarrow> listener_settings \<Rightarrow> (read_event \<times> write_event) list \<Rightarrow>
       'm session \<Rightarrow> 'm session pass outcome option" where
  "serve_connection X D V l = handle_session X D V (session_write_timeout l) (session_metrics l)"

section \<open>Threads and cores\<close>

text \<open>
  The cores that each thread may run on (\<open>observability/cpu_affinity.rs\<close> on Linux); the
  operating system accepts the cores \<open>ok\<close>. Identifier 0 of the system call is the thread
  that makes it.
\<close>

definition pin_thread_to_cpu :: "(nat \<Rightarrow> bool) \<Rightarrow> thread \<Rightarrow> nat \<Rightarrow> (thread \<Rightarrow> nat set) \<Rightarrow> thread \<Rightarrow> nat set" where
  "pin_thread_to_cpu ok this_thread cpu_id cores = (if ok cpu_id then cores(this_thread := {cpu_id}) else cores)"

definition num_cpus :: "nat option \<Rightarrow> nat" where
  "num_cpus available_parallelism = (case available_parallelism of Some n \<Rightarrow> n | None \<Rightarrow> 1)"

definition pin_worker_threads ::
    "(nat \<Rightarrow> bool) \<Rightarrow> nat option \<Rightarrow> thread \<Rightarrow> nat \<Rightarrow> (thread \<Rightarrow> nat set) \<Rightarrow> thread \<Rightarrow> nat set" where
  "pin_worker_threads ok avail this_thread num_workers cores =
     fold (\<lambda>i. pin_thread_to_cpu ok this_thread (i mod num_cpus avail)) [0..<num_workers] cores"

text \<open>The number that \<open>main\<close> logs: the value of \<open>TOKIO_WORKER_THREADS\<close> when it is a number.\<close>

definition num_workers :: "bytes option \<Rightarrow> nat option \<Rightarrow> nat" where
  "num_workers var avail = (case Option.bind var parse_u64 of Some n \<Rightarrow> n | None \<Rightarrow> num_cpus avail)"

section \<open>Background tasks, startup and shutdown\<close>

text \<open>A tick of \<open>run_sweeper\<close>.\<close>

definition sweeper_tick :: "'m entries \<Rightarrow> (key \<Rightarrow> instant) \<Rightarrow> 'm engine \<Rightarrow> 'm engine" where
  "sweeper_tick D now e = sweep_expired D now e"

datatype background_task = Sweeper | Snapshotter | Aof_Fsync | Aof_Rewriter

text \<open>The tasks that \<open>main\<close> starts; \<open>opened\<close> says whether the log could be opened.\<close>

definition background_tasks :: "config \<Rightarrow> bool \<Rightarrow> background_task list" where
  "background_tasks c opened =
     [Sweeper] @
     (if snapshot_enabled (snapshot_conf c) \<and> 0 < as_millis (snapshot_interval (snapshot_conf c))
      then [Snapshotter] else []) @
     (if aof_enabled (aof_conf c) \<and> opened
      then (if is_every_second (aof_fsync (aof_conf c)) then [Aof_Fsync] else []) @ [Aof_Rewriter] else [])"

definition rewrite_threshold :: "config \<Rightarrow> nat" where
  "rewrite_threshold c = wrap_u64 (aof_rewrite_threshold_mb (aof_conf c) * 1024 * 1024)"

text \<open>From the empty engine: the snapshot, then the log. Errors are only reported.\<close>

definition startup ::
    "crates \<Rightarrow> 'm entries \<Rightarrow> config \<Rightarrow> (nat \<Rightarrow> clock) \<Rightarrow> bytes io_read \<Rightarrow> (nat \<Rightarrow> clock) \<Rightarrow> bytes io_read \<Rightarrow>
       'm engine outcome" where
  "startup X D c clks snapshot clks' log =
     (let K = dashmap_engine X D; e = engine_new D in
      obind (if snapshot_enabled (snapshot_conf c) then omap snd (load_snapshot X K clks snapshot e) else Ret e)
        (\<lambda>e. if aof_enabled (aof_conf c) then omap snd (replay_aof K clks' log e) else Ret e))"

text \<open>
  After the accept loop: the log is flushed at the end of the drain, then \<open>main\<close> dumps the
  final snapshot. The result is the log writer and the snapshot file.
\<close>

definition server_shutdown ::
    "crates \<Rightarrow> 'm entries \<Rightarrow> config \<Rightarrow> disk \<Rightarrow> disk \<Rightarrow> instant \<Rightarrow> nat \<Rightarrow> 'm engine \<Rightarrow> aof_writer option \<Rightarrow>
       bytes io_read \<Rightarrow> aof_writer option \<times> bytes io_read" where
  "server_shutdown X D c disk disk' now timestamp e w snapshot =
     (map_option (\<lambda>w. snd (aof_flush disk w)) w,
      if snapshot_enabled (snapshot_conf c) then snd (dump_snapshot X D now timestamp disk' e snapshot)
      else snapshot)"

end
