(* ===== verification/Server_Props.thy ===== *)
theory Server_Props
  imports Server
begin

text \<open>
  The process: the connection limit is kept and what a panic does to it, the drain ends in
  time, and what a restart finds.
\<close>

section \<open>The connection limit\<close>

definition conns_ok :: "nat \<Rightarrow> tcp_server \<Rightarrow> bool" where
  "conns_ok max_conns s \<longleftrightarrow> finite (running s) \<and> active_conns s = card (running s) + panicked s \<and>
     (0 < max_conns \<longrightarrow> active_conns s \<le> max_conns)"

lemma step_conns_ok: "server_step max_conns s s' \<Longrightarrow> conns_ok max_conns s \<Longrightarrow> conns_ok max_conns s'"
proof (erule server_step_cases)
  fix i
  assume "conns_ok max_conns s" "i \<in> running s" "s' = session_ends i s"
  then show "conns_ok max_conns s'"
    by (cases "card (running s)") (auto simp: conns_ok_def session_ends_def)
next
  fix i
  assume "conns_ok max_conns s" "i \<in> running s" "s' = session_panics i s"
  then show "conns_ok max_conns s'"
    by (cases "card (running s)") (auto simp: conns_ok_def session_panics_def)
qed (auto simp: conns_ok_def accept_connection_def at_limit_def)

text \<open>
  (C13) The server never runs more sessions than its limit: in every reachable state of the
  accept loop, with sessions ending and panicking in any order, the count is the number of
  running sessions plus the number of panicked ones, and stays within the limit.
\<close>

theorem server_connection_limit:
  assumes "server_reachable max_conns s"
  shows "active_conns s = card (running s) + panicked s \<and>
    (0 < max_conns \<longrightarrow> card (running s) \<le> active_conns s \<and> active_conns s \<le> max_conns)"
proof -
  have "conns_ok max_conns s"
    using assms
  proof (induction rule: server_reachable.induct)
    case start
    show ?case by (simp add: conns_ok_def server_start_def)
  next
    case (step s s')
    from step.hyps(2) step.IH show ?case by (rule step_conns_ok)
  qed
  then show ?thesis by (auto simp: conns_ok_def)
qed

text \<open>Connections that are accepted and panic, one after the other.\<close>

fun panic_run :: "nat \<Rightarrow> nat \<Rightarrow> tcp_server" where
  "panic_run max_conns 0 = server_start"
| "panic_run max_conns (Suc n) = session_panics n (snd (accept_connection max_conns n (panic_run max_conns n)))"

lemma panic_run_state:
  "n \<le> max_conns \<Longrightarrow> panic_run max_conns n = \<lparr>phase = Accepting, active_conns = n, running = {}, panicked = n\<rparr>"
  by (induction n) (simp_all add: server_start_def session_panics_def accept_connection_def at_limit_def)

lemma panic_run_reachable: "n \<le> max_conns \<Longrightarrow> server_reachable max_conns (panic_run max_conns n)"
proof (induction n)
  case 0
  show ?case by (simp add: server_reachable.start)
next
  case (Suc n)
  let ?s = "panic_run max_conns n"
  let ?t = "snd (accept_connection max_conns n ?s)"
  have s: "phase ?s = Accepting" "running ?s = {}" using Suc.prems by (simp_all add: panic_run_state)
  have "server_step max_conns ?s ?t" using s by (intro server_step.accept) simp_all
  moreover have "n \<in> running ?t"
    using Suc.prems panic_run_state [of n max_conns] by (simp add: accept_connection_def at_limit_def)
  then have "server_step max_conns ?t (session_panics n ?t)" by (rule server_step.panics)
  ultimately show ?case
    using Suc by (auto intro: server_reachable.step)
qed

text \<open>
  (C40) Panics use up the limit for good: with a limit of \<open>n\<close>, after \<open>n\<close> sessions that
  panicked the server still accepts connections, none of its sessions runs, and yet every
  further connection is turned away.
\<close>

theorem server_panics_exhaust_limit:
  assumes "0 < max_conns"
  shows "\<exists>s. server_reachable max_conns s \<and> phase s = Accepting \<and> running s = {} \<and>
    (\<forall>i. accept_connection max_conns i s = (rejection, s))"
  using assms panic_run_reachable [of max_conns max_conns] panic_run_state [of max_conns max_conns]
  by (intro exI [of _ "panic_run max_conns max_conns"]) (simp add: accept_connection_def at_limit_def)

theorem server_panics_exhaust_limit_witness:
  "\<exists>s. server_reachable 2 s \<and> phase s = Accepting \<and> running s = {} \<and>
    (\<forall>i. accept_connection 2 i s = (rejection, s))"
  by (rule server_panics_exhaust_limit) simp

theorem server_connection_limit_witness:
  "active_conns (panic_run 3 2) = card (running (panic_run 3 2)) + panicked (panic_run 3 2) \<and>
   active_conns (panic_run 3 2) \<le> 3"
  using server_connection_limit [OF panic_run_reachable, of 2 3] by simp

section \<open>The drain\<close>

lemma drain_loop_bounded:
  assumes "remaining (n + k) = 0 \<or> drain_timeout < now (n + k) - start"
  shows "\<exists>m \<le> n + k. drain_loop remaining now start n = Some m \<and>
    (remaining m = 0 \<or> drain_timeout < now m - start)"
  using assms
proof (induction k arbitrary: n)
  case 0
  then show ?case by (subst drain_loop.simps) auto
next
  case (Suc k)
  show ?case
  proof (cases "remaining n = 0 \<or> drain_timeout < now n - start")
    case True
    then show ?thesis by (subst drain_loop.simps) auto
  next
    case False
    with Suc.IH [of "n + 1"] Suc.prems show ?thesis by (subst drain_loop.simps) auto
  qed
qed

text \<open>
  (C23) The drain ends: when every sleep lasts at least the poll interval, the loop leaves
  after at most 102 passes, with no connection left or after the drain timeout.
\<close>

theorem drain_ends:
  assumes "\<And>n. now n + drain_poll_interval \<le> now (Suc n)" and "start \<le> now 0"
  shows "\<exists>n \<le> 101. drain_loop remaining now start 0 = Some n \<and>
    (remaining n = 0 \<or> drain_timeout < now n - start)"
proof -
  have "now 0 + n * drain_poll_interval \<le> now n" for n
  proof (induction n)
    case (Suc n)
    with assms(1) [of n] show ?case by simp
  qed simp
  from this [of 101] have "drain_timeout < now 101 - start"
    using assms(2) by (simp add: drain_timeout_def drain_poll_interval_def from_secs_def from_millis_def)
  then show ?thesis using drain_loop_bounded [of remaining 0 101 now start] by simp
qed

theorem drain_ends_witness:
  "\<exists>n \<le> 101. drain_loop (\<lambda>_. 1) (\<lambda>n. n * drain_poll_interval) 0 0 = Some n \<and>
    drain_timeout < n * drain_poll_interval"
  using drain_ends [of "\<lambda>n. n * drain_poll_interval" 0 "\<lambda>_. 1"] by simp

section \<open>Restarts\<close>

text \<open>
  (C11) An orderly restart with snapshots and without a log keeps the data: what \<open>main\<close> dumps
  after the server has stopped is what it loads when it starts again: the live keys with
  their values. An expiry less than \<open>2 ^ 63\<close> milliseconds away continues, from the load, for
  the whole milliseconds it had left; an entry with less than one millisecond left comes back
  without an expiry.
\<close>

theorem restart_restores_live_data:
  assumes "zet_engine D X" and "snapshot_enabled (snapshot_conf c)" and "\<not> aof_enabled (aof_conf c)"
    and "list_all dump_ok (dump_entries D now e)" and "length (dump_entries D now e) < 2 ^ 32"
    and "expiries_fit D clks now e"
    and "server_shutdown X D c disk (\<lambda>_. None) now ts e w old = (w', file)"
  shows "\<exists>e'. startup X D c clks file clks' log = Ret e' \<and> restores D clks now e e'"
proof -
  obtain n e' where "dump_snapshot X D now ts (\<lambda>_. None) e old = (Some n, file)"
    and "load_snapshot X (dashmap_engine X D) clks file (engine_new D) = Ret (Inr n, e')"
    and "restores D clks now e e'"
    using dumped_snapshot_restores [OF assms(1,4-6), of ts old] assms(2,7) by (auto simp: server_shutdown_def)
  with assms(2,3) show ?thesis by (simp add: startup_def Let_def)
qed

theorem restart_restores_live_data_witness:
  "\<exists>e'. startup reference_crates alist_dashmap config_default (\<lambda>_ _. 9)
      (snd (server_shutdown reference_crates alist_dashmap config_default (\<lambda>_. None) (\<lambda>_. None) 5 1000 demo_store
        None Missing)) (\<lambda>_ _. 9) Missing = Ret e' \<and>
    restores alist_dashmap (\<lambda>_ _. 9) 5 demo_store e'"
  by (rule restart_restores_live_data [OF reference_engine.zet_engine_axioms _ _ demo_store_ok,
        where w' = None and disk = "\<lambda>_. None" and w = None and old = Missing and ts = 1000])
    (simp_all add: config_default_def snapshot_config_default_def aof_config_default_def server_shutdown_def)

text \<open>Snapshot data without expiry, as commands.\<close>

lemma fold_restore:
  "distinct (map fst es) \<Longrightarrow> fold apply_data (map restore_command es) dv =
     (\<lambda>k. case map_of es k of Some p \<Rightarrow> Some (fst p) | None \<Rightarrow> dv k)"
proof (induction es arbitrary: dv)
  case (Cons t es)
  obtain k v ms where t: "t = (k, v, ms)" by (cases t)
  from Cons.prems t have "map_of es k = None" by (simp add: map_of_eq_None_iff)
  with Cons t show ?case by (auto simp: restore_command_def fun_eq_iff split: option.splits)
qed simp

lemma restore_no_expiry: "list_all (\<lambda>(k, v, ms). ms = -1) es \<Longrightarrow> list_all no_expiry (map restore_command es)"
  by (induction es) (auto simp: restore_command_def)

text \<open>
  (C15) A restart with snapshot and log applies the whole log to the snapshot: whatever part
  of the log the snapshot already reflects is executed again on top of it. The data after
  the start are the commands of the log applied in order to the data of the snapshot.
\<close>

theorem startup_applies_log_to_snapshot:
  assumes "zet_engine D X" and "snapshot_enabled (snapshot_conf c)" and "aof_enabled (aof_conf c)"
    and "list_all dump_ok es" and "length es < 2 ^ 32" and "distinct (map fst es)"
    and "list_all (\<lambda>(k, v, ms). ms = -1) es"
    and "list_all loggable cs" and "list_all no_expiry cs"
    and "clocks_advance clks" and "clocks_advance clks'" and "clks (length es) 0 \<le> clks' 0 0"
  shows "\<exists>e'. startup X D c clks (Contents (snapshot_bytes X ts es)) clks' (Contents (log_of cs)) = Ret e' \<and>
    steady (clks' (length cs) 0) (live D e')
      (fold apply_data cs (\<lambda>k. map_option fst (map_of es k)))"
proof -
  note contract = zet_engine.contract [OF assms(1)]
  let ?K = "dashmap_engine X D" and ?es = "map restore_command es"
  have new: "max_keys (engine_new D) = 0" by (simp add: engine_new_def)
  have "steady (clks 0 0) (live D (engine_new D)) Map.empty"
    by (simp add: steady_def zet_engine.live_new [OF assms(1)])
  then obtain e1 where e1: "execute_all ?K clks 0 ?es (engine_new D) = Ret e1" "max_keys e1 = 0"
    and "steady (clks (length es) 0) (live D e1) (fold apply_data ?es Map.empty)"
    using kv_engine_spec.execute_all_steady [OF contract assms(10) restore_no_expiry [OF assms(7)] new, of 0]
    by auto
  then have "steady (clks' 0 0) (live D e1) (\<lambda>k. map_option fst (map_of es k))"
    using fold_restore [OF assms(6), of Map.empty] steady_later [OF _ assms(12)]
    by (simp add: map_option_case)
  then obtain e' where e': "execute_all ?K clks' 0 cs e1 = Ret e'"
    and steady: "steady (clks' (length cs) 0) (live D e') (fold apply_data cs (\<lambda>k. map_option fst (map_of es k)))"
    using kv_engine_spec.execute_all_steady [OF contract assms(11,9) e1(2), of 0] by auto
  have "load_snapshot X ?K clks (Contents (snapshot_bytes X ts es)) (engine_new D) = Ret (Inr (length es), e1)"
    using load_snapshot_bytes [OF assms(1) new assms(4,5)] e1(1) by simp
  moreover have "replay_aof ?K clks' (Contents (log_of cs)) e1 = Ret (Some (length cs), e')"
    using replay_aof_log [OF assms(1) e1(2) _ assms(8), of clks' CFlushDb 0] assms(11) e'
    by (simp add: clocks_advance_def log_entry_def)
  ultimately show ?thesis using assms(2,3) steady by (simp add: startup_def Let_def)
qed

text \<open>A counter that was 1 when the snapshot was taken comes back as 2.\<close>

theorem startup_applies_log_to_snapshot_witness:
  "\<exists>e'. startup reference_crates alist_dashmap (config_default\<lparr>aof_conf := aof_config_default\<lparr>aof_enabled := True\<rparr>\<rparr>)
      (\<lambda>_ _. 5) (Contents (snapshot_bytes reference_crates 1000 [(''k'', ''1'', -1)]))
      (\<lambda>_ _. 6) (Contents (log_of [CIncr ''k''])) = Ret e' \<and>
    map_option data (live alist_dashmap e' 7 ''k'') = Some ''2''"
proof -
  have k: "valid_utf8 ''k''" by code_simp
  have two: "apply_data (CIncr ''k'') (\<lambda>k. map_option fst (map_of [(''k'', ''1'', -1 :: int)] k)) ''k'' = Some ''2''"
    by code_simp
  let ?c = "config_default\<lparr>aof_conf := aof_config_default\<lparr>aof_enabled := True\<rparr>\<rparr>"
  let ?es = "[(''k'', ''1'', -1 :: int)]"
  have c: "snapshot_enabled (snapshot_conf ?c)" "aof_enabled (aof_conf ?c)"
    by (simp_all add: config_default_def snapshot_config_default_def)
  have es: "list_all dump_ok ?es" "length ?es < 2 ^ 32" "distinct (map fst ?es)"
    "list_all (\<lambda>(k, v, ms). ms = -1) ?es" "list_all loggable [CIncr ''k'']" "list_all no_expiry [CIncr ''k'']"
    using k by (simp_all add: dump_ok_def log_key_def log_value_def)
  have clks: "clocks_advance (\<lambda>_ _. 5)" "clocks_advance (\<lambda>_ _. 6)"
    by (simp_all add: clocks_advance_def mono_def)
  obtain e' where e': "startup reference_crates alist_dashmap ?c (\<lambda>_ _. 5)
      (Contents (snapshot_bytes reference_crates 1000 ?es)) (\<lambda>_ _. 6) (Contents (log_of [CIncr ''k''])) = Ret e'"
    and st: "steady 6 (live alist_dashmap e') (fold apply_data [CIncr ''k''] (\<lambda>k. map_option fst (map_of ?es k)))"
    using startup_applies_log_to_snapshot [OF reference_engine.zet_engine_axioms c es clks, of 1000] by auto
  have "map_option data (live alist_dashmap e' 7 ''k'') = Some ''2''"
    using st two by (simp add: steady_def del: apply_data.simps map_of.simps)
  with e' show ?thesis by blast
qed

section \<open>Settings\<close>

text \<open>
  The write timeout of the default configuration is not zero, so its sessions never take the
  fast path, log or not.
\<close>

lemma default_sessions_take_full_path:
  "serve_connection X D V (run_server_with_shutdown config_default) evs st = handle_session_full X D V False evs st"
proof -
  have "0 < as_secs (write_timeout config_default)"
    by (simp add: write_timeout_def config_default_def as_secs_def from_secs_def)
  moreover have "\<not> metrics_enabled config_default" by (simp add: config_default_def)
  ultimately show ?thesis
    by (simp add: serve_connection_def run_server_with_shutdown_def handle_session_def Let_def)
qed

text \<open>
  \<open>pin_worker_threads\<close> pins only the thread that calls it, again and again; it ends on the core
  of the last worker, and no worker thread is pinned.
\<close>

lemma pin_worker_threads_others:
  "j \<noteq> this_thread \<Longrightarrow> pin_worker_threads ok avail this_thread n cores j = cores j"
  unfolding pin_worker_threads_def
  by (induction n arbitrary: cores) (simp_all add: pin_thread_to_cpu_def)

lemma pin_worker_threads_caller:
  assumes "\<forall>i. ok i" and "0 < n"
  shows "pin_worker_threads ok avail this_thread n cores this_thread = {(n - 1) mod num_cpus avail}"
  using assms by (cases n) (simp_all add: pin_worker_threads_def pin_thread_to_cpu_def)

end
