(* ===== verification/Concurrency.thy ===== *)
theory Concurrency
  imports Engine_Props
begin

text \<open>
  The engine shared by many tasks. \<open>DashMapEngine\<close> has no lock of its own: a task holds the
  shard of a key during one call on the map and while it keeps the guard that the call
  returned, and between two such sections every other task may run. This theory cuts the
  operations on one key into their sections, lets any number of tasks and the sweeper
  interleave them, and relates the interleaved runs to the operations of \<open>Engine\<close>, which
  run in one piece. The engine has no key limit, as \<open>main\<close> creates it. MSET is a sequence
  of SETs, MGET is added in \<open>Concurrency_Multi\<close>; KEYS, DBSIZE and FLUSHDB are single calls of
  the map, which visits its shards inside, and are not part of the interleaving.
\<close>

section \<open>Operations and answers\<close>

datatype op =
    OGet key
  | OSet key value_entry
  | ODel key
  | OIncr key
  | OExists key
  | OTtl key
  | OExpire key nat

datatype answer =
    AGet "engine_error + value_entry option"
  | ASet "engine_error + unit"
  | ADel "engine_error + bool"
  | AIncr "engine_error + int"
  | AExists bool
  | ATtl int
  | AExpire bool

fun op_key :: "op \<Rightarrow> key" where
  "op_key (OGet k) = k"
| "op_key (OSet k v) = k"
| "op_key (ODel k) = k"
| "op_key (OIncr k) = k"
| "op_key (OExists k) = k"
| "op_key (OTtl k) = k"
| "op_key (OExpire k n) = k"

text \<open>An operation in one piece: the definitions of the engine.\<close>

fun run_op :: "crates \<Rightarrow> 'm entries \<Rightarrow> clock \<Rightarrow> 'm engine \<Rightarrow> op \<Rightarrow> (answer \<times> 'm engine) outcome" where
  "run_op X D clk e (OGet k) = Ret (apfst AGet (engine_get D clk e k))"
| "run_op X D clk e (OSet k v) = Ret (apfst ASet (engine_set D clk e k v))"
| "run_op X D clk e (ODel k) = Ret (apfst ADel (engine_del D clk e k))"
| "run_op X D clk e (OIncr k) = obind (engine_incr X D clk e k) (\<lambda>r. Ret (apfst AIncr r))"
| "run_op X D clk e (OExists k) = Ret (apfst AExists (engine_exists D clk e k))"
| "run_op X D clk e (OTtl k) = Ret (apfst ATtl (engine_ttl_secs D clk e k))"
| "run_op X D clk e (OExpire k n) = obind (engine_expire D clk e k n) (\<lambda>r. Ret (apfst AExpire r))"

section \<open>Sections under a lock\<close>

text \<open>
  Where a task is: between operations, before the first section of an operation, with its
  answer but the removal of the expired entry still to come (\<open>drop(entry)\<close> and then
  \<open>remove_if\<close>), after \<open>occ.remove()\<close> and before the \<open>insert\<close> of INCR, with its answer, or
  gone after a panic.
\<close>

datatype task =
    Idle
  | Called op
  | Cleaning op answer
  | Reinserting key
  | Answered op answer
  | Crashed

text \<open>
  A look-up whose guard is dropped as soon as the entry turns out to be expired; \<open>absent\<close> is
  the answer for a key without a live entry, \<open>present\<close> goes on under the guard.
\<close>

definition guarded_lookup ::
  "'m entries \<Rightarrow> instant \<Rightarrow> 'm engine \<Rightarrow> op \<Rightarrow> answer \<Rightarrow>
     (value_entry \<Rightarrow> (task \<times> 'm engine) outcome) \<Rightarrow> (task \<times> 'm engine) outcome" where
  "guarded_lookup D t e f absent present =
     (case dm_get D (emap e) (op_key f) of
        None \<Rightarrow> Ret (Answered f absent, e)
      | Some v \<Rightarrow> if is_expired_at v t then Ret (Cleaning f absent, e) else present v)"

text \<open>The first section of every operation, on an engine without a key limit.\<close>

fun first_section :: "crates \<Rightarrow> 'm entries \<Rightarrow> clock \<Rightarrow> 'm engine \<Rightarrow> op \<Rightarrow> (task \<times> 'm engine) outcome" where
  "first_section X D clk e (OGet k) =
     guarded_lookup D (clk 0) e (OGet k) (AGet (Inr None))
       (\<lambda>v. Ret (Answered (OGet k) (AGet (Inr (Some v))), e))"
| "first_section X D clk e (OSet k v) =
     Ret (Answered (OSet k v) (ASet (Inr ())), e\<lparr>emap := dm_insert D (emap e) k v\<rparr>)"
| "first_section X D clk e (ODel k) =
     (case dm_remove_if D (emap e) k (\<lambda>v. \<not> is_expired_at v (clk 0)) of
        (removed, m) \<Rightarrow> Ret (Answered (ODel k) (ADel (Inr (removed \<noteq> None))), e\<lparr>emap := m\<rparr>))"
| "first_section X D clk e (OIncr k) =
     (case dm_get D (emap e) k of
        None \<Rightarrow> Ret (Answered (OIncr k) (AIncr (Inr 1)),
                     e\<lparr>emap := dm_insert D (emap e) k (value_entry_new clk ''1'')\<rparr>)
      | Some v \<Rightarrow>
          if is_expired_at v (clk 0) then Ret (Reinserting k, e\<lparr>emap := dm_remove D (emap e) k\<rparr>)
          else (case parse_i64 (from_utf8_lossy (data v)) of
                  None \<Rightarrow> Ret (Answered (OIncr k) (AIncr (Inl (NotAnInteger k))), e)
                | Some val \<Rightarrow>
                    let new_val = wrap_i64 (val + 1)
                    in Ret (Answered (OIncr k) (AIncr (Inr new_val)),
                         e\<lparr>emap := dm_write D (emap e) k (v\<lparr>data := itoa X new_val\<rparr>)\<rparr>)))"
| "first_section X D clk e (OExists k) =
     guarded_lookup D (clk 0) e (OExists k) (AExists False)
       (\<lambda>v. Ret (Answered (OExists k) (AExists True), e))"
| "first_section X D clk e (OTtl k) =
     guarded_lookup D (clk 0) e (OTtl k) (ATtl (-2))
       (\<lambda>v. Ret (Answered (OTtl k)
          (ATtl (case expires_at v of
                   Some x \<Rightarrow> if x \<le> clk 1 then -2 else wrap_i64 (int (as_secs (x - clk 1)))
                 | None \<Rightarrow> -1)), e))"
| "first_section X D clk e (OExpire k n) =
     guarded_lookup D (clk 0) e (OExpire k n) (AExpire False)
       (\<lambda>v. obind (instant_add (clk 1) (from_secs n))
          (\<lambda>x. Ret (Answered (OExpire k n) (AExpire True),
             e\<lparr>emap := dm_write D (emap e) k (v\<lparr>expires_at := Some x\<rparr>)\<rparr>)))"

text \<open>The entry INCR inserts for an expired one; its creation time is read before the call.\<close>

definition reinsert :: "'m entries \<Rightarrow> instant \<Rightarrow> 'm engine \<Rightarrow> key \<Rightarrow> 'm engine" where
  "reinsert D c e k = e\<lparr>emap := dm_insert D (emap e) k (value_entry_new (\<lambda>_. c) ''1'')\<rparr>"

text \<open>The sections of an operation with nothing in between.\<close>

definition run_sections ::
  "crates \<Rightarrow> 'm entries \<Rightarrow> clock \<Rightarrow> 'm engine \<Rightarrow> op \<Rightarrow> (answer \<times> 'm engine) outcome" where
  "run_sections X D clk e f =
     obind (first_section X D clk e f) (\<lambda>(p, e1). case p of
         Answered f a \<Rightarrow> Ret (a, e1)
       | Cleaning f a \<Rightarrow> Ret (a, drop_if_expired D e1 (op_key f) (clk 1))
       | Reinserting k \<Rightarrow> Ret (AIncr (Inr 1), reinsert D (clk 1) e1 k)
       | _ \<Rightarrow> Panic)"

section \<open>Interleaved runs\<close>

text \<open>
  An operation takes effect in one of its sections. The system keeps these effects in the
  order in which they happen: the task, the clock readings, the operation and its answer; or
  that the task went on from \<open>occ.remove()\<close> to the \<open>insert\<close> of INCR.
\<close>

datatype effect =
    Took nat instant instant op answer
  | Restarted nat key instant

record 'm system =
  shared :: "'m engine"
  clock_now :: instant
  task_of :: "nat \<Rightarrow> task"
  effects :: "effect list"

definition start_system :: "'m engine \<Rightarrow> instant \<Rightarrow> 'm system" where
  "start_system e t = \<lparr>shared = e, clock_now = t, task_of = (\<lambda>_. Idle), effects = []\<rparr>"

definition readings :: "instant \<Rightarrow> instant \<Rightarrow> clock" where
  "readings u w = (\<lambda>n. if n = 0 then u else w)"

text \<open>TTL and EXPIRE read the clock a second time under the guard, the others do not.\<close>

fun reads_twice :: "op \<Rightarrow> bool" where
  "reads_twice (OTtl k) = True"
| "reads_twice (OExpire k n) = True"
| "reads_twice _ = False"

text \<open>The effect of a first section that leaves its task at \<open>p\<close>.\<close>

fun effect_of :: "nat \<Rightarrow> instant \<Rightarrow> instant \<Rightarrow> task \<Rightarrow> effect list" where
  "effect_of i u w (Answered f a) = [Took i u w f a]"
| "effect_of i u w (Cleaning f a) = [Took i u w f a]"
| "effect_of i u w _ = []"

text \<open>
  The clock is shared and never goes back. The sweeper visits one entry at a time under its
  shard (\<open>retain\<close>), so that each visit is a step of its own, like the clean-up after a
  look-up.
\<close>

inductive system_step :: "crates \<Rightarrow> 'm entries \<Rightarrow> 'm system \<Rightarrow> 'm system \<Rightarrow> bool" for X D where
  invoke: "task_of s i = Idle \<Longrightarrow>
    system_step X D s (s\<lparr>task_of := (task_of s)(i := Called f)\<rparr>)"
| locked: "task_of s i = Called f \<Longrightarrow> clock_now s \<le> u \<Longrightarrow> u \<le> w \<Longrightarrow> reads_twice f \<or> u = w \<Longrightarrow>
    first_section X D (readings u w) (shared s) f = Ret (p, e) \<Longrightarrow>
    system_step X D s
      (s\<lparr>shared := e, clock_now := w, task_of := (task_of s)(i := p),
         effects := effects s @ effect_of i u w p\<rparr>)"
| panic: "task_of s i = Called f \<Longrightarrow> clock_now s \<le> u \<Longrightarrow> u \<le> w \<Longrightarrow>
    first_section X D (readings u w) (shared s) f = Panic \<Longrightarrow>
    system_step X D s (s\<lparr>clock_now := w, task_of := (task_of s)(i := Crashed)\<rparr>)"
| clean_up: "task_of s i = Cleaning f a \<Longrightarrow> clock_now s \<le> u \<Longrightarrow>
    system_step X D s
      (s\<lparr>shared := drop_if_expired D (shared s) (op_key f) u, clock_now := u,
         task_of := (task_of s)(i := Answered f a)\<rparr>)"
| reinsertion: "task_of s i = Reinserting k \<Longrightarrow> c \<le> clock_now s \<Longrightarrow>
    system_step X D s
      (s\<lparr>shared := reinsert D c (shared s) k,
         task_of := (task_of s)(i := Answered (OIncr k) (AIncr (Inr 1))),
         effects := effects s @ [Restarted i k c]\<rparr>)"
| return: "task_of s i = Answered f a \<Longrightarrow>
    system_step X D s (s\<lparr>task_of := (task_of s)(i := Idle)\<rparr>)"
| sweep: "clock_now s \<le> u \<Longrightarrow>
    system_step X D s (s\<lparr>shared := drop_if_expired D (shared s) k u, clock_now := u\<rparr>)"

abbreviation system_reaches :: "crates \<Rightarrow> 'm entries \<Rightarrow> 'm system \<Rightarrow> 'm system \<Rightarrow> bool" where
  "system_reaches X D \<equiv> (system_step X D)\<^sup>*\<^sup>*"

section \<open>Effects in one sequence\<close>

text \<open>
  The operations of the effects, each in one piece, in their order: defined when each gives
  the answer it gave in the interleaved run. An INCR that was restarted counts as a SET to 1.
\<close>

fun run_effect :: "crates \<Rightarrow> 'm entries \<Rightarrow> 'm engine \<Rightarrow> effect \<Rightarrow> 'm engine option" where
  "run_effect X D e (Took i u w f a) =
     (case run_op X D (readings u w) e f of
        Ret (b, e') \<Rightarrow> if b = a then Some e' else None
      | _ \<Rightarrow> None)"
| "run_effect X D e (Restarted i k c) =
     (case engine_set D (\<lambda>_. c) e k (value_entry_new (\<lambda>_. c) ''1'') of
        (Inr _, e') \<Rightarrow> Some e'
      | _ \<Rightarrow> None)"

fun run_effects :: "crates \<Rightarrow> 'm entries \<Rightarrow> 'm engine \<Rightarrow> effect list \<Rightarrow> 'm engine option" where
  "run_effects X D e [] = Some e"
| "run_effects X D e (x # xs) = Option.bind (run_effect X D e x) (\<lambda>e'. run_effects X D e' xs)"

fun effect_task :: "effect \<Rightarrow> nat" where
  "effect_task (Took i u w f a) = i"
| "effect_task (Restarted i k c) = i"

fun effect_op :: "effect \<Rightarrow> op" where
  "effect_op (Took i u w f a) = f"
| "effect_op (Restarted i k c) = OIncr k"

fun effect_answer :: "effect \<Rightarrow> answer" where
  "effect_answer (Took i u w f a) = a"
| "effect_answer (Restarted i k c) = AIncr (Inr 1)"

fun effect_readings :: "effect \<Rightarrow> instant list" where
  "effect_readings (Took i u w f a) = [u, w]"
| "effect_readings (Restarted i k c) = []"

text \<open>The operation of the last effect of a task, with its answer.\<close>

definition last_effect :: "effect list \<Rightarrow> nat \<Rightarrow> (op \<times> answer) option" where
  "last_effect xs i =
     (case filter (\<lambda>x. effect_task x = i) (rev xs) of [] \<Rightarrow> None
      | x # _ \<Rightarrow> Some (effect_op x, effect_answer x))"

end
