(* ===== verification/Concurrency_Props.thy ===== *)
theory Concurrency_Props
  imports Concurrency
begin

text \<open>
  What the interleaved runs of \<open>Concurrency\<close> have to do with the operations in one
  piece. \<open>op_meaning\<close> says what an operation answers and leaves at its key, from the
  live view alone; hence operations answer alike on two states that agree from now on
  (\<open>agree_from\<close>), and removing an expired entry keeps agreement. The simulation
  \<open>simulated\<close> follows step by step, by rule induction. Then: counters under concurrent
  INCRs, and the INCR that is not atomic.
\<close>

section \<open>What an operation does to its key\<close>

fun op_meaning ::
  "op \<Rightarrow> instant \<Rightarrow> instant \<Rightarrow> value_entry option \<Rightarrow> (answer \<times> value_entry option) outcome" where
  "op_meaning (OGet k) u w r = Ret (AGet (Inr r), r)"
| "op_meaning (OSet k v) u w r = Ret (ASet (Inr ()), Some v)"
| "op_meaning (ODel k) u w r = Ret (ADel (Inr (r \<noteq> None)), None)"
| "op_meaning (OIncr k) u w r = Ret (apfst AIncr (spec_incr k r u))"
| "op_meaning (OExists k) u w r = Ret (AExists (r \<noteq> None), r)"
| "op_meaning (OTtl k) u w r = Ret (ATtl (spec_ttl r w), r)"
| "op_meaning (OExpire k n) u w r =
     (case r of None \<Rightarrow> Ret (AExpire False, None)
      | Some v \<Rightarrow> obind (instant_add w (from_secs n))
          (\<lambda>x. Ret (AExpire True, Some (v\<lparr>expires_at := Some x\<rparr>))))"

definition set_live :: "(key \<Rightarrow> value_entry option) \<Rightarrow> key \<Rightarrow> value_entry option \<Rightarrow> instant \<Rightarrow> key \<Rightarrow> value_entry option" where
  "set_live V k r t = V(k := Option.bind r (\<lambda>v. live_at v t))"

text \<open>Two states that nobody can tell apart from \<open>t\<close> on.\<close>

definition agree_from :: "'m entries \<Rightarrow> instant \<Rightarrow> 'm engine \<Rightarrow> 'm engine \<Rightarrow> bool" where
  "agree_from D t e e' \<longleftrightarrow> (\<forall>u \<ge> t. live D e u = live D e' u)"

lemma agree_from_later: "agree_from D t e e' \<Longrightarrow> t \<le> u \<Longrightarrow> agree_from D u e e'"
  by (auto simp: agree_from_def)

lemma agree_from_refl [simp]: "agree_from D t e e"
  by (simp add: agree_from_def)

lemma agree_from_sym: "agree_from D t e e' \<Longrightarrow> agree_from D t e' e"
  by (simp add: agree_from_def)

lemma agree_from_trans [trans]: "agree_from D t e e' \<Longrightarrow> agree_from D t e' e'' \<Longrightarrow> agree_from D t e e''"
  by (simp add: agree_from_def)

text \<open>The shared engine agrees with the sequence of the effects so far.\<close>

definition simulated :: "crates \<Rightarrow> 'm entries \<Rightarrow> 'm engine \<Rightarrow> 'm system \<Rightarrow> bool" where
  "simulated X D e0 s \<longleftrightarrow> max_keys (shared s) = 0 \<and>
     (\<exists>e. run_effects X D e0 (effects s) = Some e \<and> max_keys e = 0 \<and>
          agree_from D (clock_now s) (shared s) e)"

lemma readings_sel [simp]: "readings u w 0 = u" "readings u w (Suc n) = w"
  by (simp_all add: readings_def)

lemma range_readings [simp]: "range (readings u u) = {u}"
  by (auto simp: readings_def)

text \<open>The sections of an operation with nothing in between are the operation.\<close>

lemma run_sections_run_op:
  assumes "max_keys e = 0"
  shows "run_sections X D clk e f = run_op X D clk e f"
proof (cases f)
  case (ODel k)
  then show ?thesis by (simp add: run_sections_def engine_del_def split: prod.split)
next
  case (OIncr k)
  with assms show ?thesis
    by (simp add: run_sections_def engine_incr_def reinsert_def Let_def value_entry_new_def
        split: option.split)
next
  case (OExpire k n)
  then show ?thesis
    by (cases "instant_add (clk 1) (from_secs n)")
      (auto simp del: instant_add_Ret_iff simp: run_sections_def guarded_lookup_def engine_expire_def
        split: option.split)
qed (use assms in \<open>simp_all add: run_sections_def guarded_lookup_def engine_get_def engine_set_def
      engine_exists_def engine_ttl_secs_def split: option.split\<close>)

context zet_engine
begin

lemma set_live_same: "u \<le> t \<Longrightarrow> set_live (live D e t) k (live D e u k) t = live D e t"
  using live_later [of u t e k] by (auto simp: set_live_def fun_eq_iff)

lemma run_op_meaning:
  assumes "max_keys e = 0" and "u \<le> w" and "reads_twice f \<or> u = w"
    and "op_meaning f u w (live D e u (op_key f)) = Ret (a, r)"
  shows "\<exists>e'. run_op X D (readings u w) e f = Ret (a, e') \<and> max_keys e' = 0 \<and>
    (\<forall>t \<ge> u. live D e' t = set_live (live D e t) (op_key f) r t)"
proof (cases f)
  case (OGet k)
  with engine_get_law [of "readings u w" e k] assms set_live_same [of u _ e k] show ?thesis by fastforce
next
  case (OSet k v)
  with assms show ?thesis by (auto simp: engine_set_unlimited live_insert set_live_def)
next
  case (ODel k)
  with engine_del_law [of "readings u w" e k] assms show ?thesis by (fastforce simp: set_live_def)
next
  case (OIncr k)
  with assms have "w = u" by auto
  with OIncr engine_incr_law [of e "readings u u" k] assms show ?thesis
    by (auto simp: set_live_def apfst_def map_prod_def split: prod.splits)
next
  case (OExists k)
  with engine_exists_law [of "readings u w" e k] assms set_live_same [of u _ e k] show ?thesis by fastforce
next
  case (OTtl k)
  with engine_ttl_law [of "readings u w" e k] assms set_live_same [of u _ e k] show ?thesis by fastforce
next
  case (OExpire k n)
  show ?thesis
  proof (cases "live D e u k")
    case None
    with OExpire engine_expire_missing [of e "readings u w" k n] assms set_live_same [of u _ e k]
    show ?thesis by fastforce
  next
    case (Some v)
    with OExpire engine_expire_present [of e "readings u w" k v n] assms
    show ?thesis by (auto simp: obind_eq_Ret_iff live_write set_live_def)
  qed
qed

lemma first_section_Cleaning:
  "first_section X D clk e f = Ret (Cleaning g a, e1) \<Longrightarrow>
     g = f \<and> e1 = e \<and> (\<exists>v. dm_get D (emap e) (op_key f) = Some v \<and> is_expired_at v (clk 0))"
  by (cases f) (auto simp: guarded_lookup_def obind_eq_Ret_iff Let_def split: option.splits if_splits prod.splits)

lemma first_section_Answered: "first_section X D clk e f = Ret (Answered g a, e1) \<Longrightarrow> g = f"
  by (cases f) (auto simp: guarded_lookup_def obind_eq_Ret_iff Let_def split: option.splits if_splits prod.splits)

lemma first_section_Reinserting:
  "first_section X D clk e f = Ret (Reinserting k, e1) \<Longrightarrow>
     f = OIncr k \<and> e1 = e\<lparr>emap := dm_remove D (emap e) k\<rparr> \<and>
     (\<exists>v. dm_get D (emap e) k = Some v \<and> is_expired_at v (clk 0))"
  by (cases f) (auto simp: guarded_lookup_def obind_eq_Ret_iff Let_def split: option.splits if_splits prod.splits)

lemma first_section_task:
  assumes "first_section X D clk e f = Ret (p, e1)"
  obtains (answered) a where "p = Answered f a"
    | (cleaning) a v where "p = Cleaning f a" and "e1 = e"
        and "dm_get D (emap e) (op_key f) = Some v" and "is_expired_at v (clk 0)"
    | (reinserting) k v where "p = Reinserting k" and "f = OIncr k"
        and "e1 = e\<lparr>emap := dm_remove D (emap e) k\<rparr>"
        and "dm_get D (emap e) k = Some v" and "is_expired_at v (clk 0)"
proof (cases p)
  case (Answered g a) with assms first_section_Answered answered show thesis by blast
next
  case (Cleaning g a) with assms first_section_Cleaning cleaning show thesis by blast
next
  case (Reinserting k) with assms first_section_Reinserting reinserting show thesis by blast
qed (use assms in \<open>(cases f; auto simp: guarded_lookup_def obind_eq_Ret_iff Let_def
      split: option.splits if_splits prod.splits)+\<close>)

text \<open>Removing an expired entry, by whomever, cannot be seen.\<close>

lemma agree_drop_if_expired: "agree_from D t (drop_if_expired D e k t) e"
  using is_expired_at_mono [of _ t]
  by (auto simp: agree_from_def live_def drop_if_expired_def live_at_def fun_eq_iff split: option.split)

lemma agree_remove_expired:
  "dm_get D (emap e) k = Some v \<Longrightarrow> is_expired_at v t \<Longrightarrow>
     agree_from D t (e\<lparr>emap := dm_remove D (emap e) k\<rparr>) e"
  using is_expired_at_mono [of v t]
  by (auto simp: agree_from_def live_def live_at_def fun_eq_iff)

lemma agree_reinsert: "agree_from D t e e' \<Longrightarrow> agree_from D t (reinsert D c e k) (reinsert D c e' k)"
  by (simp add: agree_from_def reinsert_def live_insert)

lemma run_op_returns:
  assumes "run_op X D (readings u w) e f = Ret x"
  shows "\<exists>y. op_meaning f u w (live D e u (op_key f)) = Ret y"
proof (cases f)
  case (OExpire k n)
  with assms engine_expire_present [of e "readings u w" k _ n] show ?thesis
    by (cases "live D e u k"; cases "w + from_secs n \<le> instant_max")
      (auto simp: obind_eq_Ret_iff instant_add_def)
qed auto

text \<open>Operations answer alike on states that agree, and lead to states that agree.\<close>

lemma run_op_agree:
  assumes "max_keys e = 0" and "max_keys e' = 0" and "u \<le> w" and "reads_twice f \<or> u = w"
    and "agree_from D u e e'" and "run_op X D (readings u w) e f = Ret (a, e1)"
  obtains e1' where "run_op X D (readings u w) e' f = Ret (a, e1')"
    and "max_keys e1 = 0" and "max_keys e1' = 0" and "agree_from D u e1 e1'"
proof -
  from run_op_returns [OF assms(6)] obtain b r
    where m: "op_meaning f u w (live D e u (op_key f)) = Ret (b, r)" by auto
  from assms(5) have "live D e u = live D e' u" by (simp add: agree_from_def)
  with m have m': "op_meaning f u w (live D e' u (op_key f)) = Ret (b, r)" by simp
  from run_op_meaning [OF assms(1,3,4) m] run_op_meaning [OF assms(2,3,4) m'] assms(5,6) that
  show thesis by (auto simp: agree_from_def)
qed

text \<open>One section, beside the sequence of the effects so far.\<close>

lemma first_section_simulated:
  assumes "max_keys e = 0" and "max_keys e' = 0" and "t \<le> u" and "u \<le> w" and "reads_twice f \<or> u = w"
    and "agree_from D t e e'" and sec: "first_section X D (readings u w) e f = Ret (p, e1)"
  shows "\<exists>e1'. run_effects X D e' (effect_of i u w p) = Some e1' \<and>
    max_keys e1 = 0 \<and> max_keys e1' = 0 \<and> agree_from D w e1 e1'"
proof -
  have agree: "agree_from D u e e'" using assms(3,6) agree_from_later by blast
  have alone: "run_op X D (readings u w) e f = run_sections X D (readings u w) e f"
    using run_sections_run_op [OF assms(1)] by simp
  from sec show ?thesis
  proof (cases rule: first_section_task)
    case (answered a)
    with sec alone have "run_op X D (readings u w) e f = Ret (a, e1)" by (simp add: run_sections_def)
    from run_op_agree [OF assms(1,2,4,5) agree this] obtain e1'
      where "run_op X D (readings u w) e' f = Ret (a, e1')" "max_keys e1 = 0" "max_keys e1' = 0"
        "agree_from D u e1 e1'"
      by blast
    with answered agree_from_later [OF _ assms(4), of D e1 e1'] show ?thesis by simp
  next
    case (cleaning a v)
    let ?e2 = "drop_if_expired D e (op_key f) w"
    from cleaning sec alone have "run_op X D (readings u w) e f = Ret (a, ?e2)"
      by (simp add: run_sections_def)
    from run_op_agree [OF assms(1,2,4,5) agree this] obtain e1'
      where e1': "run_op X D (readings u w) e' f = Ret (a, e1')" "max_keys e1' = 0" "agree_from D u ?e2 e1'"
      by blast
    have "agree_from D w e ?e2"
      using agree_drop_if_expired by (rule agree_from_sym)
    then have "agree_from D w e e1'" using agree_from_later [OF e1'(3) assms(4)] by (rule agree_from_trans)
    with cleaning e1' assms(1) show ?thesis by simp
  next
    case (reinserting k v)
    then have "agree_from D u e1 e'"
      using agree_remove_expired [of e k v u] agree agree_from_trans by fastforce
    with reinserting assms(1,2,4) show ?thesis by (auto intro: agree_from_later)
  qed
qed

lemma run_effects_append:
  "run_effects X D e (xs @ ys) = Option.bind (run_effects X D e xs) (\<lambda>e'. run_effects X D e' ys)"
  by (induction xs arbitrary: e) (auto simp: Option.bind_assoc)

lemma simulatedI:
  "max_keys (shared s) = 0 \<Longrightarrow> run_effects X D e0 (effects s) = Some e \<Longrightarrow> max_keys e = 0 \<Longrightarrow>
     agree_from D (clock_now s) (shared s) e \<Longrightarrow> simulated X D e0 s"
  by (auto simp: simulated_def)

lemma system_step_simulated:
  assumes "system_step X D s s'" and "simulated X D e0 s"
  shows "simulated X D e0 s'"
proof -
  from assms(2) obtain e where e: "max_keys (shared s) = 0" "run_effects X D e0 (effects s) = Some e"
    "max_keys e = 0" "agree_from D (clock_now s) (shared s) e"
    by (auto simp: simulated_def)
  have drop: "agree_from D u (drop_if_expired D (shared s) k u) e" if "clock_now s \<le> u" for k u
    using agree_drop_if_expired agree_from_later [OF e(4) that] by (rule agree_from_trans)
  from assms(1) show ?thesis
  proof cases
    case (locked i f u w p e1)
    from first_section_simulated [OF e(1,3) locked(3-5) e(4) locked(6), of i] e(2) locked(1)
    show ?thesis by (auto simp: simulated_def run_effects_append)
  next
    case (reinsertion i k c)
    with e agree_reinsert [OF e(4), of c k] show ?thesis
      by (auto intro!: simulatedI [where e = "reinsert D c e k"]
          simp: run_effects_append engine_set_unlimited reinsert_def)
  next
    case (panic i f u w)
    with e agree_from_later [OF e(4), of w] show ?thesis by (auto intro!: simulatedI [where e = e])
  qed (use e drop in \<open>auto intro!: simulatedI [where e = e]\<close>)
qed

lemma reaches_simulated:
  assumes "system_reaches X D (start_system e0 t0) s" and "max_keys e0 = 0"
  shows "simulated X D e0 s"
  using assms(1)
  by (induction rule: rtranclp_induct)
    (use assms(2) system_step_simulated in \<open>auto simp: simulated_def start_system_def\<close>)

end

section \<open>The effects of a run\<close>

lemma last_effect_Nil [simp]: "last_effect [] i = None"
  by (simp add: last_effect_def)

lemma last_effect_snoc [simp]:
  "last_effect (xs @ [x]) i =
     (if effect_task x = i then Some (effect_op x, effect_answer x) else last_effect xs i)"
  by (simp add: last_effect_def)

text \<open>A task that has its answer has it from its last effect.\<close>

lemma answers_are_effects:
  assumes "system_reaches X D (start_system e0 t0) s"
    and "task_of s i = Answered f a \<or> task_of s i = Cleaning f a"
  shows "last_effect (effects s) i = Some (f, a)"
  using assms
proof (induction arbitrary: i f a rule: rtranclp_induct)
  case base
  then show ?case by (simp add: start_system_def)
next
  case (step s s')
  from step(2) show ?case
  proof cases
    case (locked j g u w p e1)
    then show ?thesis using step.IH [of i f a] step.prems by (cases p) (auto split: if_splits)
  qed (use step.IH [of i f a] step.prems in \<open>auto split: if_splits\<close>)
qed

text \<open>The clock readings of the effects, in their order, never go back.\<close>

lemma readings_sorted:
  assumes "system_reaches X D (start_system e0 t0) s"
  shows "sorted (concat (map effect_readings (effects s))) \<and>
    (\<forall>x \<in> set (effects s). \<forall>r \<in> set (effect_readings x). r \<le> clock_now s)"
  using assms
proof (induction rule: rtranclp_induct)
  case base
  then show ?case by (simp add: start_system_def)
next
  case (step s s')
  from step(2) show ?case
  proof cases
    case (locked j g u w p e1)
    with step.IH show ?thesis by (cases p) (fastforce simp: sorted_append)+
  qed (use step.IH in \<open>fastforce simp: sorted_append\<close>)+
qed

section \<open>A counter\<close>

text \<open>The operations that count on \<open>k\<close>, read it, or have another key.\<close>

fun keeps_counter :: "key \<Rightarrow> op \<Rightarrow> bool" where
  "keeps_counter k (OSet k' v) = (k' \<noteq> k)"
| "keeps_counter k (ODel k') = (k' \<noteq> k)"
| "keeps_counter k (OExpire k' n) = (k' \<noteq> k)"
| "keeps_counter k _ = True"

definition incrs_of :: "key \<Rightarrow> effect list \<Rightarrow> effect list" where
  "incrs_of k xs = filter (\<lambda>x. effect_op x = OIncr k) xs"

lemma incrs_of_append [simp]: "incrs_of k (xs @ ys) = incrs_of k xs @ incrs_of k ys"
  by (simp add: incrs_of_def)

definition counts :: "'m entries \<Rightarrow> key \<Rightarrow> int \<Rightarrow> value_entry \<Rightarrow> 'm system \<Rightarrow> bool" where
  "counts D k z v s \<longleftrightarrow>
     (let n = length (incrs_of k (effects s)) in
        dm_get D (emap (shared s)) k = Some (v\<lparr>data := show_int (wrap_i64 (z + int n))\<rparr>) \<and>
        map effect_answer (incrs_of k (effects s)) =
          map (\<lambda>j. AIncr (Inr (wrap_i64 (z + 1 + int j)))) [0..<n])"

context zet_engine
begin

lemma first_section_counter:
  assumes "first_section X D clk e f = Ret (p, e1)" and "keeps_counter k f"
    and "dm_get D (emap e) k = Some c" and "expires_at c = None"
    and "parse_i64 (from_utf8_lossy (data c)) = Some y"
  shows "if f = OIncr k
    then p = Answered f (AIncr (Inr (wrap_i64 (y + 1)))) \<and>
      dm_get D (emap e1) k = Some (c\<lparr>data := show_int (wrap_i64 (y + 1))\<rparr>)
    else dm_get D (emap e1) k = Some c \<and> p \<noteq> Reinserting k"
proof (cases f)
  case (ODel k')
  let ?m = "snd (dm_remove_if D (emap e) k' (\<lambda>v. \<not> is_expired_at v (clk 0)))"
  have "dm_get D ?m k = Some c" using ODel assms(2,3) by simp
  moreover have "e1 = e\<lparr>emap := ?m\<rparr>" and "p \<noteq> Reinserting k" using ODel assms(1) by (auto split: prod.splits)
  ultimately show ?thesis using ODel by simp
qed (use assms in \<open>auto simp: guarded_lookup_def obind_eq_Ret_iff Let_def itoa_decimal
      split: option.splits if_splits prod.splits\<close>)

lemma drop_if_expired_permanent:
  "dm_get D (emap e) k = Some c \<Longrightarrow> expires_at c = None \<Longrightarrow>
     dm_get D (emap (drop_if_expired D e k' u)) k = Some c"
  by (auto simp: drop_if_expired_def)

lemma counts_same:
  assumes "counts D k z v s" and "expires_at v = None"
    and "incrs_of k (effects s') = incrs_of k (effects s)"
    and "\<And>c. dm_get D (emap (shared s)) k = Some c \<Longrightarrow> expires_at c = None \<Longrightarrow>
      dm_get D (emap (shared s')) k = Some c"
  shows "counts D k z v s'"
  using assms by (simp add: counts_def Let_def)

lemma counts_incr:
  assumes "counts D k z v s" and "effects s' = effects s @ [Took i u w (OIncr k) (AIncr (Inr (wrap_i64 y)))]"
    and "y = z + int (length (incrs_of k (effects s))) + 1"
    and "dm_get D (emap (shared s')) k = Some (v\<lparr>data := show_int (wrap_i64 y)\<rparr>)"
  shows "counts D k z v s'"
  using assms by (simp add: counts_def Let_def incrs_of_def algebra_simps)

lemma system_step_counts:
  assumes "system_step X D s s'" and "expires_at v = None"
    and keeps: "\<forall>x \<in> set (effects s'). keeps_counter k (effect_op x)"
    and "counts D k z v s" and "\<forall>i. task_of s i \<noteq> Reinserting k"
  shows "counts D k z v s' \<and> (\<forall>i. task_of s' i \<noteq> Reinserting k)"
  using assms(1)
proof cases
  case (locked i f u w p e1)
  let ?n = "length (incrs_of k (effects s))"
  let ?c = "v\<lparr>data := show_int (wrap_i64 (z + int ?n))\<rparr>"
  have c: "dm_get D (emap (shared s)) k = Some ?c" "expires_at ?c = None"
      "parse_i64 (from_utf8_lossy (data ?c)) = Some (wrap_i64 (z + int ?n))"
    using assms(2,4) by (simp_all add: counts_def Let_def parse_i64_lossy_show_int)
  have f: "keeps_counter k f"
    using locked(6) by (cases rule: first_section_task) (use keeps locked(1) in simp_all)
  note sec = first_section_counter [OF locked(6) f c]
  show ?thesis
  proof (cases "f = OIncr k")
    case True
    with sec have p: "p = Answered f (AIncr (Inr (wrap_i64 (z + int ?n + 1))))"
        and e1: "dm_get D (emap e1) k = Some (v\<lparr>data := show_int (wrap_i64 (z + int ?n + 1))\<rparr>)"
      by (simp_all add: wrap_i64_wrap_add)
    have "counts D k z v s'"
      by (rule counts_incr [OF assms(4), of s' i u w "z + int ?n + 1"])
        (use True p e1 locked(1) in simp_all)
    with p assms(5) locked(1) show ?thesis by simp
  next
    case False
    with sec have p: "p \<noteq> Reinserting k" and e1: "dm_get D (emap e1) k = Some ?c" by simp_all
    have "incrs_of k (effect_of i u w p) = []"
      using locked(6) False by (cases rule: first_section_task) (auto simp: incrs_of_def)
    then have "counts D k z v s'"
      using e1 c(1) by (intro counts_same [OF assms(4,2)]) (simp_all add: locked(1))
    with p assms(5) locked(1) show ?thesis by simp
  qed
next
  case (reinsertion i k' c)
  with assms(5) have "k' \<noteq> k" by auto
  with reinsertion assms(5) show ?thesis
    by (auto intro!: counts_same [OF assms(4,2)] simp: reinsert_def incrs_of_def)
qed (use assms(2,5) in \<open>auto intro!: counts_same [OF assms(4,2)] drop_if_expired_permanent\<close>)

lemma effects_grow: "system_step X D s s' \<Longrightarrow> set (effects s) \<subseteq> set (effects s')"
  by (cases rule: system_step.cases) auto

lemma reaches_counts:
  assumes "system_reaches X D (start_system e0 t0) s"
    and "dm_get D (emap e0) k = Some v" and "expires_at v = None"
    and "data v = show_int z" and "in_i64 z"
    and "\<forall>x \<in> set (effects s). keeps_counter k (effect_op x)"
  shows "counts D k z v s \<and> (\<forall>i. task_of s i \<noteq> Reinserting k)"
  using assms(1,6)
proof (induction rule: rtranclp_induct)
  case base
  with assms show ?case by (simp add: counts_def start_system_def incrs_of_def)
next
  case (step s s')
  have "\<forall>x \<in> set (effects s). keeps_counter k (effect_op x)"
    using effects_grow [OF step(2)] step.prems by blast
  with step system_step_counts [OF step(2) assms(3) step.prems] show ?case by blast
qed

end

section \<open>An example run\<close>

text \<open>Two tasks call INCR on the counter 41; the second one to call runs first.\<close>

definition demo_counter :: "bytes \<Rightarrow> (key, value_entry) alist engine" where
  "demo_counter d = demo_engine 0 [(''n'', demo_entry d None 0)]"

definition demo_run :: "(key, value_entry) alist system" where
  "demo_run =
     \<lparr>shared = demo_counter ''43'', clock_now = 7,
      task_of = (\<lambda>_. Idle)(0 := Answered (OIncr ''n'') (AIncr (Inr 43)), 1 := Answered (OIncr ''n'') (AIncr (Inr 42))),
      effects = [Took 1 6 6 (OIncr ''n'') (AIncr (Inr 42)), Took 0 7 7 (OIncr ''n'') (AIncr (Inr 43))]\<rparr>"

lemma demo_counter_incr:
  assumes "parse_i64 (from_utf8_lossy d) = Some z" and "show_int (wrap_i64 (z + 1)) = d'"
  shows "first_section reference_crates alist_dashmap clk (demo_counter d) (OIncr ''n'') =
    Ret (Answered (OIncr ''n'') (AIncr (Inr (wrap_i64 (z + 1)))), demo_counter d')"
  using assms by (simp add: demo_counter_def demo_engine_def demo_entry_def alist_dashmap_def
      reference_crates_def Let_def is_expired_at_def)

lemma demo_reaches:
  "system_reaches reference_crates alist_dashmap (start_system (demo_counter ''41'') 5) demo_run"
proof -
  let ?s0 = "start_system (demo_counter ''41'') 5"
  let ?f = "OIncr ''n''"
  let ?a = "AIncr (Inr 42)" and ?b = "AIncr (Inr 43)"
  let ?s1 = "?s0\<lparr>task_of := (task_of ?s0)(0 := Called ?f)\<rparr>"
  let ?s2 = "?s1\<lparr>task_of := (task_of ?s1)(1 := Called ?f)\<rparr>"
  let ?s3 = "?s2\<lparr>shared := demo_counter ''42'', clock_now := 6, task_of := (task_of ?s2)(1 := Answered ?f ?a),
      effects := effects ?s2 @ effect_of 1 6 6 (Answered ?f ?a)\<rparr>"
  let ?s4 = "?s3\<lparr>shared := demo_counter ''43'', clock_now := 7, task_of := (task_of ?s3)(0 := Answered ?f ?b),
      effects := effects ?s3 @ effect_of 0 7 7 (Answered ?f ?b)\<rparr>"
  let ?step = "system_step reference_crates alist_dashmap"
  have i42: "parse_i64 (from_utf8_lossy ''41'') = Some 41" "show_int (wrap_i64 (41 + 1)) = ''42''"
    and i43: "parse_i64 (from_utf8_lossy ''42'') = Some 42" "show_int (wrap_i64 (42 + 1)) = ''43''"
    and w: "wrap_i64 (41 + 1) = 42" "wrap_i64 (42 + 1) = 43"
    by code_simp+
  have "?step ?s0 ?s1" by (rule invoke) (simp add: start_system_def)
  moreover have "?step ?s1 ?s2" by (rule invoke) (simp add: start_system_def)
  moreover have "?step ?s2 ?s3"
    by (rule locked [where f = ?f])
      (use demo_counter_incr [OF i42] w in \<open>simp_all add: start_system_def del: first_section.simps\<close>)
  moreover have "?step ?s3 ?s4"
    by (rule locked [where f = ?f])
      (use demo_counter_incr [OF i43] w in \<open>simp_all add: start_system_def del: first_section.simps\<close>)
  ultimately have "system_reaches reference_crates alist_dashmap ?s0 ?s4"
    by (meson converse_rtranclp_into_rtranclp rtranclp.rtrancl_refl)
  then show ?thesis by (simp add: start_system_def demo_run_def fun_upd_twist fun_upd_upd)
qed

section \<open>Properties\<close>

text \<open>
  (C3) The engine shared by any number of tasks and the sweeper answers as if its operations
  ran one after the other. In every reachable state the operations that have taken effect,
  each run in one piece by the definitions of the engine in the order of their effects and
  with clock readings that never go back, give the answers they gave, and lead to a state
  that agrees with the shared engine from now on; a task returns the answer of its last
  effect. The removals of expired entries in between cannot be seen. The one exception is
  an INCR that found its key expired: it acts as a SET to 1.
\<close>

theorem concurrent_operations_linearize:
  assumes "zet_engine D X" and "max_keys e0 = 0"
    and "system_reaches X D (start_system e0 t0) s"
  shows "(\<exists>e. run_effects X D e0 (effects s) = Some e \<and>
      (\<forall>t \<ge> clock_now s. live D (shared s) t = live D e t)) \<and>
    sorted (concat (map effect_readings (effects s))) \<and>
    (\<forall>i f a. task_of s i = Answered f a \<longrightarrow> last_effect (effects s) i = Some (f, a))"
proof -
  from zet_engine.reaches_simulated [OF assms(1,3,2)] have
    "\<exists>e. run_effects X D e0 (effects s) = Some e \<and> (\<forall>t \<ge> clock_now s. live D (shared s) t = live D e t)"
    by (auto simp: simulated_def agree_from_def)
  with readings_sorted [OF assms(3)] answers_are_effects [OF assms(3)] show ?thesis by blast
qed

theorem concurrent_operations_linearize_witness:
  "\<exists>e. run_effects reference_crates alist_dashmap (demo_counter ''41'') (effects demo_run) = Some e \<and>
     live alist_dashmap (shared demo_run) 9 = live alist_dashmap e 9"
  using concurrent_operations_linearize [OF reference_engine.zet_engine_axioms _ demo_reaches]
  by (auto simp: demo_counter_def demo_engine_def demo_run_def)

text \<open>
  The sections into which an operation is cut make up the operation: run with nothing in
  between they give its answer and its state, panics included.
\<close>

theorem sections_make_operation:
  assumes "max_keys e = 0"
  shows "run_sections X D clk e f = run_op X D clk e f"
  using assms by (rule run_sections_run_op)

theorem sections_make_operation_witness:
  "run_sections reference_crates alist_dashmap id (demo_counter ''41'') (OTtl ''n'') =
     run_op reference_crates alist_dashmap id (demo_counter ''41'') (OTtl ''n'')"
  by (rule sections_make_operation) (simp add: demo_counter_def demo_engine_def)

text \<open>
  (C17) No INCR is lost on a counter that does not expire. Tasks increment and read a key with
  the decimal value \<open>z\<close> in any interleaving, with any operations on other keys: the
  answers are the successive values in the order of the effects, so no two of them are the
  same until the counter wraps around, and the stored value is \<open>z\<close> plus the number
  of the increments that have taken effect.
\<close>

theorem concurrent_incr_counts:
  assumes "zet_engine D X" and "system_reaches X D (start_system e0 t0) s"
    and "dm_get D (emap e0) k = Some v" and "expires_at v = None"
    and "data v = show_int z" and "in_i64 z"
    and "\<forall>x \<in> set (effects s). keeps_counter k (effect_op x)"
    and "n = length (filter (\<lambda>x. effect_op x = OIncr k) (effects s))"
  shows "dm_get D (emap (shared s)) k = Some (v\<lparr>data := show_int (wrap_i64 (z + int n))\<rparr>) \<and>
    map effect_answer (filter (\<lambda>x. effect_op x = OIncr k) (effects s)) =
      map (\<lambda>j. AIncr (Inr (wrap_i64 (z + 1 + int j)))) [0..<n]"
  using zet_engine.reaches_counts [OF assms(1-7)] assms(8) by (simp add: counts_def incrs_of_def Let_def)

theorem concurrent_incr_counts_witness:
  "dm_get alist_dashmap (emap (shared demo_run)) ''n'' = Some ((demo_entry ''41'' None 0)\<lparr>data := show_int (wrap_i64 43)\<rparr>)"
proof -
  have "''41'' = show_int 41" by code_simp
  then have v: "dm_get alist_dashmap (emap (demo_counter ''41'')) ''n'' = Some (demo_entry ''41'' None 0)"
      "expires_at (demo_entry ''41'' None 0) = None" "data (demo_entry ''41'' None 0) = show_int 41" "in_i64 41"
    by (simp_all add: demo_counter_def demo_engine_def demo_entry_def alist_dashmap_def in_i64_def)
  show ?thesis
    using concurrent_incr_counts [OF reference_engine.zet_engine_axioms demo_reaches v _ refl]
    by (simp add: demo_run_def)
qed

text \<open>
  (C34) An INCR that finds its key expired is not atomic: it removes the entry, gives the shard
  up, and inserts 1 whatever has been stored in between. Two tasks that increment the key
  both answer 1, and the value is 1: an increment is lost.
\<close>

theorem incr_expired_loses_update:
  assumes "zet_engine D X" and "dm_get D (emap e0) k = Some v" and "is_expired_at v t"
  shows "\<exists>s. system_reaches X D (start_system e0 t) s \<and>
    task_of s 0 = Answered (OIncr k) (AIncr (Inr 1)) \<and>
    task_of s 1 = Answered (OIncr k) (AIncr (Inr 1)) \<and>
    (\<forall>u. map_option data (live D (shared s) u k) = Some ''1'')"
proof -
  have ds: "dashmap_spec D" using assms(1) by (simp add: zet_engine_def)
  let ?s0 = "start_system e0 t"
  let ?s1 = "?s0\<lparr>task_of := (task_of ?s0)(0 := Called (OIncr k))\<rparr>"
  let ?s2 = "?s1\<lparr>task_of := (task_of ?s1)(1 := Called (OIncr k))\<rparr>"
  let ?e3 = "e0\<lparr>emap := dm_remove D (emap e0) k\<rparr>"
  let ?s3 = "?s2\<lparr>shared := ?e3, clock_now := t, task_of := (task_of ?s2)(0 := Reinserting k),
      effects := effects ?s2 @ effect_of 0 t t (Reinserting k)\<rparr>"
  let ?a = "AIncr (Inr 1)"
  let ?e4 = "?e3\<lparr>emap := dm_insert D (emap ?e3) k (value_entry_new (readings t t) ''1'')\<rparr>"
  let ?s4 = "?s3\<lparr>shared := ?e4, clock_now := t, task_of := (task_of ?s3)(1 := Answered (OIncr k) ?a),
      effects := effects ?s3 @ effect_of 1 t t (Answered (OIncr k) ?a)\<rparr>"
  let ?s5 = "?s4\<lparr>shared := reinsert D t (shared ?s4) k,
      task_of := (task_of ?s4)(0 := Answered (OIncr k) ?a), effects := effects ?s4 @ [Restarted 0 k t]\<rparr>"
  have "system_step X D ?s0 ?s1" by (rule invoke) (simp add: start_system_def)
  moreover have "system_step X D ?s1 ?s2" by (rule invoke) (simp add: start_system_def)
  moreover have "system_step X D ?s2 ?s3"
    by (rule locked [where f = "OIncr k"]) (use assms(2,3) in \<open>simp_all add: start_system_def\<close>)
  moreover have "system_step X D ?s3 ?s4"
    by (rule locked [where f = "OIncr k"])
      (use assms(2,3) in \<open>simp_all add: start_system_def dashmap_spec.get_remove [OF ds]\<close>)
  moreover have "system_step X D ?s4 ?s5" by (rule reinsertion) (simp_all add: start_system_def)
  ultimately have "system_reaches X D ?s0 ?s5"
    by (meson converse_rtranclp_into_rtranclp rtranclp.rtrancl_refl)
  then show ?thesis
    by (rule exI [of _ ?s5, OF conjI])
      (simp add: start_system_def reinsert_def live_def dashmap_spec.get_insert [OF ds] live_at_def)
qed

theorem incr_expired_loses_update_witness:
  "\<exists>s. system_reaches reference_crates alist_dashmap
      (start_system (demo_engine 0 [(''n'', demo_entry ''41'' (Some 5) 0)]) 9) s \<and>
    task_of s 0 = Answered (OIncr ''n'') (AIncr (Inr 1)) \<and>
    task_of s 1 = Answered (OIncr ''n'') (AIncr (Inr 1)) \<and>
    (\<forall>u. map_option data (live alist_dashmap (shared s) u ''n'') = Some ''1'')"
  by (rule incr_expired_loses_update [OF reference_engine.zet_engine_axioms, where v = "demo_entry ''41'' (Some 5) 0"])
    (simp_all add: demo_engine_def demo_entry_def alist_dashmap_def is_expired_at_def)

end
