(* ===== verification/Concurrency_Multi.thy ===== *)
theory Concurrency_Multi
  imports Concurrency_Props
begin

text \<open>
  MGET among other tasks. \<open>DashMapEngine::mget\<close> (\<open>src/src/storage/dashmap_engine.rs\<close>) reads the
  clock once and then looks its keys up one by one; it holds a shard only during one look-up,
  so that every other task may run between two of them. This theory lets an MGET and a
  system of tasks interleave: every element of the result was the live value of its key when
  the task looked, keys that nobody writes meanwhile are read as in one piece, and the result
  as a whole need not be the state of the store at any time.
\<close>

section \<open>Look-ups among other tasks\<close>

text \<open>The closure of the loop: one look-up, under the shard of its key.\<close>

definition mget_lookup :: "'m entries \<Rightarrow> instant \<Rightarrow> 'm engine \<Rightarrow> key \<Rightarrow> value_entry option" where
  "mget_lookup D now e k =
     (case dm_get D (emap e) k of None \<Rightarrow> None
      | Some v \<Rightarrow> if is_expired_at v now then None else Some v)"

text \<open>The system, the keys still to be looked up, and what was found so far.\<close>

type_synonym 'm scan = "'m system \<times> key list \<times> value_entry option list"

inductive mget_step :: "crates \<Rightarrow> 'm entries \<Rightarrow> instant \<Rightarrow> 'm scan \<Rightarrow> 'm scan \<Rightarrow> bool" for X D now where
  others: "system_step X D s s' \<Longrightarrow> mget_step X D now (s, ks, rs) (s', ks, rs)"
| look_up: "mget_step X D now (s, k # ks, rs) (s, ks, rs @ [mget_lookup D now (shared s) k])"

text \<open>
  An MGET called in the state \<open>s\<close> reads the clock and returns \<open>rs\<close> in the state \<open>s'\<close>.
\<close>

definition mget_returns ::
  "crates \<Rightarrow> 'm entries \<Rightarrow> instant \<Rightarrow> 'm system \<Rightarrow> key list \<Rightarrow> 'm system \<Rightarrow> value_entry option list \<Rightarrow> bool" where
  "mget_returns X D now s ks s' rs \<longleftrightarrow>
     clock_now s \<le> now \<and> (mget_step X D now)\<^sup>*\<^sup>* (s\<lparr>clock_now := now\<rparr>, ks, []) (s', [], rs)"

lemma mget_lookup_live: "mget_lookup D now e k = live D e now k"
  by (simp add: mget_lookup_def live_def live_at_def split: option.split)

lemma engine_mget_lookups: "engine_mget D clk e ks = map (mget_lookup D (clk 0) e) ks"
  by (simp add: engine_mget_def mget_lookup_def)

text \<open>With nothing in between the look-ups are the operation of the engine.\<close>

lemma mget_alone:
  "(mget_step X D now)\<^sup>*\<^sup>* (s, ks, rs) (s, [], rs @ engine_mget D (\<lambda>_. now) (shared s) ks)"
proof (induction ks arbitrary: rs)
  case (Cons k ks)
  have "mget_step X D now (s, k # ks, rs) (s, ks, rs @ [mget_lookup D now (shared s) k])" by (rule look_up)
  with Cons [of "rs @ [mget_lookup D now (shared s) k]"] show ?case
    by (simp add: engine_mget_lookups converse_rtranclp_into_rtranclp)
qed (simp add: engine_mget_lookups)

section \<open>The states that were read\<close>

text \<open>
  The look-ups happen in states of the run, one after the other: the first is reached from
  the state of the call, and the state of the return from the last.
\<close>

definition read_in_order ::
  "crates \<Rightarrow> 'm entries \<Rightarrow> instant \<Rightarrow> 'm system \<Rightarrow> key list \<Rightarrow> 'm system list \<Rightarrow> 'm system \<Rightarrow>
     value_entry option list \<Rightarrow> bool" where
  "read_in_order X D now s ks ss s' rs \<longleftrightarrow>
     length ss = length ks \<and> successively (system_reaches X D) (s # ss @ [s']) \<and>
     rs = map2 (\<lambda>s k. live D (shared s) now k) ss ks"

lemma read_in_order_Nil: "system_reaches X D s s' \<Longrightarrow> read_in_order X D now s [] [] s' []"
  by (simp add: read_in_order_def)

lemma read_in_order_Cons:
  assumes "read_in_order X D now s ks ss s' rs"
  shows "read_in_order X D now s (k # ks) (s # ss) s' (live D (shared s) now k # rs)"
  using assms by (simp add: read_in_order_def)

lemma read_in_order_before:
  assumes "system_step X D s1 s2" and "read_in_order X D now s2 ks ss s' rs"
  shows "read_in_order X D now s1 ks ss s' rs"
  using assms by (auto simp: read_in_order_def successively_Cons intro: converse_rtranclp_into_rtranclp)

lemma mget_read_in_order:
  assumes "(mget_step X D now)\<^sup>*\<^sup>* (s, ks, rs0) (s', [], rs)"
  shows "\<exists>ss rs1. rs = rs0 @ rs1 \<and> read_in_order X D now s ks ss s' rs1"
  using assms
proof (induction "(s, ks, rs0)" arbitrary: s ks rs0 rule: converse_rtranclp_induct)
  case base
  then show ?case using read_in_order_Nil by fastforce
next
  case (step c)
  from step(1) show ?case
  proof cases
    case (others s2)
    from step(3) [OF others(1)] obtain ss rs1 where
      "rs = rs0 @ rs1" and "read_in_order X D now s2 ks ss s' rs1" by blast
    with read_in_order_before [OF others(2)] show ?thesis by blast
  next
    case (look_up k ks2)
    from step(3) [OF look_up(2)] obtain ss rs1 where
      "rs = (rs0 @ [live D (shared s) now k]) @ rs1" and "read_in_order X D now s ks2 ss s' rs1"
      by (auto simp: mget_lookup_live)
    with look_up(1) show ?thesis
      by (intro exI [of _ "s # ss"] exI [of _ "live D (shared s) now k # rs1"]) (simp add: read_in_order_Cons)
  qed
qed

section \<open>Keys that nobody writes\<close>

fun writes :: "op \<Rightarrow> bool" where
  "writes (OGet k) = False"
| "writes (OExists k) = False"
| "writes (OTtl k) = False"
| "writes _ = True"

text \<open>The effects of a run that change the entry of the key.\<close>

definition writes_to :: "key \<Rightarrow> effect list \<Rightarrow> effect list" where
  "writes_to k xs = filter (\<lambda>x. writes (effect_op x) \<and> op_key (effect_op x) = k) xs"

lemma writes_to_append [simp]: "writes_to k (xs @ ys) = writes_to k xs @ writes_to k ys"
  by (simp add: writes_to_def)

definition never_expires :: "'m entries \<Rightarrow> key \<Rightarrow> 'm system \<Rightarrow> bool" where
  "never_expires D k s \<longleftrightarrow> (\<forall>v. dm_get D (emap (shared s)) k = Some v \<longrightarrow> expires_at v = None)"

lemma system_step_effects: "system_step X D s s' \<Longrightarrow> \<exists>xs. effects s' = effects s @ xs"
  by (cases rule: system_step.cases) auto

lemma system_reaches_effects: "system_reaches X D s s' \<Longrightarrow> \<exists>xs. effects s' = effects s @ xs"
  by (induction rule: rtranclp_induct) (use system_step_effects in force)+

context zet_engine
begin

lemma drop_if_expired_never_expires:
  "never_expires D k s \<Longrightarrow> dm_get D (emap (drop_if_expired D (shared s) k' u)) k = dm_get D (emap (shared s)) k"
  by (auto simp: drop_if_expired_def never_expires_def)

lemma first_section_quiet:
  assumes "first_section X D clk (shared s) f = Ret (p, e)" and "never_expires D k s"
    and "writes_to k (effect_of i u w p) = []"
  shows "dm_get D (emap e) k = dm_get D (emap (shared s)) k"
proof (cases f)
  case (ODel k')
  let ?m = "snd (dm_remove_if D (emap (shared s)) k' (\<lambda>v. \<not> is_expired_at v (clk 0)))"
  have "e = (shared s)\<lparr>emap := ?m\<rparr>" and "k' \<noteq> k"
    using ODel assms(1,3) by (auto simp: writes_to_def split: prod.splits if_splits)
  then show ?thesis by simp
qed (use assms in \<open>auto simp: guarded_lookup_def obind_eq_Ret_iff Let_def never_expires_def writes_to_def
      is_expired_at_def split: option.splits if_splits\<close>)

lemma system_step_quiet:
  assumes "system_step X D s s'" and "never_expires D k s" and "writes_to k (effects s') = writes_to k (effects s)"
  shows "dm_get D (emap (shared s')) k = dm_get D (emap (shared s)) k"
  using assms(1)
proof cases
  case (locked i f u w p e)
  have "writes_to k (effect_of i u w p) = []" using assms(3) by (simp add: locked(1))
  with first_section_quiet [OF locked(6) assms(2)] show ?thesis by (simp add: locked(1))
next
  case (reinsertion i k' c)
  with assms(3) have "k' \<noteq> k" by (auto simp: writes_to_def)
  with reinsertion show ?thesis by (simp add: reinsert_def)
qed (use assms(2) in \<open>simp_all add: drop_if_expired_never_expires\<close>)

lemma system_reaches_quiet:
  assumes "system_reaches X D s s'" and "never_expires D k s" and "writes_to k (effects s') = writes_to k (effects s)"
  shows "dm_get D (emap (shared s')) k = dm_get D (emap (shared s)) k"
  using assms(1,3)
proof (induction rule: rtranclp_induct)
  case (step s1 s2)
  from system_reaches_effects [OF step(1)] system_step_effects [OF step(2)] step.prems
  have w: "writes_to k (effects s1) = writes_to k (effects s)" "writes_to k (effects s2) = writes_to k (effects s1)"
    by auto
  from step.IH [OF w(1)] assms(2) have "never_expires D k s1" by (simp add: never_expires_def)
  from system_step_quiet [OF step(2) this w(2)] step.IH [OF w(1)] show ?case by simp
qed simp

lemma read_in_order_quiet:
  assumes "read_in_order X D now s ks ss s' rs" and "i < length ks" and "never_expires D (ks ! i) s"
    and "writes_to (ks ! i) (effects s') = writes_to (ks ! i) (effects s)"
  shows "rs ! i = live D (shared s) now (ks ! i)"
proof -
  let ?k = "ks ! i" and ?s = "ss ! i"
  have i: "i < length ss" and run: "successively (system_reaches X D) (s # ss @ [s'])"
    using assms(1,2) by (simp_all add: read_in_order_def)
  have "sorted_wrt (system_reaches X D) (s # ss @ [s'])"
    using run by (simp add: successively_iff_sorted_wrt_strong)
  with i have r: "system_reaches X D s ?s" "system_reaches X D ?s s'" by (auto simp: sorted_wrt_append)
  with system_reaches_effects [OF r(1)] system_reaches_effects [OF r(2)] assms(4)
  have "writes_to ?k (effects ?s) = writes_to ?k (effects s)" by auto
  from system_reaches_quiet [OF r(1) assms(3) this] have "live D (shared ?s) now ?k = live D (shared s) now ?k"
    by (simp add: live_def)
  with assms(1) i show ?thesis by (simp add: read_in_order_def)
qed

end

section \<open>Runs of single tasks\<close>

lemma mget_others:
  "system_reaches X D s s' \<Longrightarrow> (mget_step X D now)\<^sup>*\<^sup>* (s, ks, rs) (s', ks, rs)"
  by (induction rule: rtranclp_induct) (auto intro: others rtranclp.rtrancl_into_rtrancl)

lemma mget_look_up:
  "(mget_step X D now)\<^sup>*\<^sup>* (s, k # ks, rs) (s, ks, rs @ [mget_lookup D now (shared s) k])"
  by (rule r_into_rtranclp, rule look_up)

text \<open>An MGET of two keys, with other tasks between the look-ups.\<close>

lemma mget_of_two:
  assumes "system_reaches X D s s'" and "clock_now s = now"
  shows "mget_returns X D now s [a, b] s' [mget_lookup D now (shared s) a, mget_lookup D now (shared s') b]"
proof -
  let ?rs = "[mget_lookup D now (shared s) a]"
  have idem: "s\<lparr>clock_now := now\<rparr> = s" using assms(2) by simp
  have "(mget_step X D now)\<^sup>*\<^sup>* (s, [a, b], []) (s, [b], ?rs)"
    using mget_look_up [of X D now s a "[b]" "[]"] by simp
  from rtranclp_trans [OF this mget_others [OF assms(1)]]
  have "(mget_step X D now)\<^sup>*\<^sup>* (s, [a, b], []) (s', [b], ?rs)" .
  from rtranclp_trans [OF this mget_look_up] show ?thesis
    unfolding mget_returns_def idem using assms(2) by simp
qed

text \<open>A task that was idle stores a value and returns.\<close>

definition after_set :: "'m entries \<Rightarrow> nat \<Rightarrow> key \<Rightarrow> value_entry \<Rightarrow> 'm system \<Rightarrow> 'm system" where
  "after_set D i k v s =
     s\<lparr>shared := (shared s)\<lparr>emap := dm_insert D (emap (shared s)) k v\<rparr>,
       effects := effects s @ [Took i (clock_now s) (clock_now s) (OSet k v) (ASet (Inr ()))]\<rparr>"

lemma after_set_sel [simp]:
  "shared (after_set D i k v s) = (shared s)\<lparr>emap := dm_insert D (emap (shared s)) k v\<rparr>"
  "clock_now (after_set D i k v s) = clock_now s" "task_of (after_set D i k v s) = task_of s"
  "effects (after_set D i k v s) = effects s @ [Took i (clock_now s) (clock_now s) (OSet k v) (ASet (Inr ()))]"
  by (simp_all add: after_set_def)

lemma reaches_after_set:
  assumes "task_of s i = Idle"
  shows "system_reaches X D s (after_set D i k v s)"
proof -
  let ?f = "OSet k v" and ?a = "ASet (Inr ())" and ?t = "clock_now s"
  let ?e = "(shared s)\<lparr>emap := dm_insert D (emap (shared s)) k v\<rparr>"
  let ?s1 = "s\<lparr>task_of := (task_of s)(i := Called ?f)\<rparr>"
  let ?s2 = "?s1\<lparr>shared := ?e, clock_now := ?t, task_of := (task_of ?s1)(i := Answered ?f ?a),
      effects := effects ?s1 @ effect_of i ?t ?t (Answered ?f ?a)\<rparr>"
  let ?s3 = "?s2\<lparr>task_of := (task_of ?s2)(i := Idle)\<rparr>"
  have "system_step X D s ?s1" using assms by (rule invoke)
  moreover have "system_step X D ?s1 ?s2" by (rule locked [where f = ?f]) simp_all
  moreover have "system_step X D ?s2 ?s3" by (rule return) simp
  ultimately have "system_reaches X D s ?s3"
    by (meson converse_rtranclp_into_rtranclp rtranclp.rtrancl_refl)
  then show ?thesis using assms by (simp add: after_set_def fun_upd_idem)
qed

section \<open>Properties\<close>

text \<open>
  (C18) An MGET among any number of other tasks and the sweeper. Its result lists, key by key,
  the value that was live at the time of the call in a state of the run, and these states
  follow each other in the order of the keys. A key without expiry that no operation writes
  to during the MGET has the value that the MGET of the engine, in one piece, finds at the
  time of the call.
\<close>

theorem mget_reads_live_values:
  assumes "zet_engine D X" and "mget_returns X D now s ks s' rs"
  shows "(\<exists>ss. read_in_order X D now (s\<lparr>clock_now := now\<rparr>) ks ss s' rs) \<and>
    (\<forall>i < length ks. never_expires D (ks ! i) s \<longrightarrow>
       writes_to (ks ! i) (effects s') = writes_to (ks ! i) (effects s) \<longrightarrow>
       rs ! i = engine_mget D (\<lambda>_. now) (shared s) ks ! i)"
proof -
  from assms(2) obtain ss where ss: "read_in_order X D now (s\<lparr>clock_now := now\<rparr>) ks ss s' rs"
    using mget_read_in_order [of X D now "s\<lparr>clock_now := now\<rparr>" ks "[]" s' rs]
    by (auto simp: mget_returns_def)
  with zet_engine.read_in_order_quiet [OF assms(1) ss] show ?thesis
    by (auto simp: engine_mget_lookups mget_lookup_live never_expires_def)
qed

text \<open>
  An MGET may return what the store never held. A task sets two keys one after the other
  while an MGET reads them; the MGET returns the old value of the first and the new value of
  the second, and none of the states between the two SETs has both.
\<close>

theorem mget_torn:
  assumes "zet_engine D X" and "max_keys e0 = 0" and "a \<noteq> b"
    and "dm_get D (emap e0) a = Some va" and "dm_get D (emap e0) b = Some vb"
    and "\<forall>v \<in> {va, vb, wa, wb}. expires_at v = None" and "va \<noteq> wa" and "vb \<noteq> wb"
  shows "\<exists>s. mget_returns X D t (start_system e0 t) [a, b] s [Some va, Some wb] \<and>
    length (effects s) = 2 \<and>
    (\<forall>n e. run_effects X D e0 (take n (effects s)) = Some e \<longrightarrow>
       engine_mget D (\<lambda>_. t) e [a, b] \<noteq> [Some va, Some wb])"
proof -
  have ds: "dashmap_spec D" using assms(1) by (simp add: zet_engine_def)
  note get = dashmap_spec.get_insert [OF ds]
  let ?s0 = "start_system e0 t"
  let ?s1 = "after_set D 0 a wa ?s0"
  let ?s2 = "after_set D 0 b wb ?s1"
  have live: "\<not> is_expired_at va t" "\<not> is_expired_at wb t" using assms(6) by (simp_all add: is_expired_at_def)
  have l: "mget_lookup D t (shared ?s0) a = Some va" "mget_lookup D t (shared ?s2) b = Some wb"
    using assms(3,4) live by (simp_all add: mget_lookup_def start_system_def get)
  have "system_reaches X D ?s0 ?s1" by (rule reaches_after_set) (simp add: start_system_def)
  moreover have "system_reaches X D ?s1 ?s2" by (rule reaches_after_set) (simp add: start_system_def)
  ultimately have "system_reaches X D ?s0 ?s2" by (rule rtranclp_trans)
  from mget_of_two [OF this, of t a b] l have "mget_returns X D t ?s0 [a, b] ?s2 [Some va, Some wb]"
    by (simp add: start_system_def)
  moreover have "engine_mget D (\<lambda>_. t) e [a, b] \<noteq> [Some va, Some wb]"
    if "run_effects X D e0 (take n (effects ?s2)) = Some e" for n e
  proof -
    consider "n = 0" | "n = 1" | "n \<ge> 2" by linarith
    then show ?thesis
      using that assms(2-5,7,8)
      by cases (auto simp: engine_mget_def start_system_def engine_set_def get value_entry_new_def split: option.splits if_splits)
  qed
  ultimately show ?thesis by (intro exI [of _ ?s2]) (simp add: start_system_def)
qed

section \<open>An example\<close>

definition demo_pair :: "(key, value_entry) alist engine" where
  "demo_pair = demo_engine 0 [(''a'', demo_entry ''1'' None 0), (''b'', demo_entry ''1'' None 0)]"

text \<open>Task 0 sets the key \<open>b\<close> after the MGET has read \<open>a\<close>.\<close>

definition demo_written :: "(key, value_entry) alist system" where
  "demo_written = after_set alist_dashmap 0 ''b'' (demo_entry ''2'' None 3) (start_system demo_pair 5)"

lemma demo_mget_returns:
  "mget_returns reference_crates alist_dashmap 5 (start_system demo_pair 5) [''a'', ''b''] demo_written
     [Some (demo_entry ''1'' None 0), Some (demo_entry ''2'' None 3)]"
proof -
  let ?s = "start_system demo_pair 5"
  have l: "mget_lookup alist_dashmap 5 (shared ?s) ''a'' = Some (demo_entry ''1'' None 0)"
      "mget_lookup alist_dashmap 5 (shared demo_written) ''b'' = Some (demo_entry ''2'' None 3)"
    by (simp_all add: mget_lookup_def demo_written_def start_system_def demo_pair_def demo_engine_def
        demo_entry_def alist_dashmap_def is_expired_at_def)
  have "system_reaches reference_crates alist_dashmap ?s demo_written"
    unfolding demo_written_def by (rule reaches_after_set) (simp add: start_system_def)
  from mget_of_two [OF this, of 5 "''a''" "''b''"] show ?thesis unfolding l by (simp add: start_system_def)
qed

theorem mget_reads_live_values_witness:
  "\<exists>ss. read_in_order reference_crates alist_dashmap 5 ((start_system demo_pair 5)\<lparr>clock_now := 5\<rparr>)
      [''a'', ''b''] ss demo_written [Some (demo_entry ''1'' None 0), Some (demo_entry ''2'' None 3)]"
  using mget_reads_live_values [OF reference_engine.zet_engine_axioms demo_mget_returns] by blast

theorem mget_torn_witness:
  "\<exists>s. mget_returns reference_crates alist_dashmap 5 (start_system demo_pair 5) [''a'', ''b''] s
      [Some (demo_entry ''1'' None 0), Some (demo_entry ''2'' None 0)]"
proof -
  have "dm_get alist_dashmap (emap demo_pair) ''a'' = Some (demo_entry ''1'' None 0)"
      "dm_get alist_dashmap (emap demo_pair) ''b'' = Some (demo_entry ''1'' None 0)"
      "max_keys demo_pair = 0" "''a'' \<noteq> ''b''" "demo_entry ''1'' None 0 \<noteq> demo_entry ''2'' None 0"
      "\<forall>v \<in> {demo_entry ''1'' None 0, demo_entry ''1'' None 0, demo_entry ''2'' None 0, demo_entry ''2'' None 0}. expires_at v = None"
    by (simp_all add: demo_pair_def demo_engine_def demo_entry_def alist_dashmap_def)
  from mget_torn [OF reference_engine.zet_engine_axioms this(3,4,1,2,6,5,5)] show ?thesis by blast
qed

end
