(* ===== verification/Key_Limit.thy ===== *)
theory Key_Limit
  imports Engine_Props
begin

text \<open>
  The key limit of an engine shared by many tasks. \<open>set\<close> and \<open>incr\<close>
  (\<open>src/src/storage/dashmap_engine.rs\<close>) look at the number of keys, may evict one, look again
  and then insert, and give up the lock of the map in between. This theory cuts the two
  operations there, lets any number of tasks interleave the sections beside everything else
  that changes the map, and bounds the number of keys. The other operations take one lock at
  a time and only remove or overwrite entries, but for the fast SET, which ignores the limit.
\<close>

section \<open>Sections under a lock\<close>

text \<open>
  Where a task is in a SET or an INCR of the key with the entry to be inserted: before
  \<open>evict_one_if_needed\<close>, before its sample, with the key that the sample chose, before the
  second look at the number of keys, and before the insertion. An INCR may also have found no
  entry, or have removed an expired one; and on a vacant entry it waits for its own lock.
\<close>

datatype stage =
    Resting
  | Evicting key value_entry
  | Sampling key value_entry
  | Removing key value_entry key
  | Measuring key value_entry
  | Inserting key value_entry
  | Vacant key
  | Renewing key
  | Stuck

definition set_section :: "'m entries \<Rightarrow> 'm engine \<Rightarrow> key \<Rightarrow> value_entry \<Rightarrow> stage" where
  "set_section D e k v =
     (if 0 < max_keys e \<and> \<not> dm_contains_key D (emap e) k then Evicting k v else Inserting k v)"

definition evict_section :: "'m entries \<Rightarrow> 'm engine \<Rightarrow> key \<Rightarrow> value_entry \<Rightarrow> stage" where
  "evict_section D e k v =
     (if max_keys e = 0 \<or> dm_len D (emap e) < max_keys e then Measuring k v else Sampling k v)"

definition sample_section :: "'m entries \<Rightarrow> instant \<Rightarrow> 'm engine \<Rightarrow> key \<Rightarrow> value_entry \<Rightarrow> stage" where
  "sample_section D now e k v =
     (case evict_scan now (dm_iter D (emap e)) None None 0 of
        None \<Rightarrow> Measuring k v
      | Some victim \<Rightarrow> Removing k v victim)"

definition measure_section :: "'m entries \<Rightarrow> 'm engine \<Rightarrow> key \<Rightarrow> value_entry \<Rightarrow> stage" where
  "measure_section D e k v = (if max_keys e \<le> dm_len D (emap e) then Resting else Inserting k v)"

definition incr_section ::
  "crates \<Rightarrow> 'm entries \<Rightarrow> instant \<Rightarrow> instant \<Rightarrow> 'm engine \<Rightarrow> key \<Rightarrow> stage \<times> 'm engine" where
  "incr_section X D now c e k =
     (case dm_get D (emap e) k of
        Some v \<Rightarrow>
          if is_expired_at v now then (Renewing k, e\<lparr>emap := dm_remove D (emap e) k\<rparr>)
          else (case parse_i64 (from_utf8_lossy (data v)) of
                  None \<Rightarrow> (Resting, e)
                | Some val \<Rightarrow>
                    (Resting, e\<lparr>emap := dm_write D (emap e) k (v\<lparr>data := itoa X (wrap_i64 (val + 1))\<rparr>)\<rparr>))
      | None \<Rightarrow>
          if 0 < max_keys e then (if dm_reentrant D then Vacant k else Stuck, e)
          else (Resting, e\<lparr>emap := dm_insert D (emap e) k (value_entry_new (\<lambda>_. c) ''1'')\<rparr>))"

definition vacant_section :: "'m entries \<Rightarrow> instant \<Rightarrow> 'm engine \<Rightarrow> key \<Rightarrow> stage" where
  "vacant_section D c e k =
     (if max_keys e \<le> dm_len D (emap e) then Evicting k (value_entry_new (\<lambda>_. c) ''1'')
      else Inserting k (value_entry_new (\<lambda>_. c) ''1''))"

definition renew_section :: "'m entries \<Rightarrow> instant \<Rightarrow> 'm engine \<Rightarrow> key \<Rightarrow> stage" where
  "renew_section D c e k =
     (if 0 < max_keys e \<and> max_keys e \<le> dm_len D (emap e) then Resting
      else Inserting k (value_entry_new (\<lambda>_. c) ''1''))"

section \<open>Interleaved runs\<close>

record 'm crowd =
  limited :: "'m engine"
  stage_of :: "nat \<Rightarrow> stage"
  fast_sets :: nat

definition start_crowd :: "'m entries \<Rightarrow> nat \<Rightarrow> 'm crowd" where
  "start_crowd D n = \<lparr>limited = engine_with_max_keys D n, stage_of = (\<lambda>_. Resting), fast_sets = 0\<rparr>"

definition at_stage :: "nat \<Rightarrow> stage \<Rightarrow> 'm engine \<Rightarrow> 'm crowd \<Rightarrow> 'm crowd" where
  "at_stage i q e s = s\<lparr>limited := e, stage_of := (stage_of s)(i := q)\<rparr>"

text \<open>
  The tasks below \<open>N\<close> run SETs and INCRs. GET, EXISTS, TTL and EXPIRE of an expired key and
  the sweeper remove an entry that has expired (\<open>clean\<close>).
\<close>

inductive crowd_step :: "crates \<Rightarrow> 'm entries \<Rightarrow> nat \<Rightarrow> 'm crowd \<Rightarrow> 'm crowd \<Rightarrow> bool" for X D N where
  call_set: "i < N \<Longrightarrow> stage_of s i = Resting \<Longrightarrow>
    crowd_step X D N s (at_stage i (set_section D (limited s) k v) (limited s) s)"
| call_incr: "i < N \<Longrightarrow> stage_of s i = Resting \<Longrightarrow> incr_section X D now c (limited s) k = (q, e) \<Longrightarrow>
    crowd_step X D N s (at_stage i q e s)"
| vacant: "i < N \<Longrightarrow> stage_of s i = Vacant k \<Longrightarrow>
    crowd_step X D N s (at_stage i (vacant_section D c (limited s) k) (limited s) s)"
| renew: "i < N \<Longrightarrow> stage_of s i = Renewing k \<Longrightarrow>
    crowd_step X D N s (at_stage i (renew_section D c (limited s) k) (limited s) s)"
| evict: "i < N \<Longrightarrow> stage_of s i = Evicting k v \<Longrightarrow>
    crowd_step X D N s (at_stage i (evict_section D (limited s) k v) (limited s) s)"
| sample: "i < N \<Longrightarrow> stage_of s i = Sampling k v \<Longrightarrow>
    crowd_step X D N s (at_stage i (sample_section D now (limited s) k v) (limited s) s)"
| remove: "i < N \<Longrightarrow> stage_of s i = Removing k v victim \<Longrightarrow>
    crowd_step X D N s
      (at_stage i (Measuring k v) ((limited s)\<lparr>emap := dm_remove D (emap (limited s)) victim\<rparr>) s)"
| measure: "i < N \<Longrightarrow> stage_of s i = Measuring k v \<Longrightarrow>
    crowd_step X D N s (at_stage i (measure_section D (limited s) k v) (limited s) s)"
| insertion: "i < N \<Longrightarrow> stage_of s i = Inserting k v \<Longrightarrow>
    crowd_step X D N s (at_stage i Resting ((limited s)\<lparr>emap := dm_insert D (emap (limited s)) k v\<rparr>) s)"
| delete: "crowd_step X D N s (s\<lparr>limited := snd (engine_del D clk (limited s) k)\<rparr>)"
| clean: "crowd_step X D N s (s\<lparr>limited := drop_if_expired D (limited s) k t\<rparr>)"
| prolong: "engine_expire D clk (limited s) k secs = Ret (True, e) \<Longrightarrow> crowd_step X D N s (s\<lparr>limited := e\<rparr>)"
| clear: "crowd_step X D N s (s\<lparr>limited := engine_clear D (limited s)\<rparr>)"
| fast_set: "crowd_step X D N s (s\<lparr>limited := set_fast_str D (limited s) k d, fast_sets := Suc (fast_sets s)\<rparr>)"

abbreviation crowd_reaches :: "crates \<Rightarrow> 'm entries \<Rightarrow> nat \<Rightarrow> 'm crowd \<Rightarrow> 'm crowd \<Rightarrow> bool" where
  "crowd_reaches X D N \<equiv> (crowd_step X D N)\<^sup>*\<^sup>*"

lemma at_stage_sel [simp]:
  "limited (at_stage i q e s) = e" "stage_of (at_stage i q e s) = (stage_of s)(i := q)"
  "fast_sets (at_stage i q e s) = fast_sets s" "at_stage i q e (at_stage i q' e' s) = at_stage i q e s"
  by (simp_all add: at_stage_def)

lemma at_stage_idle: "stage_of s i = Resting \<Longrightarrow> at_stage i Resting e s = s\<lparr>limited := e\<rparr>"
  by (simp add: at_stage_def fun_upd_idem)

section \<open>The keys in the map and on their way\<close>

definition inserting :: "nat \<Rightarrow> 'm crowd \<Rightarrow> key set" where
  "inserting N s = {k. \<exists>i < N. \<exists>v. stage_of s i = Inserting k v}"

definition claimed :: "'m entries \<Rightarrow> nat \<Rightarrow> 'm crowd \<Rightarrow> key set" where
  "claimed D N s = stored D (limited s) \<union> inserting N s"

lemma inserting_card: "finite (inserting N s) \<and> card (inserting N s) \<le> N"
proof -
  let ?key = "\<lambda>q. case q of Inserting k v \<Rightarrow> k | _ \<Rightarrow> []"
  let ?K = "(\<lambda>i. ?key (stage_of s i)) ` {..<N}"
  have sub: "inserting N s \<subseteq> ?K" by (force simp: inserting_def)
  have "card ?K \<le> N" using card_image_le [of "{..<N}" "\<lambda>i. ?key (stage_of s i)"] by simp
  with card_mono [OF _ sub] finite_subset [OF sub] show ?thesis by force
qed

lemma inserting_at_stage:
  "inserting N (at_stage i q e s) \<subseteq> inserting N s \<union> (case q of Inserting k v \<Rightarrow> {k} | _ \<Rightarrow> {})"
  by (auto simp: inserting_def split: if_splits)

lemma inserting_engine [simp]:
  "inserting N (s\<lparr>limited := e\<rparr>) = inserting N s" "inserting N (s\<lparr>limited := e, fast_sets := n\<rparr>) = inserting N s"
  by (simp_all add: inserting_def)

text \<open>The number of claimed keys is below the limit, the number of tasks and that of fast SETs.\<close>

definition bounded :: "'m entries \<Rightarrow> nat \<Rightarrow> nat \<Rightarrow> 'm crowd \<Rightarrow> bool" where
  "bounded D n N s \<longleftrightarrow> max_keys (limited s) = n \<and> card (claimed D N s) < n + N + fast_sets s"

context zet_engine
begin

lemma stored_simps [simp]:
  "stored D (e\<lparr>emap := dm_insert D (emap e) k v\<rparr>) = insert k (stored D e)"
  "stored D (e\<lparr>emap := dm_remove D (emap e) k\<rparr>) = stored D e - {k}"
  "stored D (set_fast_str D e k d) = insert k (stored D e)"
  "stored D (engine_clear D e) = {}"
  "finite (stored D e)"
  using finite_dom by (auto simp: stored_def set_fast_str_def engine_clear_def)

lemma stored_card: "card (stored D e) = dm_len D (emap e)"
  by (simp add: stored_def len_card)

lemma stored_shrinks:
  "stored D (snd (engine_del D clk e k)) \<subseteq> stored D e"
  "stored D (drop_if_expired D e k t) \<subseteq> stored D e"
  "max_keys (snd (engine_del D clk e k)) = max_keys e"
proof -
  have "dom (dm_get D (snd (dm_remove_if D (emap e) k p))) \<subseteq> dom (dm_get D (emap e))" for p by auto
  then show "stored D (snd (engine_del D clk e k)) \<subseteq> stored D e" "stored D (drop_if_expired D e k t) \<subseteq> stored D e"
    by (simp_all add: stored_def engine_del_def drop_if_expired_def case_prod_beta)
qed (simp add: engine_del_def case_prod_beta)

lemma incr_section_stored:
  assumes "incr_section X D now c e k = (q, e')" and "0 < max_keys e"
  shows "stored D e' \<subseteq> stored D e \<and> max_keys e' = max_keys e \<and> (\<forall>k v. q \<noteq> Inserting k v)"
  using assms
  by (auto simp: incr_section_def stored_def split: option.splits if_splits)

lemma expire_stored:
  assumes "engine_expire D clk e k secs = Ret (True, e')"
  shows "stored D e' = stored D e \<and> max_keys e' = max_keys e"
  using assms
  by (auto simp: engine_expire_def stored_def obind_eq_Ret_iff split: option.splits if_splits)

lemma claimed_finite [simp]: "finite (claimed D N s)"
  using inserting_card [of N s] by (simp add: claimed_def)

lemma bounded_subset:
  assumes "bounded D n N s" and "claimed D N s' \<subseteq> claimed D N s"
    and "max_keys (limited s') = max_keys (limited s)" and "fast_sets s \<le> fast_sets s'"
  shows "bounded D n N s'"
  using assms card_mono [OF claimed_finite assms(2)] by (simp add: bounded_def)

text \<open>A task goes on without claiming a key that is neither stored nor claimed.\<close>

lemma bounded_at_stage:
  assumes "bounded D n N s" and "stored D e \<subseteq> stored D (limited s)" and "max_keys e = max_keys (limited s)"
    and "\<And>k v. q = Inserting k v \<Longrightarrow> k \<in> stored D (limited s)"
  shows "bounded D n N (at_stage i q e s)"
proof (rule bounded_subset [OF assms(1)])
  show "claimed D N (at_stage i q e s) \<subseteq> claimed D N s"
    using inserting_at_stage [of N i q e s] assms(2,4) by (cases q) (auto simp: claimed_def)
qed (simp_all add: assms(3))

text \<open>A task that found room claims a key: the map is below the limit, and each task claims one.\<close>

lemma bounded_room:
  assumes "bounded D n N s" and "dm_len D (emap (limited s)) < n"
  shows "bounded D n N (at_stage i q (limited s) s)"
proof -
  let ?s = "at_stage i q (limited s) s"
  have "card (claimed D N ?s) \<le> card (stored D (limited s)) + card (inserting N ?s)"
    unfolding claimed_def using card_Un_le by simp
  with assms inserting_card [of N ?s] show ?thesis by (simp add: bounded_def stored_card)
qed

lemma crowd_step_bounded:
  assumes "crowd_step X D N s s'" and "bounded D n N s" and "0 < n"
  shows "bounded D n N s'"
proof -
  have n: "max_keys (limited s) = n" using assms(2) by (simp add: bounded_def)
  have b: "bounded D (max_keys (limited s)) N s" and pos: "0 < max_keys (limited s)" using assms(2,3) n by simp_all
  note keep = bounded_at_stage [OF b] and room = bounded_room [OF b] and smaller = bounded_subset [OF b]
  from assms(1) have "bounded D (max_keys (limited s)) N s'"
  proof cases
    case (call_set i k v)
    then show ?thesis using pos by (auto simp: set_section_def stored_def intro!: keep)
  next
    case (call_incr i now c k q e)
    then show ?thesis using incr_section_stored [OF call_incr(4)] pos by (auto intro!: keep)
  next
    case (vacant i k c)
    then show ?thesis
      using room by (cases "dm_len D (emap (limited s)) < max_keys (limited s)") (auto simp: vacant_section_def intro!: keep)
  next
    case (renew i k c)
    then show ?thesis
      using pos room by (cases "dm_len D (emap (limited s)) < max_keys (limited s)") (auto simp: renew_section_def intro!: keep)
  next
    case (evict i k v)
    then show ?thesis using pos by (auto simp: evict_section_def intro!: keep)
  next
    case (sample i k v now)
    then show ?thesis by (auto simp: sample_section_def split: option.split intro!: keep)
  next
    case (remove i k v victim)
    then show ?thesis by (auto intro!: keep)
  next
    case (measure i k v)
    then show ?thesis
      using room by (cases "dm_len D (emap (limited s)) < max_keys (limited s)") (auto simp: measure_section_def intro!: keep)
  next
    case (insertion i k v)
    then have "k \<in> inserting N s" by (auto simp: inserting_def)
    with insertion show ?thesis
      using inserting_at_stage [of N i Resting "(limited s)\<lparr>emap := dm_insert D (emap (limited s)) k v\<rparr>" s]
      by (intro smaller) (auto simp: claimed_def)
  next
    case (delete clk k)
    then show ?thesis
      using stored_shrinks(1,3) [of clk "limited s" k] by (intro smaller) (auto simp: claimed_def)
  next
    case (clean k t)
    then show ?thesis
      using stored_shrinks(2) [of "limited s" k t] by (intro smaller) (auto simp: claimed_def)
  next
    case (prolong clk k secs e)
    then show ?thesis
      using expire_stored [OF prolong(2)] by (intro smaller) (auto simp: claimed_def)
  next
    case clear
    then show ?thesis
      by (intro smaller) (auto simp: claimed_def engine_clear_def stored_def)
  next
    case (fast_set k d)
    then have "claimed D N s' = insert k (claimed D N s)" by (auto simp: claimed_def)
    then have "card (claimed D N s') \<le> Suc (card (claimed D N s))" by (simp add: card_insert_if)
    with b fast_set show ?thesis by (simp add: bounded_def set_fast_str_def)
  qed
  with n show ?thesis by simp
qed

lemma start_bounded: "0 < n \<Longrightarrow> bounded D n N (start_crowd D n)"
  by (simp add: bounded_def claimed_def inserting_def start_crowd_def engine_with_max_keys_def stored_def dom_def)

lemma reaches_bounded:
  assumes "crowd_reaches X D N (start_crowd D n) s" and "0 < n"
  shows "bounded D n N s"
  using assms(1) by (induction rule: rtranclp_induct) (use assms(2) start_bounded crowd_step_bounded in auto)

end

section \<open>The sections of an operation in one piece\<close>

lemma crowd_continue:
  "crowd_reaches X D N s (at_stage i q e s) \<Longrightarrow> crowd_step X D N (at_stage i q e s) s' \<Longrightarrow> crowd_reaches X D N s s'"
  by (rule rtranclp.rtrancl_into_rtrancl)

text \<open>From the eviction on, with nothing in between: evict one if needed, look, insert.\<close>

lemma evict_alone:
  assumes "i < N" and "crowd_reaches X D N s (at_stage i (Evicting k v) e s)" and "stage_of s i = Resting"
  shows "crowd_reaches X D N s (s\<lparr>limited :=
    (let e1 = evict_one_if_needed D now e
     in if max_keys e1 \<le> dm_len D (emap e1) then e1 else e1\<lparr>emap := dm_insert D (emap e1) k v\<rparr>)\<rparr>)"
proof -
  let ?e1 = "evict_one_if_needed D now e"
  have evicted: "crowd_reaches X D N s (at_stage i (evict_section D e k v) e s)"
    using evict [where s = "at_stage i (Evicting k v) e s" and i = i and k = k and v = v, OF assms(1)] assms(2)
    by (auto intro: crowd_continue)
  have "crowd_reaches X D N s (at_stage i (Measuring k v) ?e1 s)"
  proof (cases "max_keys e = 0 \<or> dm_len D (emap e) < max_keys e")
    case True
    with evicted show ?thesis by (simp add: evict_section_def evict_one_if_needed_def)
  next
    case False
    with evicted have "crowd_reaches X D N s (at_stage i (Sampling k v) e s)" by (simp add: evict_section_def)
    from crowd_continue [OF this, of "at_stage i (sample_section D now e k v) e s"]
      sample [where s = "at_stage i (Sampling k v) e s" and i = i and k = k and v = v, OF assms(1)]
    have sampled: "crowd_reaches X D N s (at_stage i (sample_section D now e k v) e s)" by simp
    show ?thesis
    proof (cases "evict_scan now (dm_iter D (emap e)) None None 0")
      case None
      with sampled False show ?thesis by (auto simp: sample_section_def evict_one_if_needed_def)
    next
      case (Some victim)
      with sampled have "crowd_reaches X D N s (at_stage i (Removing k v victim) e s)"
        by (simp add: sample_section_def)
      from crowd_continue [OF this, of "at_stage i (Measuring k v) (e\<lparr>emap := dm_remove D (emap e) victim\<rparr>) s"]
        remove [where s = "at_stage i (Removing k v victim) e s" and i = i and k = k and v = v and victim = victim,
          OF assms(1)] Some False
      show ?thesis by (auto simp: evict_one_if_needed_def)
    qed
  qed
  from crowd_continue [OF this, of "at_stage i (measure_section D ?e1 k v) ?e1 s"]
    measure [where s = "at_stage i (Measuring k v) ?e1 s" and i = i and k = k and v = v, OF assms(1)]
  have measured: "crowd_reaches X D N s (at_stage i (measure_section D ?e1 k v) ?e1 s)" by simp
  show ?thesis
  proof (cases "max_keys ?e1 \<le> dm_len D (emap ?e1)")
    case True
    with measured show ?thesis by (simp add: measure_section_def at_stage_idle [OF assms(3)] Let_def)
  next
    case False
    with measured have "crowd_reaches X D N s (at_stage i (Inserting k v) ?e1 s)" by (simp add: measure_section_def)
    from crowd_continue [OF this, of "at_stage i Resting (?e1\<lparr>emap := dm_insert D (emap ?e1) k v\<rparr>) s"]
      insertion [where s = "at_stage i (Inserting k v) ?e1 s" and i = i and k = k and v = v, OF assms(1)] False
    show ?thesis by (simp add: at_stage_idle [OF assms(3)] Let_def)
  qed
qed

lemma set_alone:
  assumes "i < N" and "stage_of s i = Resting"
  shows "crowd_reaches X D N s (s\<lparr>limited := snd (engine_set D clk (limited s) k v)\<rparr>)"
proof -
  let ?e = "limited s"
  have called: "crowd_reaches X D N s (at_stage i (set_section D ?e k v) ?e s)"
    using call_set [OF assms] by blast
  show ?thesis
  proof (cases "0 < max_keys ?e \<and> \<not> dm_contains_key D (emap ?e) k")
    case True
    with called have "crowd_reaches X D N s (at_stage i (Evicting k v) ?e s)" by (simp add: set_section_def)
    from evict_alone [OF assms(1) this assms(2), of "clk 0"] True show ?thesis
      by (simp add: engine_set_def Let_def split: if_splits)
  next
    case False
    with called have "crowd_reaches X D N s (at_stage i (Inserting k v) ?e s)" by (simp add: set_section_def)
    from crowd_continue [OF this, of "at_stage i Resting (?e\<lparr>emap := dm_insert D (emap ?e) k v\<rparr>) s"]
      insertion [where s = "at_stage i (Inserting k v) ?e s" and i = i and k = k and v = v, OF assms(1)] False
    show ?thesis by (auto simp: engine_set_def at_stage_idle [OF assms(2)])
  qed
qed

lemma incr_alone:
  assumes "i < N" and "stage_of s i = Resting" and "engine_incr X D clk (limited s) k = Ret (r, e')"
  shows "crowd_reaches X D N s (s\<lparr>limited := e'\<rparr>)"
proof -
  let ?e = "limited s"
  have called: "crowd_reaches X D N s (at_stage i (fst (incr_section X D (clk 0) c ?e k)) (snd (incr_section X D (clk 0) c ?e k)) s)"
    for c
    using call_incr [OF assms(1,2), of X D "clk 0" c k] by (cases "incr_section X D (clk 0) c ?e k") auto
  have inserted: "crowd_reaches X D N s (s\<lparr>limited := e\<lparr>emap := dm_insert D (emap e) k v\<rparr>\<rparr>)"
    if "crowd_reaches X D N s (at_stage i (Inserting k v) e s)" for v e
    using crowd_continue [OF that, of "at_stage i Resting (e\<lparr>emap := dm_insert D (emap e) k v\<rparr>) s"]
      insertion [where s = "at_stage i (Inserting k v) e s" and i = i and k = k and v = v, OF assms(1)]
    by (simp add: at_stage_idle [OF assms(2)])
  show ?thesis
  proof (cases "dm_get D (emap ?e) k")
    case (Some v)
    show ?thesis
    proof (cases "is_expired_at v (clk 0)")
      case True
      let ?e1 = "?e\<lparr>emap := dm_remove D (emap ?e) k\<rparr>"
      from called [of 0] Some True have "crowd_reaches X D N s (at_stage i (Renewing k) ?e1 s)"
        by (simp add: incr_section_def)
      from crowd_continue [OF this, of "at_stage i (renew_section D (clk 1) ?e1 k) ?e1 s"]
        renew [where s = "at_stage i (Renewing k) ?e1 s" and i = i and k = k, OF assms(1)]
      have "crowd_reaches X D N s (at_stage i (renew_section D (clk 1) ?e1 k) ?e1 s)" by simp
      with inserted [of "value_entry_new (\<lambda>_. clk 1) ''1''" ?e1] Some True assms(3) show ?thesis
        by (auto simp: engine_incr_def renew_section_def at_stage_idle [OF assms(2)] value_entry_new_def Let_def
            split: if_splits)
    next
      case False
      with called [of 0] Some assms(3) show ?thesis
        by (auto simp: engine_incr_def incr_section_def at_stage_idle [OF assms(2)] Let_def split: option.splits)
    qed
  next
    case None
    show ?thesis
    proof (cases "0 < max_keys ?e")
      case True
      with None assms(3) have re: "dm_reentrant D" by (auto simp: engine_incr_def split: if_splits)
      with called [of 0] None True have "crowd_reaches X D N s (at_stage i (Vacant k) ?e s)"
        by (simp add: incr_section_def)
      from crowd_continue [OF this] vacant [where s = "at_stage i (Vacant k) ?e s" and i = i and k = k, OF assms(1)]
      have "crowd_reaches X D N s (at_stage i (vacant_section D c ?e k) ?e s)" for c by simp
      with inserted [of "value_entry_new (\<lambda>_. clk 0) ''1''" ?e] None True re assms(3)
        evict_alone [OF assms(1) _ assms(2), of X D k "value_entry_new (\<lambda>_. clk 1) ''1''" ?e "clk 0"]
      show ?thesis
        by (cases "max_keys ?e \<le> dm_len D (emap ?e)")
          (auto simp: engine_incr_def vacant_section_def value_entry_new_def Let_def split: if_splits)
    next
      case False
      with called [of "clk 0"] None assms(3) show ?thesis
        by (simp add: engine_incr_def incr_section_def at_stage_idle [OF assms(2)] value_entry_new_def)
    qed
  qed
qed

section \<open>Properties\<close>

text \<open>
  (C10) The key limit under concurrency: \<open>N\<close> tasks run SETs and INCRs on an engine limited to
  \<open>n\<close> keys, interleaved wherever the code gives up the lock of the map, beside deletions,
  expiry, sweeps and flushes. In every reachable state the engine holds at most
  \<open>n + N - 1\<close> keys, and one more for every fast SET, which ignores the limit. So a single
  task without fast SETs never exceeds the limit, and racing tasks exceed it by less than
  their number. Run with nothing in between, the sections are the SET of the engine and,
  where it returns, its INCR.
\<close>

theorem key_limit_bound:
  assumes "zet_engine D X" and "0 < n" and "crowd_reaches X D N (start_crowd D n) s"
  shows "engine_len D (limited s) < n + N + fast_sets s \<and>
    (\<forall>i < N. stage_of s i = Resting \<longrightarrow>
       (\<forall>clk k v. crowd_reaches X D N s (s\<lparr>limited := snd (engine_set D clk (limited s) k v)\<rparr>)) \<and>
       (\<forall>clk k r e. engine_incr X D clk (limited s) k = Ret (r, e) \<longrightarrow> crowd_reaches X D N s (s\<lparr>limited := e\<rparr>)))"
proof -
  have "card (claimed D N s) < n + N + fast_sets s"
    using zet_engine.reaches_bounded [OF assms(1,3,2)] by (simp add: bounded_def)
  moreover have "card (stored D (limited s)) \<le> card (claimed D N s)"
    by (rule card_mono [OF zet_engine.claimed_finite [OF assms(1)]]) (simp add: claimed_def)
  ultimately have "engine_len D (limited s) < n + N + fast_sets s"
    by (simp add: engine_len_def zet_engine.stored_card [OF assms(1)])
  moreover have "crowd_reaches X D N s (s\<lparr>limited := snd (engine_set D clk (limited s) k v)\<rparr>)"
    if "i < N" "stage_of s i = Resting" for i clk k v
    using that by (rule set_alone)
  moreover have "crowd_reaches X D N s (s\<lparr>limited := e\<rparr>)"
    if "i < N" "stage_of s i = Resting" "engine_incr X D clk (limited s) k = Ret (r, e)" for i clk k r e
    using that by (rule incr_alone)
  ultimately show ?thesis by simp
qed

theorem key_limit_bound_witness:
  "engine_len alist_dashmap
     (snd (engine_set alist_dashmap (\<lambda>_. 4) (engine_with_max_keys alist_dashmap 1) ''a'' (demo_entry ''x'' None 4))) < 2"
proof -
  let ?s = "start_crowd alist_dashmap 1"
  let ?t = "?s\<lparr>limited := snd (engine_set alist_dashmap (\<lambda>_. 4) (limited ?s) ''a'' (demo_entry ''x'' None 4))\<rparr>"
  have "crowd_reaches reference_crates alist_dashmap 1 ?s ?t"
    by (rule set_alone [where i = 0]) (simp_all add: start_crowd_def)
  from key_limit_bound [OF reference_engine.zet_engine_axioms _ this] show ?thesis
    by (simp add: start_crowd_def)
qed

text \<open>
  The limit is exceeded when two tasks look before either inserts: on an empty engine limited
  to one key, both find room, and the engine ends with two keys.
\<close>

theorem key_limit_race:
  fixes a b :: key
  assumes "zet_engine D X" and "a \<noteq> b"
  shows "\<exists>s. crowd_reaches X D 2 (start_crowd D 1) s \<and> (\<forall>i. stage_of s i = Resting) \<and> fast_sets s = 0 \<and>
    engine_len D (limited s) = 2"
proof -
  have ds: "dashmap_spec D" using assms(1) by (simp add: zet_engine_def)
  let ?s0 = "start_crowd D 1" and ?e = "engine_with_max_keys D 1"
  let ?v = "value_entry_new (\<lambda>_. 0) []"
  let ?ea = "?e\<lparr>emap := dm_insert D (emap ?e) a ?v\<rparr>"
  let ?eb = "?ea\<lparr>emap := dm_insert D (emap ?ea) b ?v\<rparr>"
  let ?to = "\<lambda>i q e s. at_stage i q e s :: 'a crowd"
  have sections: "set_section D ?e k ?v = Evicting k ?v" "evict_section D ?e k ?v = Measuring k ?v"
      "measure_section D ?e k ?v = Inserting k ?v" for k
    by (simp_all add: set_section_def evict_section_def measure_section_def engine_with_max_keys_def
        dashmap_spec.contains_key [OF ds] dashmap_spec.get_new [OF ds] dashmap_spec.len_new [OF ds])
  have look: "crowd_reaches X D 2 s (?to i (Inserting k ?v) ?e s)"
    if "stage_of s i = Resting" "i < 2" "limited s = ?e" for s i k
  proof -
    have "crowd_step X D 2 s (?to i (Evicting k ?v) ?e s)"
      using call_set [where X = X and D = D and s = s and i = i and k = k and v = ?v, OF that(2,1)] that(3) by (simp add: sections del: One_nat_def)
    moreover have "crowd_step X D 2 (?to i (Evicting k ?v) ?e s) (?to i (Measuring k ?v) ?e s)"
      using evict [where X = X and D = D and s = "?to i (Evicting k ?v) ?e s" and i = i and k = k and v = ?v, OF that(2)]
      by (simp add: sections del: One_nat_def)
    moreover have "crowd_step X D 2 (?to i (Measuring k ?v) ?e s) (?to i (Inserting k ?v) ?e s)"
      using measure [where X = X and D = D and s = "?to i (Measuring k ?v) ?e s" and i = i and k = k and v = ?v, OF that(2)]
      by (simp add: sections del: One_nat_def)
    ultimately show ?thesis by (meson converse_rtranclp_into_rtranclp rtranclp.rtrancl_refl)
  qed
  let ?s1 = "?to 0 (Inserting a ?v) ?e ?s0"
  let ?s2 = "?to 1 (Inserting b ?v) ?e ?s1"
  let ?s3 = "?to 0 Resting ?ea ?s2"
  let ?s4 = "?to 1 Resting ?eb ?s3"
  have "crowd_reaches X D 2 ?s0 ?s1" "crowd_reaches X D 2 ?s1 ?s2"
    by (rule look; simp add: start_crowd_def)+
  moreover have "crowd_step X D 2 ?s2 ?s3"
    using insertion [where s = ?s2 and i = 0 and k = a and v = ?v and X = X and D = D and N = 2] by simp
  moreover have "crowd_step X D 2 ?s3 ?s4"
    using insertion [where s = ?s3 and i = 1 and k = b and v = ?v and X = X and D = D and N = 2] by simp
  ultimately have "crowd_reaches X D 2 ?s0 ?s4"
    by (meson rtranclp_trans r_into_rtranclp)
  moreover have "engine_len D ?eb = 2"
    using assms(2) by (simp add: engine_len_def engine_with_max_keys_def dashmap_spec.len_insert [OF ds]
        dashmap_spec.get_insert [OF ds] dashmap_spec.get_new [OF ds] dashmap_spec.len_new [OF ds])
  ultimately show ?thesis by (intro exI [of _ ?s4]) (simp add: start_crowd_def)
qed

theorem key_limit_race_witness:
  "\<exists>s. crowd_reaches reference_crates alist_dashmap 2 (start_crowd alist_dashmap 1) s \<and>
    (\<forall>i. stage_of s i = Resting) \<and> fast_sets s = 0 \<and> engine_len alist_dashmap (limited s) = 2"
  by (rule key_limit_race [OF reference_engine.zet_engine_axioms, of "''a''" "''b''"]) simp

end
