(* ===== verification/Shared_Log.thy ===== *)
theory Shared_Log
  imports Durability
begin

text \<open>
  Many sessions on one engine and one log. A session first executes a command and then, as a
  separate action, appends it to the log; \<open>append_raw\<close> in turn adds the entry to the batch
  under one lock and, when the batch is full, calls \<open>flush_batch\<close> under another. Between these
  actions the other sessions, the sweeper and the fsync ticker run. The commands here have
  one key, so that executing them is one action (theory \<open>Concurrency_Props\<close>), and the disk does
  not fail. Then the log holds the effects in their order key by key as long as no key has
  two writers, and a restart restores the data of SETs without expiry and DELs, and of INCRs
  while the log is below a batch; with two writers it need not.
\<close>

section \<open>Sessions, engine and log\<close>

fun command_key :: "command \<Rightarrow> key option" where
  "command_key (CGet k) = Some k"
| "command_key (CSet k v ttl) = Some k"
| "command_key (CDel k) = Some k"
| "command_key (CIncr k) = Some k"
| "command_key (CExists k) = Some k"
| "command_key (CTtl k) = Some k"
| "command_key (CExpire k n) = Some k"
| "command_key _ = None"

text \<open>
  A session waits for its next command, is about to append a command, or has added it to a
  full batch and is about to flush.
\<close>

datatype job = Waiting | Logging command | Flushing command

record 'm site =
  database :: "'m engine"
  journal :: aof_writer
  job_of :: "nat \<Rightarrow> job"
  site_now :: instant
  history :: "(nat \<times> command \<times> response) list"

definition start_site :: "'m entries \<Rightarrow> aof_writer \<Rightarrow> instant \<Rightarrow> 'm site" where
  "start_site D w t =
     \<lparr>database = engine_new D, journal = w, job_of = (\<lambda>_. Waiting), site_now = t, history = []\<rparr>"

text \<open>What a session does after it has executed a command; inline sessions ignore the answer.\<close>

definition job_after :: "bool \<Rightarrow> command \<Rightarrow> response \<Rightarrow> job" where
  "job_after inline c r = (if is_write c \<and> (inline \<or> is_success r) then Logging c else Waiting)"

text \<open>The two parts of \<open>append_raw\<close>.\<close>

definition batch_entry :: "command \<Rightarrow> aof_writer \<Rightarrow> job \<times> aof_writer" where
  "batch_entry c w =
     (let w1 = w\<lparr>batch := batch w @ log_entry c\<rparr>
      in (if length (batch w1) < aof_batch_size then Waiting else Flushing c, w1))"

abbreviation no_faults :: disk where
  "no_faults \<equiv> \<lambda>_. None"

inductive site_step :: "crates \<Rightarrow> 'm entries \<Rightarrow> 'm site \<Rightarrow> 'm site \<Rightarrow> bool" for X D where
  serve: "job_of s i = Waiting \<Longrightarrow> command_key c \<noteq> None \<Longrightarrow> mono clk \<Longrightarrow> site_now s \<le> clk 0 \<Longrightarrow>
    dispatch (dashmap_engine X D) j clk m c (database s) = Ret (r, e) \<Longrightarrow>
    site_step X D s
      (s\<lparr>database := e, site_now := clk 0, job_of := (job_of s)(i := job_after inline c r),
         history := history s @ [(i, c, r)]\<rparr>)"
| append: "job_of s i = Logging c \<Longrightarrow> batch_entry c (journal s) = (q, w) \<Longrightarrow>
    site_step X D s (s\<lparr>journal := w, job_of := (job_of s)(i := q)\<rparr>)"
| flush: "job_of s i = Flushing c \<Longrightarrow>
    flush_batch clk no_faults (log_entry c) (journal s) = (ok, w) \<Longrightarrow>
    site_step X D s (s\<lparr>journal := w, job_of := (job_of s)(i := Waiting)\<rparr>)"
| fsync_tick: "site_step X D s (s\<lparr>journal := aof_fsync_tick clk no_faults (journal s)\<rparr>)"
| sweep: "site_now s \<le> t \<Longrightarrow> \<forall>k. tk k \<le> t \<Longrightarrow>
    site_step X D s (s\<lparr>database := sweep_expired D tk (database s), site_now := t\<rparr>)"

abbreviation site_reaches :: "crates \<Rightarrow> 'm entries \<Rightarrow> 'm site \<Rightarrow> 'm site \<Rightarrow> bool" where
  "site_reaches X D \<equiv> (site_step X D)\<^sup>*\<^sup>*"

text \<open>The parts of an append with nothing in between are \<open>append_raw\<close>.\<close>

lemma batch_entry_append_raw:
  "append_raw clk disk (log_entry c) w =
     (case batch_entry c w of
        (Flushing _, w1) \<Rightarrow> flush_batch clk disk (log_entry c) w1
      | (_, w1) \<Rightarrow> (True, w1))"
  by (simp add: append_raw_def batch_entry_def Let_def)

section \<open>What the log holds\<close>

text \<open>The bytes written so far, in the file or still in the batch.\<close>

definition log_bytes :: "aof_writer \<Rightarrow> bytes" where
  "log_bytes w = on_path w @ batch w"

lemma write_batch_log_bytes:
  assumes "detached w = None"
  shows "\<exists>w'. write_batch no_faults i w = (True, w') \<and> detached w' = None \<and> batch w' = [] \<and>
    on_path w' = log_bytes w"
  using assms by (simp add: write_batch_def write_all_def append_handle_def log_bytes_def)

lemma sync_all_ok: "sync_all no_faults i w = (True, w\<lparr>synced := handle_bytes w\<rparr>)"
  by (simp add: sync_all_def)

lemma fsync_by_policy_log_bytes:
  assumes "fsync_by_policy clk no_faults i w = (ok, w')" and "detached w = None"
  shows "log_bytes w' = log_bytes w \<and> detached w' = None"
  using assms by (auto simp: fsync_by_policy_def sync_all_ok log_bytes_def split: fsync_policy.splits if_splits)

lemma batch_entry_log_bytes:
  assumes "batch_entry c w = (q, w')" and "detached w = None"
  shows "log_bytes w' = log_bytes w @ log_entry c \<and> detached w' = None \<and> (q = Waiting \<or> q = Flushing c)"
  using assms by (auto simp: batch_entry_def Let_def log_bytes_def split: if_splits)

lemma flush_batch_log_bytes:
  assumes "flush_batch clk no_faults entry w = (ok, w')" and "detached w = None"
  shows "log_bytes w' = log_bytes w @ entry \<and> detached w' = None"
proof -
  obtain w1 where w1: "write_batch no_faults 0 w = (True, w1)" "detached w1 = None" "batch w1 = []"
      "on_path w1 = log_bytes w"
    using write_batch_log_bytes [OF assms(2)] by blast
  let ?w2 = "w1\<lparr>on_path := on_path w1 @ entry\<rparr>"
  have "fsync_by_policy clk no_faults 2 ?w2 = (ok, w')"
    using assms(1) w1 by (simp add: flush_batch_def write_all_def append_handle_def)
  from fsync_by_policy_log_bytes [OF this] w1 show ?thesis by (simp add: log_bytes_def)
qed

lemma fsync_tick_log_bytes:
  assumes "detached w = None"
  shows "log_bytes (aof_fsync_tick clk no_faults w) = log_bytes w \<and> detached (aof_fsync_tick clk no_faults w) = None"
  using write_batch_log_bytes [OF assms, of 0] assms
  by (auto simp: aof_fsync_tick_def flush_if_needed_def sync_all_ok log_bytes_def split: prod.splits)

lemma aof_flush_log_bytes:
  assumes "detached w = None"
  shows "on_path (snd (aof_flush no_faults w)) = log_bytes w"
  using write_batch_log_bytes [OF assms, of 0] by (auto simp: aof_flush_def sync_all_ok)

section \<open>Writers with keys of their own\<close>

text \<open>The writes whose effect on their key does not depend on what was there.\<close>

fun overwriting :: "command \<Rightarrow> bool" where
  "overwriting (CSet k v ttl) = (ttl = None)"
| "overwriting (CDel k) = True"
| "overwriting _ = False"

fun written :: "command \<Rightarrow> bytes option" where
  "written (CSet k v ttl) = Some v"
| "written _ = None"

definition last_on :: "key \<Rightarrow> command list \<Rightarrow> command option" where
  "last_on k cs = find (\<lambda>c. command_key c = Some k) (rev cs)"

lemma last_on_simps [simp]:
  "last_on k [] = None"
  "last_on k (cs @ [c]) = (if command_key c = Some k then Some c else last_on k cs)"
  by (simp_all add: last_on_def)

lemma find_append: "find P (xs @ ys) = (case find P xs of Some x \<Rightarrow> Some x | None \<Rightarrow> find P ys)"
  by (induction xs) auto

lemma last_on_insert [simp]:
  "command_key c \<noteq> Some k \<Longrightarrow> last_on k (cs @ c # cs') = last_on k (cs @ cs')"
  by (simp_all add: last_on_def find_append split: option.split)

text \<open>The writes of one key without expiry: those that overwrite, and INCR.\<close>

definition key_write :: "command \<Rightarrow> bool" where
  "key_write c \<longleftrightarrow> overwriting c \<or> (\<exists>k. c = CIncr k)"

lemma key_write_no_expiry: "key_write c \<Longrightarrow> no_expiry c"
  by (cases c) (auto simp: key_write_def)

lemma key_write_key: "key_write c \<Longrightarrow> \<exists>k. command_key c = Some k"
  by (cases c) (auto simp: key_write_def)

lemma apply_data_other: "key_write c \<Longrightarrow> command_key c \<noteq> Some k \<Longrightarrow> apply_data c dv k = dv k"
  by (cases c) (auto simp: key_write_def split: option.splits)

lemma apply_data_same: "key_write c \<Longrightarrow> dv k = dv' k \<Longrightarrow> apply_data c dv k = apply_data c dv' k"
  by (cases c) (auto simp: key_write_def split: option.splits)

lemma fold_data_same: "list_all key_write cs \<Longrightarrow> dv k = dv' k \<Longrightarrow> fold apply_data cs dv k = fold apply_data cs dv' k"
proof (induction cs arbitrary: dv dv')
  case (Cons c cs)
  then have "apply_data c dv k = apply_data c dv' k" by (intro apply_data_same) simp_all
  moreover have "list_all key_write cs" using Cons.prems(1) by simp
  ultimately have "fold apply_data cs (apply_data c dv) k = fold apply_data cs (apply_data c dv') k"
    by (intro Cons.IH)
  then show ?case by simp
qed simp

text \<open>The data at a key depend on the commands on that key alone.\<close>

lemma fold_data_insert:
  "list_all key_write cs' \<Longrightarrow> key_write c \<Longrightarrow> command_key c \<noteq> Some k \<Longrightarrow>
     fold apply_data (cs @ c # cs') dv k = fold apply_data (cs @ cs') dv k"
  using fold_data_same [of cs' "apply_data c (fold apply_data cs dv)" k "fold apply_data cs dv"]
    apply_data_other [of c k "fold apply_data cs dv"]
  by simp

lemma apply_overwriting: "overwriting c \<Longrightarrow> command_key c = Some k \<Longrightarrow> apply_data c dv k = written c"
  by (cases c) auto

text \<open>Writing the last command on a key again changes nothing there if it overwrites.\<close>

lemma last_on_data:
  "list_all key_write cs \<Longrightarrow> last_on k cs = Some c \<Longrightarrow> overwriting c \<Longrightarrow> command_key c = Some k \<Longrightarrow>
     fold apply_data cs dv k = written c"
proof (induction cs rule: rev_induct)
  case (snoc c' cs)
  then show ?case
    by (cases "command_key c' = Some k") (auto simp: apply_overwriting apply_data_other)
qed simp

text \<open>Session \<open>i\<close> writes only keys that are its own, with commands of one key that set no expiry.\<close>

definition owned :: "(key \<Rightarrow> nat) \<Rightarrow> nat \<Rightarrow> command \<Rightarrow> bool" where
  "owned owner i c \<longleftrightarrow> key_write c \<and> loggable c \<and> (\<exists>k. command_key c = Some k \<and> owner k = i)"

definition owned_history :: "(key \<Rightarrow> nat) \<Rightarrow> (nat \<times> command \<times> response) list \<Rightarrow> bool" where
  "owned_history owner h \<longleftrightarrow> (\<forall>(i, c, r) \<in> set h. is_write c \<longrightarrow> owned owner i c)"

lemma owned_history_snoc [simp]:
  "owned_history owner (h @ [(i, c, r)]) \<longleftrightarrow> owned_history owner h \<and> (is_write c \<longrightarrow> owned owner i c)"
  by (auto simp: owned_history_def)

text \<open>An INCR was executed only if the log, with its batch, is still below the size of a batch.\<close>

definition incrs_fit :: "'m site \<Rightarrow> bool" where
  "incrs_fit s \<longleftrightarrow> (aof_batch_size \<le> length (log_bytes (journal s)) \<longrightarrow>
     (\<forall>(i, c, r) \<in> set (history s). \<forall>k. c \<noteq> CIncr k))"

definition effects_of :: "(nat \<times> command \<times> response) list \<Rightarrow> command list" where
  "effects_of h = acknowledged (map snd h)"

lemma effects_of_simps [simp]:
  "effects_of [] = []"
  "effects_of (h @ [(i, c, r)]) = (if is_write c \<and> is_success r then effects_of h @ [c] else effects_of h)"
  by (simp_all add: effects_of_def acknowledged_def)

text \<open>A command that is executed but not yet in the log.\<close>

fun unlogged :: "job \<Rightarrow> command list" where
  "unlogged (Logging c) = [c]"
| "unlogged _ = []"

fun owned_job :: "(key \<Rightarrow> nat) \<Rightarrow> nat \<Rightarrow> job \<Rightarrow> bool" where
  "owned_job owner i Waiting = True"
| "owned_job owner i (Logging c) = owned owner i c"
| "owned_job owner i (Flushing c) = owned owner i c"

text \<open>
  The log \<open>L\<close> and the command still to come have, for every key, the data of the effects;
  the commands still to come were executed; and what is about to be written again is the last
  command of its key in the log, and overwrites.
\<close>

definition log_current :: "(key \<Rightarrow> nat) \<Rightarrow> 'm site \<Rightarrow> command list \<Rightarrow> bool" where
  "log_current owner s L \<longleftrightarrow>
     log_bytes (journal s) = log_of L \<and>
     list_all (\<lambda>c. key_write c \<and> loggable c) L \<and>
     (\<forall>i. owned_job owner i (job_of s i)) \<and>
     (\<forall>k. fold apply_data (effects_of (history s)) Map.empty k =
        fold apply_data (L @ unlogged (job_of s (owner k))) Map.empty k) \<and>
     (\<forall>i c. job_of s i = Logging c \<longrightarrow> (\<exists>r. (i, c, r) \<in> set (history s))) \<and>
     (\<forall>i c k. job_of s i = Flushing c \<longrightarrow> command_key c = Some k \<longrightarrow> overwriting c \<and> last_on k L = Some c)"

lemma log_of_snoc: "log_of (L @ [c]) = log_of L @ log_entry c"
  by (simp add: log_of_def)

lemma owned_job_key:
  "owned_job owner i q \<Longrightarrow> q = Logging c \<or> q = Flushing c \<Longrightarrow> command_key c = Some k \<Longrightarrow> owner k = i"
  by (cases q) (auto simp: owned_def)

lemma owned_unlogged: "owned_job owner i q \<Longrightarrow> list_all key_write (unlogged q)"
  by (cases q) (auto simp: owned_def)

text \<open>The owner of a key writes a command to the log, for the first time or again.\<close>

lemma log_current_write:
  assumes "log_current owner s L" and "job_of s i = Logging c \<or> job_of s i = Flushing c"
    and "log_bytes w = log_bytes (journal s) @ log_entry c"
    and "q = Waiting \<or> q = Flushing c \<and> overwriting c"
  shows "log_current owner (s\<lparr>journal := w, job_of := (job_of s)(i := q)\<rparr>) (L @ [c])"
proof -
  have jobs: "owned_job owner j (job_of s j)" for j using assms(1) by (simp add: log_current_def)
  have L: "list_all key_write L" using assms(1) by (auto simp: log_current_def list_all_iff)
  have c: "owned owner i c" "key_write c" using jobs [of i] assms(2) by (auto simp: owned_def)
  then obtain k where k: "command_key c = Some k" "owner k = i" by (auto simp: owned_def)
  have flushing: "overwriting c' \<and> last_on k' (L @ [c]) = Some c'"
    if "job_of s j = Flushing c'" "command_key c' = Some k'" "j \<noteq> i" for j c' k'
    using assms(1) that k owned_job_key [OF jobs [of j], of c' k'] by (auto simp: log_current_def)
  let ?d = "\<lambda>cs. fold apply_data cs Map.empty"
  have old: "?d (effects_of (history s)) k' = ?d (L @ unlogged (job_of s (owner k'))) k'" for k'
    using assms(1) by (simp add: log_current_def)
  have current: "?d (effects_of (history s)) k' = ?d (L @ [c] @ unlogged (((job_of s)(i := q)) (owner k'))) k'" for k'
  proof (cases "owner k' = i")
    case True
    have "unlogged q = []" using assms(4) by auto
    moreover have "?d (L @ unlogged (job_of s i)) k' = ?d (L @ [c]) k'"
    proof (cases "job_of s i = Logging c")
      case False
      then have f: "job_of s i = Flushing c" using assms(2) by simp
      then have "overwriting c" "last_on k L = Some c" using assms(1) k by (auto simp: log_current_def)
      then show ?thesis
        using f k c(2) last_on_data [OF L, of k c Map.empty]
        by (cases "k' = k") (auto simp: apply_overwriting apply_data_other)
    qed simp
    ultimately show ?thesis using True old [of k'] by simp
  next
    case False
    with k have "command_key c \<noteq> Some k'" by auto
    with fold_data_insert [OF owned_unlogged [OF jobs [of "owner k'"]] c(2) this, of L Map.empty] False old [of k']
    show ?thesis by simp
  qed
  show ?thesis
    using assms flushing current c k by (auto simp: log_current_def log_of_snoc owned_def)
qed

lemma log_current_serve:
  assumes "log_current owner s L" and "job_of s i = Waiting" and "is_write c \<longrightarrow> owned owner i c"
    and "\<not> is_success r \<longrightarrow>
      apply_data c (fold apply_data (effects_of (history s)) Map.empty) = fold apply_data (effects_of (history s)) Map.empty"
  shows "log_current owner (s\<lparr>database := e, site_now := t, job_of := (job_of s)(i := job_after inline c r),
    history := history s @ [(i, c, r)]\<rparr>) L"
proof (cases "is_write c")
  case False
  with assms(1,2) show ?thesis by (auto simp: log_current_def job_after_def)
next
  case True
  then obtain k where k: "command_key c = Some k" "owner k = i" "owned owner i c" "key_write c"
    using assms(3) by (auto simp: owned_def)
  let ?h = "effects_of (history s)" and ?d = "\<lambda>cs. fold apply_data cs Map.empty"
  have old: "?d ?h k' = ?d (L @ unlogged (job_of s (owner k'))) k'" for k'
    using assms(1) by (simp add: log_current_def)
  have same: "apply_data c (?d ?h) k' = apply_data c (?d L) k'" if "owner k' = i" for k'
    using old [of k'] that assms(2) k(4) by (intro apply_data_same) simp_all
  have other: "apply_data c (?d ?h) k' = ?d ?h k'" if "owner k' \<noteq> i" for k'
    using that k by (intro apply_data_other) auto
  have "?d (effects_of (history s @ [(i, c, r)])) k' =
      ?d (L @ unlogged (((job_of s)(i := job_after inline c r)) (owner k'))) k'" for k'
  proof (cases "is_success r")
    case success: True
    then show ?thesis
      using True old [of k'] same [of k'] other [of k'] by (cases "owner k' = i") (auto simp: job_after_def)
  next
    case False
    with assms(4) have "apply_data c (?d ?h) = ?d ?h" by simp
    then show ?thesis
      using True False old [of k'] same [of k'] assms(2) by (cases "owner k' = i") (auto simp: job_after_def)
  qed
  with True assms(1-3) k show ?thesis by (auto simp: log_current_def job_after_def)
qed

section \<open>The data of the engine\<close>

definition data_current :: "'m entries \<Rightarrow> 'm site \<Rightarrow> bool" where
  "data_current D s \<longleftrightarrow> max_keys (database s) = 0 \<and>
     steady (site_now s) (live D (database s)) (fold apply_data (effects_of (history s)) Map.empty)"

context zet_engine
begin

lemma dispatch_data:
  assumes "max_keys e = 0" and "mono clk" and "no_expiry c" and "steady t (live D e) dv" and "t \<le> clk 0"
    and "dispatch (dashmap_engine X D) j clk m c e = Ret (r, e')"
  shows "max_keys e' = 0" and "\<not> is_success r \<longrightarrow> apply_data c dv = dv"
    and "steady (clk 0) (live D e') (if is_write c \<and> is_success r then apply_data c dv else dv)"
proof -
  from kv.dispatch_law [OF assms(1,2) no_expiry_in_time [OF assms(3)], of j m] assms(6)
  have r: "max_keys e' = 0" "answers j m (card (stored D e)) clk (live D e) c r" "takes_effect clk (live D e) c (live D e')" by auto
  have f: "\<not> is_success r \<longrightarrow> apply_data c dv = dv"
    using kv.failed_keeps_data [OF r(2) _ assms(4,5)] by simp
  then have "apply_data c dv = (if is_write c \<and> is_success r then apply_data c dv else dv)"
    using read_keeps_data [of c dv] by auto
  with kv.steady_effect [OF assms(4,5,3) r(3)] r f
  show "max_keys e' = 0" and "\<not> is_success r \<longrightarrow> apply_data c dv = dv"
    and "steady (clk 0) (live D e') (if is_write c \<and> is_success r then apply_data c dv else dv)"
    by simp_all
qed

lemma site_step_current:
  assumes "site_step X D s s'" and "owned_history owner (history s')" and "incrs_fit s'"
    and "detached (journal s) = None" and "data_current D s" and "log_current owner s L"
  shows "data_current D s' \<and> (\<exists>L'. log_current owner s' L')"
  using assms(1)
proof cases
  case (serve i c clk j m r e inline)
  have c: "is_write c \<longrightarrow> owned owner i c" using assms(2) serve(1) by simp
  then have ne: "no_expiry c" using serve(3) by (cases c) (auto simp: owned_def key_write_def)
  have s: "max_keys (database s) = 0"
      "steady (site_now s) (live D (database s)) (fold apply_data (effects_of (history s)) Map.empty)"
    using assms(5) by (simp_all add: data_current_def)
  note d = dispatch_data [OF s(1) serve(4) ne s(2) serve(5,6)]
  have "log_current owner s' L"
    unfolding serve(1) using d(2) by (rule log_current_serve [OF assms(6) serve(2) c])
  moreover have "data_current D s'" using d(1,3) serve(1) by (auto simp: data_current_def split: if_splits)
  ultimately show ?thesis by blast
next
  case (append i c q w)
  note added = batch_entry_log_bytes [OF append(3) assms(4)]
  have "overwriting c" if "q = Flushing c"
  proof -
    have "aof_batch_size \<le> length (log_bytes (journal s'))"
      using append(1,3) that by (auto simp: batch_entry_def Let_def log_bytes_def split: if_splits)
    moreover have "\<forall>i c. job_of s i = Logging c \<longrightarrow> (\<exists>r. (i, c, r) \<in> set (history s))"
      using assms(6) by (simp add: log_current_def)
    then obtain r where "(i, c, r) \<in> set (history s')" using append(1,2) by auto
    ultimately have "\<forall>k. c \<noteq> CIncr k" using assms(3) by (auto simp: incrs_fit_def)
    moreover have "owned_job owner i (Logging c)" using assms(6) append(2) by (metis log_current_def)
    ultimately show ?thesis by (simp add: owned_def key_write_def)
  qed
  with log_current_write [OF assms(6), of i c w q] append added assms(5) show ?thesis
    by (force simp: data_current_def)
next
  case (flush i c clk ok w)
  from log_current_write [OF assms(6), of i c w Waiting] flush_batch_log_bytes [OF flush(3) assms(4)] flush assms(5)
  show ?thesis by (force simp: data_current_def)
next
  case (fsync_tick clk)
  with fsync_tick_log_bytes [OF assms(4), of clk] assms(5,6) show ?thesis
    by (auto simp: data_current_def log_current_def intro!: exI [of _ L])
next
  case (sweep t tk)
  have "live D (sweep_expired D tk (database s)) t' = live D (database s) t'" if "t \<le> t'" for t'
    using sweep(3) that by (intro live_sweep) (auto intro: order_trans)
  with sweep assms(5,6) show ?thesis
    by (auto simp: data_current_def steady_def log_current_def sweep_expired_def intro!: exI [of _ L])
qed

text \<open>The log only grows, and so does the history.\<close>

lemma site_step_grows:
  assumes "site_step X D s s'" and "detached (journal s) = None"
  shows "detached (journal s') = None \<and> length (log_bytes (journal s)) \<le> length (log_bytes (journal s')) \<and>
    set (history s) \<subseteq> set (history s')"
  using assms(1)
proof cases
  case (append i c q w)
  then show ?thesis using batch_entry_log_bytes [OF append(3) assms(2)] by simp
next
  case (flush i c clk ok w)
  then show ?thesis using flush_batch_log_bytes [OF flush(3) assms(2)] by simp
next
  case (fsync_tick clk)
  then show ?thesis using fsync_tick_log_bytes [OF assms(2), of clk] by simp
qed (use assms(2) in auto)

lemma reaches_attached:
  assumes "site_reaches X D (start_site D w t0) s" and "detached w = None"
  shows "detached (journal s) = None"
  using assms(1) by (induction rule: rtranclp_induct) (use assms(2) site_step_grows in \<open>auto simp: start_site_def\<close>)

lemma history_conditions_step:
  assumes "site_step X D s s'" and "detached (journal s) = None"
    and "owned_history owner (history s')" and "incrs_fit s'"
  shows "owned_history owner (history s)" and "incrs_fit s"
  using site_step_grows [OF assms(1,2)] assms(3,4) by (fastforce simp: owned_history_def incrs_fit_def)+

lemma reaches_current:
  assumes "site_reaches X D (start_site D w t0) s" and "owned_history owner (history s)" and "incrs_fit s"
    and "detached w = None" and "log_bytes w = []"
  shows "data_current D s \<and> (\<exists>L. log_current owner s L)"
  using assms(1-3)
proof (induction rule: rtranclp_induct)
  case base
  have "log_current owner (start_site D w t0) []"
    using assms(5) by (simp add: log_current_def start_site_def)
  moreover have "data_current D (start_site D w t0)"
    using live_new by (simp add: data_current_def start_site_def steady_def) (simp add: engine_new_def)
  ultimately show ?case by blast
next
  case (step s s')
  note attached = reaches_attached [OF step(1) assms(4)]
  note conditions = history_conditions_step [OF step(2) attached step.prems]
  from step.IH [OF conditions] site_step_current [OF step(2) step.prems attached] show ?case by blast
qed

text \<open>Replaying a log of such commands gives their data.\<close>

lemma replay_key_writes:
  assumes "list_all (\<lambda>c. key_write c \<and> loggable c) L" and "clocks_advance clks"
  shows "\<exists>e'. replay_aof (dashmap_engine X D) clks (Contents (log_of L)) (engine_new D) = Ret (Some (length L), e') \<and>
    (\<forall>t \<ge> clks (length L) 0. \<forall>k. map_option data (live D e' t k) = fold apply_data L Map.empty k)"
proof -
  have new: "max_keys (engine_new D) = 0" by (simp add: engine_new_def)
  have empty: "steady t (live D (engine_new D)) Map.empty" for t by (simp add: steady_def live_new)
  have L: "list_all no_expiry L" "list_all loggable L"
    using assms(1) key_write_no_expiry by (auto simp: list_all_iff)
  obtain e' where e': "execute_all (dashmap_engine X D) clks 0 L (engine_new D) = Ret e'"
      "steady (clks (length L) 0) (live D e') (fold apply_data L Map.empty)"
    using kv.execute_all_steady [OF assms(2) L(1) new empty, of 0] by auto
  have "replay_aof (dashmap_engine X D) clks (Contents (log_of L)) (engine_new D) = Ret (Some (length L), e')"
    using replay_aof_log [OF zet_engine_axioms new _ L(2), of clks CFlushDb 0] assms(2) e'(1)
    by (simp add: clocks_advance_def log_entry_def)
  with e'(2) show ?thesis by (auto simp: steady_def)
qed

end

section \<open>Single actions\<close>

definition set_site :: "'m entries \<Rightarrow> nat \<Rightarrow> key \<Rightarrow> bytes \<Rightarrow> 'm site \<Rightarrow> 'm site" where
  "set_site D i k v s =
     s\<lparr>database := (database s)\<lparr>emap := dm_insert D (emap (database s)) k (value_entry_new (\<lambda>_. site_now s) v)\<rparr>,
       job_of := (job_of s)(i := Logging (CSet k v None)), history := history s @ [(i, CSet k v None, Ok)]\<rparr>"

definition append_site :: "nat \<Rightarrow> command \<Rightarrow> 'm site \<Rightarrow> 'm site" where
  "append_site i c s =
     s\<lparr>journal := (journal s)\<lparr>batch := batch (journal s) @ log_entry c\<rparr>, job_of := (job_of s)(i := Waiting)\<rparr>"

lemma site_step_set:
  assumes "job_of s i = Waiting" and "max_keys (database s) = 0"
  shows "site_step X D s (set_site D i k v s)"
proof -
  let ?e = "(database s)\<lparr>emap := dm_insert D (emap (database s)) k (value_entry_new (\<lambda>_. site_now s) v)\<rparr>"
  have "dispatch (dashmap_engine X D) 0 (\<lambda>_. site_now s) (metrics_init 0) (CSet k v None) (database s) = Ret (Ok, ?e)"
    using assms(2) by (simp add: set_entry_def dashmap_engine_def engine_set_def)
  from serve [OF assms(1) _ _ _ this, of False] show ?thesis
    by (simp add: mono_def job_after_def set_site_def)
qed

lemma site_step_append:
  assumes "job_of s i = Logging c" and "length (batch (journal s)) + length (log_entry c) < aof_batch_size"
  shows "site_step X D s (append_site i c s)"
proof -
  have "batch_entry c (journal s) = (Waiting, (journal s)\<lparr>batch := batch (journal s) @ log_entry c\<rparr>)"
    using assms(2) by (simp add: batch_entry_def)
  from append [OF assms(1) this] show ?thesis by (simp add: append_site_def)
qed

section \<open>Properties\<close>

text \<open>
  (C4) Any number of sessions may share the engine and the log if every key has one writer
  and the writes are SETs without expiry, DELs and INCRs. Sessions of both protocols execute
  commands on single keys and append them in any interleaving, beside the sweeper and the
  fsync ticker, on a disk that does not fail. When every session is between two commands,
  flushing the log and replaying it into an empty engine, at any later time, restores for
  every key exactly the data that the engine holds. With SETs and DELs the log may grow beyond
  any number of batches, although the entry that fills a batch is written twice; with INCRs,
  which the second entry would count again, it has to stay below the size of one batch.
\<close>

theorem shared_log_recovers:
  assumes "zet_engine D X" and "site_reaches X D (start_site D w t0) s"
    and "detached w = None" and "log_bytes w = []"
    and "\<forall>i. job_of s i = Waiting" and "owned_history owner (history s)" and "incrs_fit s"
    and "clocks_advance clks"
  shows "\<exists>n e'.
    replay_aof (dashmap_engine X D) clks (Contents (on_path (snd (aof_flush no_faults (journal s))))) (engine_new D) =
      Ret (Some n, e') \<and>
    (\<forall>t \<ge> site_now s. \<forall>t' \<ge> clks n 0. \<forall>k.
       map_option data (live D e' t' k) = map_option data (live D (database s) t k))"
proof -
  from zet_engine.reaches_current [OF assms(1,2,6,7,3,4)] obtain L where
    data: "data_current D s" and L: "log_current owner s L" by blast
  have "list_all (\<lambda>c. key_write c \<and> loggable c) L" using L by (simp add: log_current_def)
  from zet_engine.replay_key_writes [OF assms(1) this assms(8)] obtain e' where
    e': "replay_aof (dashmap_engine X D) clks (Contents (log_of L)) (engine_new D) = Ret (Some (length L), e')"
      "\<forall>t \<ge> clks (length L) 0. \<forall>k. map_option data (live D e' t k) = fold apply_data L Map.empty k"
    by blast
  have "on_path (snd (aof_flush no_faults (journal s))) = log_of L"
    using L aof_flush_log_bytes [OF zet_engine.reaches_attached [OF assms(1,2,3)]] by (simp add: log_current_def)
  moreover have "map_option data (live D (database s) t k) = fold apply_data L Map.empty k"
    if "site_now s \<le> t" for t k
    using data that L assms(5) by (simp add: data_current_def steady_def log_current_def)
  ultimately show ?thesis using e' by auto
qed

text \<open>Two sessions set keys of their own; the second one appends first.\<close>

definition demo_site :: "(key, value_entry) alist site" where
  "demo_site =
     append_site 0 (CSet ''a'' ''1'' None) (append_site 1 (CSet ''b'' ''2'' None)
       (set_site alist_dashmap 1 ''b'' ''2'' (set_site alist_dashmap 0 ''a'' ''1''
          (start_site alist_dashmap (demo_writer []) 5))))"

lemma demo_site_reaches:
  "site_reaches reference_crates alist_dashmap (start_site alist_dashmap (demo_writer []) 5) demo_site"
proof -
  let ?s0 = "start_site alist_dashmap (demo_writer []) 5"
  let ?s1 = "set_site alist_dashmap 0 ''a'' ''1'' ?s0"
  let ?s2 = "set_site alist_dashmap 1 ''b'' ''2'' ?s1"
  let ?s3 = "append_site 1 (CSet ''b'' ''2'' None) ?s2"
  note defs = set_site_def append_site_def start_site_def engine_new_def
  have "site_step reference_crates alist_dashmap ?s0 ?s1" "site_step reference_crates alist_dashmap ?s1 ?s2"
    by (rule site_step_set; simp add: defs)+
  moreover have "site_step reference_crates alist_dashmap ?s2 ?s3" "site_step reference_crates alist_dashmap ?s3 demo_site"
    unfolding demo_site_def
    by (rule site_step_append; simp add: defs demo_writer_def log_entry_def aof_batch_size_def)+
  ultimately show ?thesis
    by (meson converse_rtranclp_into_rtranclp rtranclp.rtrancl_refl)
qed

theorem shared_log_recovers_witness:
  "\<exists>n e'.
    replay_aof (dashmap_engine reference_crates alist_dashmap) (\<lambda>_ _. 100)
      (Contents (on_path (snd (aof_flush no_faults (journal demo_site))))) (engine_new alist_dashmap) = Ret (Some n, e') \<and>
    (\<forall>k. map_option data (live alist_dashmap e' 100 k) = map_option data (live alist_dashmap (database demo_site) 5 k))"
proof -
  have u: "valid_utf8 ''a''" "valid_utf8 ''b''" by code_simp+
  have w: "detached (demo_writer []) = None" "log_bytes (demo_writer []) = []"
    by (simp_all add: demo_writer_def log_bytes_def)
  have s: "\<forall>i. job_of demo_site i = Waiting" "site_now demo_site = 5"
      "owned_history (\<lambda>k. if k = ''a'' then 0 else 1) (history demo_site)" "incrs_fit demo_site"
    using u by (auto simp: incrs_fit_def key_write_def demo_site_def append_site_def set_site_def start_site_def owned_history_def owned_def
        log_key_def log_value_def)
  have "clocks_advance (\<lambda>_ _. 100)" by (simp add: clocks_advance_def mono_def)
  from shared_log_recovers [OF reference_engine.zet_engine_axioms demo_site_reaches w s(1,3,4) this] s(2)
  show ?thesis by fastforce
qed

text \<open>
  (C33) Two writers of one key can leave the log in the wrong order: executing a command and
  appending it are separate actions. Two sessions set the same key, first to \<open>a\<close> and then
  to \<open>b\<close>, the second appends first; the engine holds \<open>b\<close>, both clients have their
  answers, and after a restart the value is \<open>a\<close>.
\<close>

theorem shared_log_order_diverges:
  assumes "zet_engine D X" and "detached w = None" and "log_bytes w = []"
    and "loggable (CSet k a None)" and "loggable (CSet k b None)"
    and "length (log_entry (CSet k a None)) + length (log_entry (CSet k b None)) < aof_batch_size"
    and "clocks_advance clks"
  shows "\<exists>s e'. site_reaches X D (start_site D w t0) s \<and> (\<forall>i. job_of s i = Waiting) \<and>
    history s = [(0, CSet k a None, Ok), (1, CSet k b None, Ok)] \<and>
    (\<forall>t. map_option data (live D (database s) t k) = Some b) \<and>
    replay_aof (dashmap_engine X D) clks (Contents (on_path (snd (aof_flush no_faults (journal s))))) (engine_new D) =
      Ret (Some 2, e') \<and>
    (\<forall>t \<ge> clks 2 0. map_option data (live D e' t k) = Some a)"
proof -
  let ?a = "CSet k a None" and ?b = "CSet k b None"
  let ?s0 = "start_site D w t0"
  let ?s1 = "set_site D 0 k a ?s0"
  let ?s2 = "set_site D 1 k b ?s1"
  let ?s3 = "append_site 1 ?b ?s2"
  let ?s4 = "append_site 0 ?a ?s3"
  note defs = set_site_def append_site_def start_site_def engine_new_def
  have w: "batch w = []" "on_path w = []" using assms(3) by (simp_all add: log_bytes_def)
  have "site_step X D ?s0 ?s1" "site_step X D ?s1 ?s2"
    by (rule site_step_set; simp add: defs)+
  moreover have "site_step X D ?s2 ?s3" "site_step X D ?s3 ?s4"
    by (rule site_step_append; use assms(6) w in \<open>simp add: defs\<close>)+
  ultimately have reaches: "site_reaches X D ?s0 ?s4"
    by (meson converse_rtranclp_into_rtranclp rtranclp.rtrancl_refl)
  have b: "map_option data (live D (database ?s4) t k) = Some b" for t
    by (simp add: defs zet_engine.live_insert [OF assms(1), of "database _", simplified] live_def
        dashmap_spec.get_insert [OF zet_engine.axioms(1) [OF assms(1)]] live_at_def)
  have log: "on_path (snd (aof_flush no_faults (journal ?s4))) = log_of [?b, ?a]"
    using aof_flush_log_bytes [of "journal ?s4"] assms(2) w by (simp add: defs log_bytes_def)
  have "list_all (\<lambda>c. key_write c \<and> loggable c) [?b, ?a]" using assms(4,5) by (simp add: key_write_def)
  from zet_engine.replay_key_writes [OF assms(1) this assms(7)] obtain e' where
    e': "replay_aof (dashmap_engine X D) clks (Contents (log_of [?b, ?a])) (engine_new D) = Ret (Some 2, e')"
      "\<forall>t \<ge> clks 2 0. \<forall>k'. map_option data (live D e' t k') = fold apply_data [?b, ?a] Map.empty k'"
    by (auto simp: numeral_2_eq_2 simp del: log_of_simps)
  then have "\<forall>t \<ge> clks 2 0. map_option data (live D e' t k) = Some a" by simp
  moreover have "\<forall>i. job_of ?s4 i = Waiting" "history ?s4 = [(0, ?a, Ok), (1, ?b, Ok)]"
    by (simp_all add: defs)
  ultimately show ?thesis using reaches b log e'(1) by metis
qed

theorem shared_log_order_diverges_witness:
  "\<exists>s e'. site_reaches reference_crates alist_dashmap (start_site alist_dashmap (demo_writer []) 5) s \<and>
    map_option data (live alist_dashmap (database s) 5 ''k'') = Some ''2'' \<and>
    replay_aof (dashmap_engine reference_crates alist_dashmap) (\<lambda>_ _. 100)
      (Contents (on_path (snd (aof_flush no_faults (journal s))))) (engine_new alist_dashmap) = Ret (Some 2, e') \<and>
    map_option data (live alist_dashmap e' 100 ''k'') = Some ''1''"
proof -
  have u: "valid_utf8 ''k''" by code_simp
  have l: "loggable (CSet ''k'' ''1'' None)" "loggable (CSet ''k'' ''2'' None)"
    using u by (simp_all add: log_key_def log_value_def)
  have w: "detached (demo_writer []) = None" "log_bytes (demo_writer []) = []"
    by (simp_all add: demo_writer_def log_bytes_def)
  have n: "length (log_entry (CSet ''k'' ''1'' None)) + length (log_entry (CSet ''k'' ''2'' None)) < aof_batch_size"
    by (simp add: log_entry_def aof_batch_size_def)
  have "clocks_advance (\<lambda>_ _. 100)" by (simp add: clocks_advance_def mono_def)
  from shared_log_order_diverges [OF reference_engine.zet_engine_axioms w l n this, of 5]
  show ?thesis by blast
qed

end
