(* ===== verification/Bench.thy ===== *)
theory Bench
  imports Server
begin

text \<open>
  The load generators (\<open>src/src/bin/\<close>): six programs that start the server, or reach a
  running one, and measure it with clients of their own. The model has the requests the
  clients write, their loops with the counting of operations, how they read replies, the
  tests the programs run, and what they report. Sockets appear as the bytes that arrive and
  as the calls that fail; measured times and the floating-point rates are not modelled. The
  arithmetic on \<open>u64\<close> wraps, as in a release build.
\<close>

section \<open>Clients\<close>

text \<open>
  A client task: the bytes that it will read before the peer closes the connection, the
  bytes it has written, the counter that makes its keys, its count of operations, and what
  it has added to the shared counter of the test.
\<close>

record bench_client =
  incoming :: bytes
  outgoing :: bytes
  key_counter :: u64
  local_count :: u64
  reported :: u64

definition new_client :: "bytes \<Rightarrow> u64 \<Rightarrow> bench_client" where
  "new_client arriving start =
     \<lparr>incoming = arriving, outgoing = [], key_counter = start, local_count = 0, reported = 0\<rparr>"

text \<open>
  What fails in a round: the \<open>i\<close>-th write after some bytes, the flush, the \<open>i\<close>-th read.
\<close>

record round_io =
  write_fault :: "nat \<Rightarrow> nat option"
  flush_ok :: bool
  read_ok :: "nat \<Rightarrow> bool"

definition smooth :: round_io where
  "smooth = \<lparr>write_fault = (\<lambda>_. None), flush_ok = True, read_ok = (\<lambda>_. True)\<rparr>"

text \<open>
  \<open>read_line\<close> of a buffered reader: up to and including the next LF, or what is left at the
  end of the stream; an error when that is not UTF-8.
\<close>

definition read_line :: "bytes \<Rightarrow> bytes option \<times> bytes" where
  "read_line bs =
     (let rest = dropWhile (\<lambda>b. b \<noteq> CHR 0x0A) bs;
          line = takeWhile (\<lambda>b. b \<noteq> CHR 0x0A) bs @ take 1 rest
      in (if valid_utf8 line then Some line else None, drop 1 rest))"

section \<open>Clients that read lines\<close>

text \<open>
  The client loop that \<open>pipeline.rs\<close>, \<open>saturation.rs\<close> and \<open>maxthroughput.rs\<close> share: write
  \<open>n\<close> commands, flush, read \<open>n\<close> lines, count. The line of a command is a function of the
  key counter.
\<close>

fun send_lines :: "(u64 \<Rightarrow> bytes) \<Rightarrow> round_io \<Rightarrow> nat \<Rightarrow> nat \<Rightarrow> bench_client \<Rightarrow> bool \<times> bench_client" where
  "send_lines line io i 0 c = (True, c)"
| "send_lines line io i (Suc n) c =
     (let cmd = line (key_counter c); c1 = c\<lparr>key_counter := key_counter c + 1\<rparr>
      in case write_fault io i of
           Some j \<Rightarrow> (False, c1\<lparr>outgoing := outgoing c1 @ take j cmd\<rparr>)
         | None \<Rightarrow> send_lines line io (Suc i) n (c1\<lparr>outgoing := outgoing c1 @ cmd\<rparr>))"

fun read_lines :: "round_io \<Rightarrow> nat \<Rightarrow> nat \<Rightarrow> bench_client \<Rightarrow> bool \<times> bench_client" where
  "read_lines io i 0 c = (True, c)"
| "read_lines io i (Suc n) c =
     (if \<not> read_ok io i then (False, c)
      else case read_line (incoming c) of
        (None, rest) \<Rightarrow> (False, c\<lparr>incoming := rest\<rparr>)
      | (Some l, rest) \<Rightarrow> read_lines io (Suc i) n (c\<lparr>incoming := rest\<rparr>))"

text \<open>The counter of the test is touched only when the local count reaches a multiple of \<open>unit\<close>.\<close>

definition count_round :: "u64 \<Rightarrow> nat \<Rightarrow> bench_client \<Rightarrow> bench_client" where
  "count_round unit n c =
     (let count = local_count c + of_nat n
      in c\<lparr>local_count := count, reported := (if count mod unit = 0 then reported c + unit else reported c)\<rparr>)"

definition count_rest :: "u64 \<Rightarrow> bench_client \<Rightarrow> bench_client" where
  "count_rest unit c = c\<lparr>reported := reported c + local_count c mod unit\<rparr>"

definition line_round :: "(u64 \<Rightarrow> bytes) \<Rightarrow> nat \<Rightarrow> u64 \<Rightarrow> round_io \<Rightarrow> bench_client \<Rightarrow> bool \<times> bench_client" where
  "line_round line n unit io c =
     (case send_lines line io 0 n c of
        (False, c1) \<Rightarrow> (False, c1)
      | (True, c1) \<Rightarrow>
          if \<not> flush_ok io then (False, c1)
          else case read_lines io 0 n c1 of
            (False, c2) \<Rightarrow> (False, c2)
          | (True, c2) \<Rightarrow> (True, count_round unit n c2))"

text \<open>
  The rounds that start while the flag \<open>running\<close> is set; after the last one the loop ends.
  A fault leaves the loop (\<open>break\<close>, in which case the rest is still counted) or the task
  (\<open>return\<close>).
\<close>

fun line_client :: "(u64 \<Rightarrow> bytes) \<Rightarrow> bool \<Rightarrow> nat \<Rightarrow> u64 \<Rightarrow> round_io list \<Rightarrow> bench_client \<Rightarrow> bench_client" where
  "line_client line breaks n unit [] c = count_rest unit c"
| "line_client line breaks n unit (io # ios) c =
     (case line_round line n unit io c of
        (True, c') \<Rightarrow> line_client line breaks n unit ios c'
      | (False, c') \<Rightarrow> if breaks then count_rest unit c' else c')"

text \<open>
  The clients of a test. Their additions to the shared counter commute, so it ends as the
  sum of them; a client that cannot connect panics in its own task and adds nothing.
\<close>

definition run_clients ::
    "nat \<Rightarrow> (nat \<Rightarrow> (bytes \<times> 'io list) option) \<Rightarrow> ('io list \<Rightarrow> bench_client \<Rightarrow> bench_client) \<Rightarrow> (nat \<Rightarrow> u64) \<Rightarrow> u64" where
  "run_clients clients conn task start =
     (\<Sum>i\<leftarrow>[0..<clients]. case conn i of
        None \<Rightarrow> 0
      | Some (arriving, ios) \<Rightarrow> reported (task ios (new_client arriving (start i))))"

text \<open>The operations that the programs pass to their tests; another string is unreachable.\<close>

datatype bench_op = SetOp | GetOp

section \<open>\<open>pipeline.rs\<close>\<close>

fun pipeline_line :: "bench_op \<Rightarrow> u64 \<Rightarrow> bytes" where
  "pipeline_line SetOp k = ''SET pipe:'' @ show_u64 k @ '' val:'' @ show_u64 k @ crlf"
| "pipeline_line GetOp k = ''GET pipe:'' @ show_u64 (k mod 1000) @ crlf"

definition pipeline_client :: "bench_op \<Rightarrow> nat \<Rightarrow> round_io list \<Rightarrow> bench_client \<Rightarrow> bench_client" where
  "pipeline_client op pipeline_size = line_client (pipeline_line op) False pipeline_size 10000"

definition pipeline_bench :: "nat \<Rightarrow> nat \<Rightarrow> bench_op \<Rightarrow> (nat \<Rightarrow> (bytes \<times> round_io list) option) \<Rightarrow> u64" where
  "pipeline_bench clients pipeline_size op conn =
     run_clients clients conn (pipeline_client op pipeline_size) (\<lambda>client_id. of_nat client_id * 1000000)"

definition mixed_write_line :: "u64 \<Rightarrow> bytes" where
  "mixed_write_line key = ''SET pw:'' @ show_u64 key @ '' v:'' @ show_u64 key @ crlf"

definition mixed_read_line :: "u64 \<Rightarrow> u64 \<Rightarrow> bytes" where
  "mixed_read_line n_keys key = ''GET pp:'' @ show_u64 (key mod n_keys) @ crlf"

definition pipeline_mixed ::
    "nat \<Rightarrow> nat \<Rightarrow> nat \<Rightarrow> u64 \<Rightarrow> (nat \<Rightarrow> (bytes \<times> round_io list) option) \<Rightarrow>
       (nat \<Rightarrow> (bytes \<times> round_io list) option) \<Rightarrow> u64 \<times> u64" where
  "pipeline_mixed writers readers pipeline_size n_keys wconn rconn =
     (run_clients writers wconn (line_client mixed_write_line False pipeline_size 10000)
        (\<lambda>wid. of_nat wid * 10000000),
      run_clients readers rconn (line_client (mixed_read_line n_keys) False pipeline_size 10000) (\<lambda>_. 0))"

text \<open>
  The population of the keys before the reads: the commands of a chunk are written and
  flushed, and the replies are read; an error of a write is unwrapped, one of a read ignored.
\<close>

fun chunks_of :: "nat \<Rightarrow> 'a list \<Rightarrow> 'a list list" where
  "chunks_of n xs = (if n = 0 \<or> xs = [] then [] else take n xs # chunks_of n (drop n xs))"

declare chunks_of.simps [simp del]

fun skip_lines :: "round_io \<Rightarrow> nat \<Rightarrow> nat \<Rightarrow> bytes \<Rightarrow> bytes" where
  "skip_lines io i 0 bs = bs"
| "skip_lines io i (Suc n) bs = skip_lines io (Suc i) n (if read_ok io i then snd (read_line bs) else bs)"

fun populate :: "(nat \<Rightarrow> bytes) \<Rightarrow> (nat \<Rightarrow> round_io) \<Rightarrow> nat \<Rightarrow> nat list list \<Rightarrow> bench_client \<Rightarrow> bench_client outcome" where
  "populate line io i [] c = Ret c"
| "populate line io i (chunk # chunks) c =
     (if list_ex (\<lambda>j. write_fault (io i) j \<noteq> None) [0..<length chunk] \<or> \<not> flush_ok (io i) then Panic
      else populate line io (Suc i) chunks
        (c\<lparr>outgoing := outgoing c @ concat (map line chunk),
           incoming := skip_lines (io i) 0 (length chunk) (incoming c)\<rparr>))"

definition pipeline_prepopulate :: "(nat \<Rightarrow> round_io) \<Rightarrow> nat \<Rightarrow> bench_client \<Rightarrow> bench_client outcome" where
  "pipeline_prepopulate io n_keys =
     populate (\<lambda>k. ''SET pp:'' @ show_nat k @ '' val:'' @ show_nat k @ crlf) io 0 (chunks_of 500 [0..<n_keys])"

definition pipeline_config :: "nat \<Rightarrow> config" where
  "pipeline_config p = config_default\<lparr>bind_addr := ''127.0.0.1'', port := p, read_timeout_secs := 300, write_timeout_secs := 0\<rparr>"

text \<open>The tests of the program in their order, with the pipeline size and the clients.\<close>

datatype bench_test =
    OneOp bench_op nat nat
  | Populate nat
  | Mixed nat nat nat

definition pipeline_tests :: "bench_test list" where
  "pipeline_tests =
     [OneOp SetOp pipe clients. pipe \<leftarrow> [1, 10, 50, 100, 200, 500], clients \<leftarrow> [1, 4, 16, 32]] @
     [Populate 5000] @
     [OneOp GetOp pipe clients. pipe \<leftarrow> [1, 10, 50, 100, 200, 500], clients \<leftarrow> [1, 4, 16, 32]] @
     [Mixed pipe w r. pipe \<leftarrow> [50, 100, 200], (w, r) \<leftarrow> [(16, 16), (32, 16), (16, 32), (32, 32)]]"

section \<open>\<open>saturation.rs\<close>\<close>

fun saturation_line :: "bench_op \<Rightarrow> u64 \<Rightarrow> bytes" where
  "saturation_line SetOp k = ''SET sat:'' @ show_u64 k @ '' val:'' @ show_u64 k @ crlf"
| "saturation_line GetOp k = ''GET sat:'' @ show_u64 (k mod 1000) @ crlf"

definition saturation_bench :: "nat \<Rightarrow> bench_op \<Rightarrow> (nat \<Rightarrow> (bytes \<times> round_io list) option) \<Rightarrow> u64" where
  "saturation_bench clients op conn =
     run_clients clients conn (line_client (saturation_line op) True 1 1000) (\<lambda>client_id. of_nat client_id * 1000000)"

text \<open>All keys are written before the first reply is read.\<close>

definition presaturate :: "(nat \<Rightarrow> round_io) \<Rightarrow> nat \<Rightarrow> bench_client \<Rightarrow> bench_client outcome" where
  "presaturate io n_keys =
     populate (\<lambda>k. ''SET sat:'' @ show_nat k @ '' val:'' @ show_nat k @ crlf) io 0 [[0..<n_keys]]"

definition saturation_config :: "nat \<Rightarrow> config" where
  "saturation_config p = config_default\<lparr>bind_addr := ''127.0.0.1'', port := p, read_timeout_secs := 300\<rparr>"

definition saturation_tests :: "bench_test list" where
  "saturation_tests =
     [OneOp SetOp 1 clients. clients \<leftarrow> [1, 2, 4, 8, 16, 32, 64]] @ [Populate 1000] @
     [OneOp GetOp 1 clients. clients \<leftarrow> [1, 2, 4, 8, 16, 32, 64]]"

section \<open>\<open>maxthroughput.rs\<close>\<close>

definition throughput_populate :: "(nat \<Rightarrow> round_io) \<Rightarrow> nat \<Rightarrow> bench_client \<Rightarrow> bench_client outcome" where
  "throughput_populate io n_keys =
     populate (\<lambda>k. ''SET p:'' @ show_nat k @ '' payload:'' @ show_nat k @ crlf) io 0 (chunks_of 500 [0..<n_keys])"

definition throughput_config :: "nat \<Rightarrow> config" where
  "throughput_config p = config_default\<lparr>bind_addr := ''127.0.0.1'', port := p, read_timeout_secs := 300\<rparr>"

definition throughput_write_line :: "u64 \<Rightarrow> bytes" where
  "throughput_write_line key = ''SET w:'' @ show_u64 key @ '' v:'' @ show_u64 key @ crlf"

definition throughput_read_line :: "u64 \<Rightarrow> u64 \<Rightarrow> bytes" where
  "throughput_read_line n_keys key = ''GET p:'' @ show_u64 (key mod n_keys) @ crlf"

definition mixed_workload ::
    "nat \<Rightarrow> nat \<Rightarrow> u64 \<Rightarrow> (nat \<Rightarrow> (bytes \<times> round_io list) option) \<Rightarrow>
       (nat \<Rightarrow> (bytes \<times> round_io list) option) \<Rightarrow> u64 \<times> u64" where
  "mixed_workload writers readers n_keys wconn rconn =
     (run_clients writers wconn (line_client throughput_write_line True 1 500) (\<lambda>wid. of_nat wid * 10000000),
      run_clients readers rconn (line_client (throughput_read_line n_keys) True 1 500) (\<lambda>_. 0))"

definition throughput_configs :: "(nat \<times> nat) list" where
  "throughput_configs =
     [(128, 0), (0, 128), (64, 64), (96, 32), (32, 96), (80, 80), (100, 100), (64, 128), (128, 64)]"

definition throughput_label :: "nat \<Rightarrow> nat \<Rightarrow> bytes" where
  "throughput_label w r =
     (if r = 0 then ''WRITE ONLY ('' @ show_nat w @ ''w)''
      else if w = 0 then ''READ ONLY ('' @ show_nat r @ ''r)''
      else ''MIXED '' @ show_nat w @ ''w / '' @ show_nat r @ ''r'')"

text \<open>
  The loop over the configurations with the results \<open>(writes, reads)\<close> of each: the marker of
  every line, and the peak it ends with.
\<close>

fun peak_scan :: "u64 \<times> bytes \<Rightarrow> ((nat \<times> nat) \<times> (u64 \<times> u64)) list \<Rightarrow> bool list \<times> (u64 \<times> bytes)" where
  "peak_scan peak [] = ([], peak)"
| "peak_scan (peak_total, peak_label) (((w, r), (writes, reads)) # results) =
     (let total = writes + reads; label = throughput_label w r;
          marked = total > peak_total;
          peak = (if marked then (total, label) else (peak_total, peak_label))
      in apfst ((#) marked) (peak_scan peak results))"

section \<open>\<open>pipeline_quick.rs\<close>\<close>

text \<open>The same lines, written into one buffer with \<open>itoa\<close>; the result has the counter after it.\<close>

fun build_batch :: "crates \<Rightarrow> bench_op \<Rightarrow> nat \<Rightarrow> u64 \<Rightarrow> bytes \<times> u64" where
  "build_batch X op 0 k = ([], k)"
| "build_batch X op (Suc n) k =
     (let k_str = itoa X (uint (case op of SetOp \<Rightarrow> k | GetOp \<Rightarrow> k mod 1000));
          cmd = (case op of
                   SetOp \<Rightarrow> ''SET pipe:'' @ k_str @ '' val:'' @ k_str @ crlf
                 | GetOp \<Rightarrow> ''GET pipe:'' @ k_str @ crlf)
      in apfst ((@) cmd) (build_batch X op n (k + 1)))"

fun build_batches :: "crates \<Rightarrow> bench_op \<Rightarrow> nat \<Rightarrow> nat \<Rightarrow> u64 \<Rightarrow> bytes \<times> u64" where
  "build_batches X op 0 n k = ([], k)"
| "build_batches X op (Suc m) n k =
     (case build_batch X op n k of (single_batch, k1) \<Rightarrow> apfst ((@) single_batch) (build_batches X op m n k1))"

definition newlines :: "bytes \<Rightarrow> nat" where
  "newlines bs = length (filter (\<lambda>b. b = CHR 0x0A) bs)"

text \<open>
  The reads of a round: each gives a chunk (empty at the end of the stream) or fails, and the
  newlines in it count as replies. Nothing gives \<open>read_pos\<close> a value other than 0, so the
  second branch of the loop, which moves it, is never taken. The result is \<open>None\<close> where the
  task returns, and otherwise the reads that are left.
\<close>

fun count_responses :: "nat \<Rightarrow> nat \<Rightarrow> nat \<Rightarrow> bytes option list \<Rightarrow> (nat \<times> bytes option list) option" where
  "count_responses total_responses responses_received read_pos reads =
     (if total_responses \<le> responses_received then Some (read_pos, reads)
      else case reads of
        Some chunk # reads' \<Rightarrow>
          if chunk = [] then None
          else count_responses total_responses (responses_received + newlines chunk)
                 (if read_pos = 0 then 0 else read_pos + length chunk) reads'
      | _ \<Rightarrow> None)"

declare count_responses.simps [simp del]

text \<open>A client: what its reads give, and the rounds with a fault of the write or of the flush.\<close>

record quick_client =
  reads :: "bytes option list"
  read_pos :: nat
  base :: bench_client

definition quick_round :: "crates \<Rightarrow> bench_op \<Rightarrow> nat \<Rightarrow> nat \<Rightarrow> round_io \<Rightarrow> quick_client \<Rightarrow> bool \<times> quick_client" where
  "quick_round X op m pipeline_size io c =
     (case build_batches X op m pipeline_size (key_counter (base c)) of (cmds, k) \<Rightarrow>
        let b1 = (base c)\<lparr>key_counter := k\<rparr> in
        case write_fault io 0 of
          Some j \<Rightarrow> (False, c\<lparr>base := b1\<lparr>outgoing := outgoing b1 @ take j cmds\<rparr>\<rparr>)
        | None \<Rightarrow>
            let b2 = b1\<lparr>outgoing := outgoing b1 @ cmds\<rparr> in
            if \<not> flush_ok io then (False, c\<lparr>base := b2\<rparr>)
            else case count_responses (pipeline_size * m) 0 (read_pos c) (reads c) of
              None \<Rightarrow> (False, c\<lparr>base := b2\<rparr>)
            | Some (pos, rs) \<Rightarrow>
                (True, c\<lparr>reads := rs, read_pos := pos, base := count_round 10000 (pipeline_size * m) b2\<rparr>))"

fun quick_rounds :: "crates \<Rightarrow> bench_op \<Rightarrow> nat \<Rightarrow> nat \<Rightarrow> round_io list \<Rightarrow> quick_client \<Rightarrow> quick_client" where
  "quick_rounds X op m pipeline_size [] c = c\<lparr>base := count_rest 10000 (base c)\<rparr>"
| "quick_rounds X op m pipeline_size (io # ios) c =
     (case quick_round X op m pipeline_size io c of
        (True, c') \<Rightarrow> quick_rounds X op m pipeline_size ios c'
      | (False, c') \<Rightarrow> c')"

definition run_quick_clients ::
    "crates \<Rightarrow> bench_op \<Rightarrow> nat \<Rightarrow> nat \<Rightarrow> nat \<Rightarrow> (nat \<Rightarrow> (bytes option list \<times> round_io list) option) \<Rightarrow> u64" where
  "run_quick_clients X op m pipeline_size clients conn =
     (\<Sum>i\<leftarrow>[0..<clients]. case conn i of
        None \<Rightarrow> 0
      | Some (rs, ios) \<Rightarrow>
          reported (base (quick_rounds X op m pipeline_size ios
            \<lparr>reads = rs, read_pos = 0, base = new_client [] (of_nat i * 1000000)\<rparr>)))"

text \<open>The test of one operation sends four batches before it reads, the mixed test one.\<close>

definition quick_bench ::
    "crates \<Rightarrow> nat \<Rightarrow> nat \<Rightarrow> bench_op \<Rightarrow> (nat \<Rightarrow> (bytes option list \<times> round_io list) option) \<Rightarrow> u64" where
  "quick_bench X clients pipeline_size op conn = run_quick_clients X op 4 pipeline_size clients conn"

definition quick_mixed ::
    "crates \<Rightarrow> nat \<Rightarrow> nat \<Rightarrow> nat \<Rightarrow> (nat \<Rightarrow> (bytes option list \<times> round_io list) option) \<Rightarrow>
       (nat \<Rightarrow> (bytes option list \<times> round_io list) option) \<Rightarrow> u64 \<times> u64" where
  "quick_mixed X writers readers pipeline_size wconn rconn =
     (run_quick_clients X SetOp 1 pipeline_size writers wconn, run_quick_clients X GetOp 1 pipeline_size readers rconn)"

text \<open>The writes of the population: a batch is sent when it has grown beyond 4096 bytes.\<close>

fun populate_writes :: "(nat \<Rightarrow> bytes) \<Rightarrow> bytes \<Rightarrow> nat list \<Rightarrow> bytes list" where
  "populate_writes line pending [] = (if pending = [] then [] else [pending])"
| "populate_writes line pending (k # ks) =
     (let pending' = pending @ line k
      in if length pending' > 4096 then pending' # populate_writes line [] ks
         else populate_writes line pending' ks)"

text \<open>The replies are counted by their newlines; the end of the stream and an error end the count.\<close>

fun count_replies :: "nat \<Rightarrow> nat \<Rightarrow> bytes option list \<Rightarrow> nat" where
  "count_replies n_keys responses (Some chunk # rs) =
     (if n_keys \<le> responses \<or> chunk = [] then responses
      else count_replies n_keys (responses + newlines chunk) rs)"
| "count_replies n_keys responses _ = responses"

definition quick_prepopulate :: "(nat \<Rightarrow> nat option) \<Rightarrow> bool \<Rightarrow> bytes option list \<Rightarrow> nat \<Rightarrow> (bytes \<times> nat) outcome" where
  "quick_prepopulate fault flush_done rs n_keys =
     (let writes = populate_writes (\<lambda>k. ''SET pipe:'' @ show_nat k @ '' val:'' @ show_nat k @ crlf) [] [0..<n_keys]
      in if list_ex (\<lambda>j. fault j \<noteq> None) [0..<length writes] \<or> \<not> flush_done then Panic
         else Ret (concat writes, count_replies n_keys 0 rs))"

definition quick_config :: "nat \<Rightarrow> config" where
  "quick_config p =
     \<lparr>bind_addr = ''127.0.0.1'', port = p, read_timeout_secs = 300, sweep_interval_secs = 1,
      max_connections = 0, write_timeout_secs = 0, config_max_keys = 0,
      snapshot_conf = snapshot_config_default, aof_conf = aof_config_default, metrics_enabled = False\<rparr>"

definition quick_tests :: "bench_test list" where
  "quick_tests =
     [OneOp SetOp pipe clients. pipe \<leftarrow> [50, 100, 200, 500], clients \<leftarrow> [16, 32]] @ [Populate 5000] @
     [OneOp GetOp pipe clients. pipe \<leftarrow> [50, 100, 200, 500], clients \<leftarrow> [16, 32]] @
     [Mixed pipe w r. pipe \<leftarrow> [50, 100, 200], (w, r) \<leftarrow> [(8, 8), (16, 16)]]"

section \<open>\<open>redis_compare.rs\<close>\<close>

definition bench_resp_frame :: "bytes list \<Rightarrow> bytes" where
  "bench_resp_frame args =
     ''*'' @ show_nat (length args) @ crlf @
     concat (map (\<lambda>arg. ''$'' @ show_nat (length arg) @ crlf @ arg @ crlf) args)"

definition resp_set :: "bytes \<Rightarrow> bytes \<Rightarrow> bytes" where
  "resp_set key val = bench_resp_frame [''SET'', key, val]"

definition resp_get :: "bytes \<Rightarrow> bytes" where
  "resp_get key = bench_resp_frame [''GET'', key]"

text \<open>
  A reply off the bytes that arrive. A line that does not start with a dollar sign is a
  reply, also the empty line at the end of the stream; a non-negative length is followed by
  as many bytes and CRLF. Growing the scratch buffer beyond the address space panics.
\<close>

datatype reply_error = NotUtf8 | InvalidLength | UnexpectedEof

definition trim_line_end :: "bytes \<Rightarrow> bytes" where
  "trim_line_end t = rev (dropWhile (\<lambda>b. b = CHR 0x0D \<or> b = CHR 0x0A) (rev t))"

definition read_resp_response :: "bytes \<Rightarrow> (reply_error + bytes) outcome" where
  "read_resp_response bs =
     (case read_line bs of
        (None, rest) \<Rightarrow> Ret (Inl NotUtf8)
      | (Some (c # len_text), rest) \<Rightarrow>
          if c \<noteq> CHR ''$'' then Ret (Inr rest)
          else (case parse_i64 (trim_line_end len_text) of
            None \<Rightarrow> Ret (Inl InvalidLength)
          | Some len \<Rightarrow>
              if len < 0 then Ret (Inr rest)
              else if 2 ^ 63 \<le> len + 2 then Panic
              else if length rest < nat len + 2 then Ret (Inl UnexpectedEof)
              else Ret (Inr (drop (nat len + 2) rest)))
      | (Some [], rest) \<Rightarrow> Ret (Inr rest))"

text \<open>The key is cut to the buffer; the rest of the buffer stays.\<close>

definition write_key :: "bytes \<Rightarrow> u64 \<Rightarrow> nat \<times> bytes" where
  "write_key buf counter =
     (let bs = ''k:'' @ show_u64 counter; len = min (length bs) (length buf)
      in (len, take len bs @ drop len buf))"

record redis_client =
  key_buf :: bytes
  val_buf :: bytes
  redis_base :: bench_client

text \<open>The commands of a round. The slice of a key for GET ends at its length modulo 1000.\<close>

fun redis_batch :: "bench_op \<Rightarrow> nat \<Rightarrow> redis_client \<Rightarrow> bytes \<times> redis_client" where
  "redis_batch op 0 c = ([], c)"
| "redis_batch op (Suc m) c =
     (case write_key (key_buf c) (key_counter (redis_base c)) of (n, kb) \<Rightarrow>
        let c1 = c\<lparr>key_buf := kb\<rparr>;
            (frame, c2) =
              (case op of
                 SetOp \<Rightarrow>
                   (case write_key (val_buf c1) (key_counter (redis_base c1)) of (v, vb) \<Rightarrow>
                      (resp_set (take n kb) (take v vb), c1\<lparr>val_buf := vb\<rparr>))
               | GetOp \<Rightarrow> (resp_get (take (n mod 1000) kb), c1));
            c3 = c2\<lparr>redis_base := (redis_base c2)\<lparr>key_counter := key_counter (redis_base c2) + 1\<rparr>\<rparr>
        in apfst ((@) frame) (redis_batch op m c3))"

text \<open>Every error is unwrapped.\<close>

fun read_replies :: "round_io \<Rightarrow> nat \<Rightarrow> nat \<Rightarrow> bytes \<Rightarrow> bytes outcome" where
  "read_replies io i 0 bs = Ret bs"
| "read_replies io i (Suc n) bs =
     (if \<not> read_ok io i then Panic
      else obind (read_resp_response bs) (\<lambda>r.
        case r of Inl _ \<Rightarrow> Panic | Inr rest \<Rightarrow> read_replies io (Suc i) n rest))"

definition redis_round :: "bench_op \<Rightarrow> nat \<Rightarrow> round_io \<Rightarrow> redis_client \<Rightarrow> redis_client outcome" where
  "redis_round op pipeline_size io c =
     (case redis_batch op pipeline_size c of (cmds, c1) \<Rightarrow>
        if write_fault io 0 \<noteq> None \<or> \<not> flush_ok io then Panic
        else let b = (redis_base c1)\<lparr>outgoing := outgoing (redis_base c1) @ cmds\<rparr> in
          obind (read_replies io 0 pipeline_size (incoming b)) (\<lambda>rest.
            Ret (c1\<lparr>redis_base := count_round 10000 pipeline_size (b\<lparr>incoming := rest\<rparr>)\<rparr>)))"

fun redis_rounds :: "bench_op \<Rightarrow> nat \<Rightarrow> round_io list \<Rightarrow> redis_client \<Rightarrow> redis_client outcome" where
  "redis_rounds op pipeline_size [] c = Ret (c\<lparr>redis_base := count_rest 10000 (redis_base c)\<rparr>)"
| "redis_rounds op pipeline_size (io # ios) c = obind (redis_round op pipeline_size io c) (redis_rounds op pipeline_size ios)"

definition new_redis_client :: "bytes \<Rightarrow> nat \<Rightarrow> redis_client" where
  "new_redis_client arriving client_id =
     \<lparr>key_buf = replicate 32 (CHR 0x00), val_buf = replicate 32 (CHR 0x00),
      redis_base = new_client arriving (of_nat client_id * 1000000)\<rparr>"

text \<open>A test panics when one of its tasks did.\<close>

fun add_reports :: "redis_client outcome list \<Rightarrow> u64 outcome" where
  "add_reports [] = Ret 0"
| "add_reports (r # rs) =
     obind r (\<lambda>c. obind (add_reports rs) (\<lambda>total. Ret (reported (redis_base c) + total)))"

definition resp_pipeline_bench ::
    "nat \<Rightarrow> nat \<Rightarrow> bench_op \<Rightarrow> (nat \<Rightarrow> (bytes \<times> round_io list) option) \<Rightarrow> u64 outcome" where
  "resp_pipeline_bench num_clients pipeline_size op conn =
     add_reports (map (\<lambda>i. case conn i of
         None \<Rightarrow> Panic
       | Some (arriving, ios) \<Rightarrow> redis_rounds op pipeline_size ios (new_redis_client arriving i)) [0..<num_clients])"

text \<open>The population in batches of 500, each followed by the reads of its replies.\<close>

function redis_prepopulate :: "(nat \<Rightarrow> round_io) \<Rightarrow> nat \<Rightarrow> nat \<Rightarrow> nat \<Rightarrow> bench_client \<Rightarrow> bench_client outcome" where
  "redis_prepopulate io i remaining idx c =
     (if remaining = 0 then Ret c
      else if write_fault (io i) 0 \<noteq> None \<or> \<not> flush_ok (io i) then Panic
      else let chunk = min remaining 500;
               cmds = concat (map (\<lambda>j. resp_set (''k:'' @ show_nat j) (''v:'' @ show_nat j)) [idx..<idx + chunk])
        in obind (read_replies (io i) 0 chunk (incoming c)) (\<lambda>rest.
             redis_prepopulate io (Suc i) (remaining - chunk) (idx + chunk)
               (c\<lparr>outgoing := outgoing c @ cmds, incoming := rest\<rparr>)))"
  by pat_completeness auto
termination
  by (relation "measure (\<lambda>(io, i, remaining, idx, c). remaining)") auto

declare redis_prepopulate.simps [simp del]

text \<open>The arguments after the name of the program; an option without its value panics.\<close>

record compare_args =
  target :: bytes
  host :: bytes
  target_port :: nat
  output_format :: bytes
  bench_duration :: nat

definition compare_defaults :: compare_args where
  "compare_defaults =
     \<lparr>target = ''zetdb'', host = ''127.0.0.1'', target_port = 6379, output_format = ''text'', bench_duration = 5\<rparr>"

text \<open>\<open>str::parse::<u16>()\<close>.\<close>

definition parse_u16 :: "bytes \<Rightarrow> nat option" where
  "parse_u16 bs = (case parse_u64 bs of Some n \<Rightarrow> if n < 2 ^ 16 then Some n else None | None \<Rightarrow> None)"

datatype compare_start = RunWith compare_args | UsageOnly

fun parse_compare_args :: "bytes list \<Rightarrow> compare_args \<Rightarrow> compare_start outcome" where
  "parse_compare_args [] a = Ret (RunWith a)"
| "parse_compare_args [arg] a =
     (if arg \<in> {''--target'', ''--host'', ''--port'', ''--format'', ''--duration''} then Panic else Ret UsageOnly)"
| "parse_compare_args (arg # val # args) a =
     (if arg = ''--target'' then parse_compare_args args (a\<lparr>target := val\<rparr>)
      else if arg = ''--host'' then parse_compare_args args (a\<lparr>host := val\<rparr>)
      else if arg = ''--port'' then
        (case parse_u16 val of None \<Rightarrow> Panic | Some p \<Rightarrow> parse_compare_args args (a\<lparr>target_port := p\<rparr>))
      else if arg = ''--format'' then parse_compare_args args (a\<lparr>output_format := val\<rparr>)
      else if arg = ''--duration'' then
        (case parse_u64 val of None \<Rightarrow> Panic | Some n \<Rightarrow> parse_compare_args args (a\<lparr>bench_duration := n\<rparr>))
      else Ret UsageOnly)"

definition compare_tests :: "bench_test list" where
  "compare_tests =
     [OneOp SetOp pipe clients. pipe \<leftarrow> [1, 10, 50, 100, 200, 500], clients \<leftarrow> [1, 4, 16, 32]] @
     [Populate 5000] @
     [OneOp GetOp pipe clients. pipe \<leftarrow> [1, 10, 50, 100, 200, 500], clients \<leftarrow> [1, 4, 16, 32]]"

text \<open>A row of the results, without the rates.\<close>

record bench_result =
  result_operation :: bench_op
  result_pipeline_size :: nat
  result_clients :: nat
  total_ops :: u64

fun compare_results :: "(bench_op \<Rightarrow> nat \<Rightarrow> nat \<Rightarrow> u64 outcome) \<Rightarrow> bench_test list \<Rightarrow> bench_result list outcome" where
  "compare_results bench [] = Ret []"
| "compare_results bench (OneOp op pipe clients # tests) =
     obind (bench op pipe clients) (\<lambda>total. obind (compare_results bench tests) (\<lambda>rs.
       Ret (\<lparr>result_operation = op, result_pipeline_size = pipe, result_clients = clients, total_ops = total\<rparr> # rs)))"
| "compare_results bench (_ # tests) = compare_results bench tests"

section \<open>\<open>bench.rs\<close>\<close>

text \<open>
  The commands of a test: ten PINGs to warm up, then the operation. The client writes a
  command, flushes and reads a line; every error is unwrapped.
\<close>

definition bench_commands :: "bench_op \<Rightarrow> nat \<Rightarrow> bytes list" where
  "bench_commands op n =
     replicate 10 ''PING'' @
     map (\<lambda>i. case op of
         SetOp \<Rightarrow> ''SET benchkey:'' @ show_nat i @ '' value:'' @ show_nat i
       | GetOp \<Rightarrow> ''GET benchkey:'' @ show_nat i) [0..<n]"

definition bench_command :: "round_io \<Rightarrow> bytes \<Rightarrow> bench_client \<Rightarrow> bench_client outcome" where
  "bench_command io cmd c =
     (if write_fault io 0 \<noteq> None \<or> \<not> flush_ok io \<or> \<not> read_ok io 0 then Panic
      else case read_line (incoming c) of
        (None, rest) \<Rightarrow> Panic
      | (Some line, rest) \<Rightarrow> Ret (c\<lparr>outgoing := outgoing c @ cmd @ crlf, incoming := rest\<rparr>))"

fun run_bench :: "(nat \<Rightarrow> round_io) \<Rightarrow> nat \<Rightarrow> bytes list \<Rightarrow> bench_client \<Rightarrow> bench_client outcome" where
  "run_bench io i [] c = Ret c"
| "run_bench io i (cmd # cmds) c = obind (bench_command (io i) cmd c) (run_bench io (Suc i) cmds)"

text \<open>
  The percentile of a list of latencies. \<open>rank\<close> is the floored product of the floating-point
  numbers \<open>p / 100\<close> and the length.
\<close>

definition percentile :: "(nat \<Rightarrow> nat) \<Rightarrow> duration list \<Rightarrow> duration outcome" where
  "percentile rank latencies =
     (let sorted = sort latencies; idx = min (rank (length latencies)) (length latencies - 1)
      in if idx < length sorted then Ret (sorted ! idx) else Panic)"

definition bench_config :: "nat \<Rightarrow> config" where
  "bench_config p = config_default\<lparr>bind_addr := ''127.0.0.1'', port := p\<rparr>"

definition bench_tests :: "(bench_op \<times> nat) list" where
  "bench_tests = [(SetOp, n). n \<leftarrow> [100, 1000, 10000]] @ [(GetOp, n). n \<leftarrow> [100, 1000, 10000]]"

end
