(* ===== verification/Session_Inline.thy ===== *)
theory Session_Inline
  imports Durability
begin

text \<open>
  Sessions of the inline protocol: lines of words that end in CRLF, cut off the buffer by
  the borrowed parser and handled by the buffer dispatcher on the full path and by
  \<open>dispatch_fast\<close> on the fast path. Plain lines are frames in the sense of \<open>framed_stream\<close>,
  so a stream of them is answered in order however the network cuts it. A stream of GETs and
  SETs is served as by a map, on either path and on either protocol.
\<close>

section \<open>Lines as frames\<close>

definition line_of :: "parsed_command \<Rightarrow> bytes" where
  "line_of p = inline_line (to_owned p)"

text \<open>
  The commands that a plain line can carry: words without white space, SET without options,
  and a number of seconds that the digit loop of EXPIRE reads.
\<close>

definition plain_line :: "command \<Rightarrow> bool" where
  "plain_line c \<longleftrightarrow> sendable c \<and> list_all is_word (command_args c) \<and>
     (case c of CSet k v ttl \<Rightarrow> ttl = None | CExpire k n \<Rightarrow> n < 10 ^ 19 | _ \<Rightarrow> True)"

abbreviation line_fits :: "parsed_command \<Rightarrow> bool" where
  "line_fits p \<equiv> plain_line (to_owned p)"

lemma to_owned_surj: "\<exists>ps. cs = map to_owned ps"
proof (induction cs)
  case (Cons c cs)
  have "\<exists>p. c = to_owned p"
  proof (cases c)
    case (CMget ks)
    then have "c = to_owned (PMget ks)" by (simp add: bytes_to_string_def map_idI)
    then show ?thesis by blast
  next
    case (CMset kvs)
    then have "c = to_owned (PMset kvs)" by (simp add: bytes_to_string_def map_idI)
    then show ?thesis by blast
  qed (metis bytes_to_string_def to_owned.simps)+
  with Cons show ?case by (metis list.simps(9))
qed simp

lemma to_owned_inject [simp]: "to_owned p = to_owned q \<longleftrightarrow> p = q"
  by (cases p; cases q) (auto simp: bytes_to_string_def)

lemma length_show_nat: "n < 10 ^ k \<Longrightarrow> 0 < k \<Longrightarrow> length (show_nat n) \<le> k"
proof (induction n arbitrary: k rule: show_nat.induct)
  case (1 n)
  show ?case
  proof (cases "n < 10")
    case True
    then show ?thesis using 1(3) by (subst show_nat.simps) simp
  next
    case False
    then obtain j where j: "k = Suc j" "0 < j" using 1(2,3) by (cases k; cases "k - 1") auto
    with 1(2) have "n div 10 < 10 ^ j" by (simp add: div_less_iff_less_mult mult.commute)
    with 1(1) [OF False, of j] j False show ?thesis by (subst show_nat.simps) simp
  qed
qed

lemma show_nat_plain: "n < 10 ^ 19 \<Longrightarrow> plain_number (show_nat n)"
  using length_show_nat [of n 19] show_nat_Cons [of n] by (auto simp: plain_number_def)

lemma line_plain_words: "line_fits p \<Longrightarrow> plain_words (command_args (to_owned p))"
  by (cases p) (auto simp: plain_line_def plain_words_def verb_simps show_nat_plain)

context crates_spec
begin

lemma line_parses:
  assumes "line_fits p"
  shows "parse_inline_borrowed X (line_of p @ rest) = Inr (BComplete (length (line_of p)) p)"
proof -
  let ?l = "join_words (command_args (to_owned p))"
  have w: "list_all is_word (command_args (to_owned p))" "sendable (to_owned p)"
    using assms by (simp_all add: plain_line_def)
  have "parse_bytes ?l = Inr (to_owned p)"
    using w by (simp add: parse_bytes_words words_join_crlf command_of_words_args)
  moreover have "same_reading (length ?l + 2) (parse_bytes ?l) (parse_borrowed_line ?l (length ?l + 2))"
    using line_plain_words [OF assms] w by (intro borrowed_line_agrees) (simp add: words_join_crlf)
  ultimately have "parse_borrowed_line ?l (length ?l + 2) = Inr (BComplete (length ?l + 2) p)"
    by (auto elim!: same_reading.elims)
  then show ?thesis
    using parse_inline_borrowed_crlf [OF join_words_no_cr [OF w(1)] join_words_no_lf [OF w(1)], of rest]
    by (simp add: line_of_def inline_line_def crlf_def)
qed

lemma line_prefix_incomplete:
  assumes "line_fits p" and "strict_prefix b (line_of p)"
  shows "parse_inline_borrowed X b = Inr BIncomplete"
proof -
  let ?l = "join_words (command_args (to_owned p))"
  have "list_all is_word (command_args (to_owned p))" using assms(1) by (simp add: plain_line_def)
  then have no: "CHR 0x0D \<notin> set ?l" "CHR 0x0A \<notin> set ?l" by (simp_all add: join_words_no_cr join_words_no_lf)
  consider "prefix b ?l" | "b = ?l @ [CHR 0x0D]"
    using assms(2) unfolding line_of_def inline_line_def crlf_def
    by (auto simp: strict_prefix_def prefix_append prefix_Cons)
  then show ?thesis
  proof cases
    case 1
    then have "memchr2 X (CHR 0x0D) (CHR 0x0A) b = None"
      using no set_mono_prefix [of b ?l] by (intro memchr2_eq_None) auto
    then show ?thesis by (simp add: parse_inline_borrowed_def borrowed_line_end_def)
  next
    case 2
    then show ?thesis
      using memchr2_append [OF no, of "CHR 0x0D" "[]"]
      by (simp add: parse_inline_borrowed_def borrowed_line_end_def nth_append)
  qed
qed

end

section \<open>Batches of lines\<close>

text \<open>A line on the fast path, without the offset into the buffer.\<close>

definition inline_fast_command :: "'m entries \<Rightarrow> parsed_command \<Rightarrow> 'm session \<Rightarrow> 'm session outcome" where
  "inline_fast_command D cmd st =
     (case dispatch_fast D cmd (store st) (write_buf st) of
        (buf, e) \<Rightarrow> Ret (st\<lparr>store := e, write_buf := buf, served := Suc (served st)\<rparr>))"

definition line_handler ::
    "crates \<Rightarrow> 'm entries \<Rightarrow> surroundings \<Rightarrow> bool \<Rightarrow> bool \<Rightarrow> parsed_command \<Rightarrow> 'm session \<Rightarrow> 'm session outcome" where
  "line_handler X D V me fast = (if fast then inline_fast_command D else inline_full_command X D V me)"

lemma dispatch_fast_appends:
  "dispatch_fast D cmd e buf = (buf @ fst (dispatch_fast D cmd e []), snd (dispatch_fast D cmd e []))"
  by (auto simp: dispatch_fast_def split: parsed_command.split option.split)

lemma keeps_buffer_line: "keeps_buffer (line_handler X D V me fast)"
  using keeps_buffer_inline [of X D V me]
  by (auto simp: line_handler_def keeps_buffer_def inline_fast_command_def split: prod.splits)

lemma appends_reply_line:
  fixes D :: "'m entries"
  shows "appends_reply (line_handler X D V me fast)"
proof (cases fast)
  case True
  have "inline_fast_command D c (st\<lparr>write_buf := b, sent := x\<rparr>) =
      obind (inline_fast_command D c (st\<lparr>write_buf := []\<rparr>)) (\<lambda>st'. Ret (st'\<lparr>write_buf := b @ write_buf st', sent := x\<rparr>))"
    for c :: parsed_command and st :: "'m session" and b x
    using dispatch_fast_appends [of D c "store st" b] by (simp add: inline_fast_command_def split: prod.split)
  with True show ?thesis by (simp add: line_handler_def appends_reply_def)
next
  case False
  then show ?thesis
    by (auto simp: line_handler_def appends_reply_def inline_full_command_def dispatch_to_buffer_dispatch
        omap_def obind_case Let_def split: outcome.splits)
qed

context crates_spec
begin

lemma full_lines:
  assumes "list_all line_fits ps" and "parse_inline_borrowed X rest = Inr BIncomplete"
  shows "repeat_passes (inline_full_pass X (inline_full_command X D V me)) (st\<lparr>read_buf := stream line_of ps @ rest\<rparr>) =
    Some (obind (run_all (inline_full_command X D V me) ps st) (\<lambda>st'. Ret (st'\<lparr>read_buf := rest\<rparr>)))"
  using assms keeps_buffer_inline
  by (intro repeat_stream [where fits = line_fits]) (simp_all add: inline_full_pass_def line_parses advance_def)

text \<open>The fast loop leaves the lines in the buffer and counts them in the offset.\<close>

lemma fast_lines:
  assumes "list_all line_fits ps" and "parse_inline_borrowed X rest = Inr BIncomplete"
    and "read_buf st = pre @ stream line_of ps @ rest" and "run_all (inline_fast_command D) ps st = Ret st'"
  shows "repeat_passes (inline_fast_pass X D) (length pre, st) = Some (Ret (length (pre @ stream line_of ps), st'))"
  using assms(1,3,4)
proof (induction ps arbitrary: pre st)
  case Nil
  then show ?case using assms(2) by (subst repeat_Break) (simp_all add: inline_fast_pass_def)
next
  case (Cons p ps)
  obtain buf e where d: "dispatch_fast D p (store st) (write_buf st) = (buf, e)"
    by (cases "dispatch_fast D p (store st) (write_buf st)")
  let ?st = "st\<lparr>store := e, write_buf := buf, served := Suc (served st)\<rparr>"
  have "inline_fast_pass X D (length pre, st) = Ret (Next (length (pre @ line_of p), ?st))"
    using Cons.prems d line_parses [of p "stream line_of ps @ rest"] by (simp add: inline_fast_pass_def)
  moreover have "repeat_passes (inline_fast_pass X D) (length (pre @ line_of p), ?st) =
      Some (Ret (length ((pre @ line_of p) @ stream line_of ps), st'))"
    using Cons.prems d by (intro Cons.IH) (simp_all add: inline_fast_command_def)
  ultimately show ?case by (simp add: repeat_Next)
qed

lemma inline_fast_returns: "\<exists>st'. run_all (inline_fast_command D) ps st = Ret st'"
  by (induction ps arbitrary: st) (auto simp: inline_fast_command_def split: prod.splits)

lemma line_partial_incomplete:
  "partial_frame line_of b ps \<Longrightarrow> list_all line_fits ps \<Longrightarrow> parse_inline_borrowed X b = Inr BIncomplete"
  by (auto simp: partial_frame_def borrowed_Nil intro: line_prefix_incomplete)

end

lemma line_of_not_star: "\<exists>b bs. line_of p = b # bs \<and> b \<noteq> CHR ''*''"
  using inline_line_first [of "to_owned p" "[]"] by (cases "line_of p") (auto simp: line_of_def)

lemma lines_not_star:
  assumes "partial_frame line_of rest vs"
  shows "\<not> is_resp_batch (stream line_of us @ rest)"
proof (cases us)
  case Nil
  then show ?thesis
  proof (cases rest)
    case (Cons b bs)
    with assms obtain p where "strict_prefix rest (line_of p)" by (auto simp: partial_frame_def)
    with Cons Nil line_of_not_star [of p] show ?thesis by (auto simp: is_resp_batch_def strict_prefix_def)
  qed (simp add: is_resp_batch_def)
next
  case (Cons p us')
  with line_of_not_star [of p] show ?thesis by (auto simp: is_resp_batch_def)
qed

sublocale crates_spec \<subseteq> line_stream: framed_stream line_of line_fits "line_handler X D V me fast"
    "path_ready me fast" "batch_handler X D V me fast"
  for D :: "'m entries" and V :: surroundings and me :: bool and fast :: bool
proof (unfold_locales, goal_cases)
  case (1 c)
  then show ?case using line_of_not_star [of c] by auto
next
  case (2 us vs rest st)
  have fits: "list_all line_fits us" and rest: "parse_inline_borrowed X rest = Inr BIncomplete"
    using 2 line_partial_incomplete by auto
  show ?case
  proof (cases fast)
    case True
    let ?st = "st\<lparr>read_buf := stream line_of us @ rest\<rparr>"
    obtain st' where st': "run_all (inline_fast_command D) us st = Ret st'"
      using inline_fast_returns by blast
    then have "run_all (inline_fast_command D) us ?st = Ret (st'\<lparr>read_buf := stream line_of us @ rest\<rparr>)"
      using run_all_buffer [OF keeps_buffer_line [of X D V me True], where cs = us and st = st]
      by (simp add: line_handler_def)
    with fast_lines [OF fits rest, where st = ?st and pre = "[]"] st' True lines_not_star [OF 2(2), of us]
    show ?thesis by (simp add: batch_handler_def fast_batch_def line_handler_def advance_def)
  next
    case False
    with full_lines [OF fits rest, where st = st] lines_not_star [OF 2(2), of us] show ?thesis
      by (simp add: batch_handler_def full_batch_def line_handler_def)
  qed
next
  case (5 st c st')
  then show ?case
    by (cases fast) (auto simp: path_ready_def line_handler_def inline_fast_command_def split: prod.splits)
qed (simp_all add: keeps_buffer_line appends_reply_line path_ready_def)

section \<open>Answers and log of a stream of lines\<close>

text \<open>
  The commands are dispatched one after the other; the metrics count them without looking at
  the responses, and the log takes every write, successful or not.
\<close>

fun answer_lines ::
    "crates \<Rightarrow> 'm entries \<Rightarrow> surroundings \<Rightarrow> bool \<Rightarrow> nat \<Rightarrow> command list \<Rightarrow> metrics \<Rightarrow> 'm engine \<Rightarrow>
       (response list \<times> metrics \<times> 'm engine) outcome" where
  "answer_lines X D V me n [] m e = Ret ([], m, e)"
| "answer_lines X D V me n (c # cs) m e =
     obind (dispatch (dashmap_engine X D) (thread_at V n) (clock_at V n) m c e) (\<lambda>(r, e1).
       obind (answer_lines X D V me (Suc n) cs
                (if me then record_command (thread_at V n) (command_type_of c) m else m) e1)
         (\<lambda>(rs, m', e'). Ret (r # rs, m', e')))"

definition line_replies :: "crates \<Rightarrow> command list \<Rightarrow> response list \<Rightarrow> bytes" where
  "line_replies X cs rs = concat (map2 (terse_bytes X False) cs rs)"

definition answered_lines ::
    "crates \<Rightarrow> surroundings \<Rightarrow> command list \<Rightarrow> response list \<Rightarrow> metrics \<Rightarrow> 'm engine \<Rightarrow> 'm session \<Rightarrow> 'm session" where
  "answered_lines X V cs rs m e st =
     st\<lparr>store := e, counters := m, aof := log_all V (served st) (map (\<lambda>c. (c, Ok)) cs) (aof st),
        write_buf := write_buf st @ line_replies X cs rs, served := served st + length cs\<rparr>"

lemma inline_full_command_answers:
  "inline_full_command X D V me p st =
     obind (answer_lines X D V me (served st) [to_owned p] (counters st) (store st))
       (\<lambda>(rs, m, e). Ret (answered_lines X V [to_owned p] rs m e st))"
  by (auto simp: inline_full_command_def answered_lines_def line_replies_def Let_def dispatch_to_buffer_dispatch omap_def
      parsed_is_write_to_owned parsed_command_type_to_owned parsed_to_aof_entry_def obind_case split: outcome.splits)

lemma answered_lines_Cons:
  "answered_lines X V cs rs m e (answered_lines X V [c] [r] m1 e1 st) = answered_lines X V (c # cs) (r # rs) m e st"
  by (simp add: answered_lines_def line_replies_def)

lemma run_all_lines:
  "run_all (inline_full_command X D V me) ps st =
     obind (answer_lines X D V me (served st) (map to_owned ps) (counters st) (store st))
       (\<lambda>(rs, m, e). Ret (answered_lines X V (map to_owned ps) rs m e st))"
proof (induction ps arbitrary: st)
  case Nil
  then show ?case by (simp add: answered_lines_def line_replies_def)
next
  case (Cons p ps)
  let ?c = "to_owned p" and ?n = "served st"
  show ?case
  proof (cases "dispatch (dashmap_engine X D) (thread_at V ?n) (clock_at V ?n) (counters st) ?c (store st)")
    case (Ret q)
    obtain r e1 where q: "q = (r, e1)" by (cases q)
    let ?m = "if me then record_command (thread_at V ?n) (command_type_of ?c) (counters st) else counters st"
    let ?st = "answered_lines X V [?c] [r] ?m e1 st"
    have "inline_full_command X D V me p st = Ret ?st"
      by (simp add: inline_full_command_answers Ret q)
    moreover have "served ?st = Suc ?n" "counters ?st = ?m" "store ?st = e1" by (simp_all add: answered_lines_def)
    ultimately have "run_all (inline_full_command X D V me) (p # ps) st =
        obind (answer_lines X D V me (Suc ?n) (map to_owned ps) ?m e1)
          (\<lambda>(rs, m, e). Ret (answered_lines X V (?c # map to_owned ps) (r # rs) m e st))"
      using Cons.IH [of ?st] by (simp only: run_all.simps obind.simps answered_lines_Cons)
    with Ret q show ?thesis
      by (cases "answer_lines X D V me (Suc ?n) (map to_owned ps) ?m e1") (simp_all add: split_beta)
  qed (simp_all add: inline_full_command_answers)
qed

text \<open>The loop of a session whose connection is open, on the path that \<open>handle_session\<close> chooses.\<close>

definition fast_path :: "duration \<Rightarrow> bool \<Rightarrow> 'm session \<Rightarrow> bool" where
  "fast_path wt me st \<longleftrightarrow> aof st = None \<and> \<not> me \<and> as_secs wt = 0"

definition opened :: "bool \<Rightarrow> 'm session \<Rightarrow> 'm session" where
  "opened me st = (if me then st\<lparr>counters := connection_opened (counters st)\<rparr> else st)"

lemma handle_session_loop:
  assumes "session_loop (batch_handler X D V me (fast_path wt me st)) evs (opened me st) = Some (Ret (Next st'))"
  shows "handle_session X D V wt me evs st = Some (Ret (Next st'))"
  using assms
  by (auto simp: handle_session_def handle_session_fast_def handle_session_full_def batch_handler_def
      fast_path_def opened_def Let_def split: if_splits)

lemma fast_path_ready: "path_ready me (fast_path wt me st) (opened me st)"
  by (auto simp: path_ready_def fast_path_def opened_def)

lemma opened_simps [simp]:
  "read_buf (opened me st) = read_buf st" "write_buf (opened me st) = write_buf st"
  "store (opened me st) = store st" "sent (opened me st) = sent st" "served (opened me st) = served st"
  "aof (opened me st) = aof st"
  by (simp_all add: opened_def)

lemma inline_line_of: "inline_line (to_owned p) = line_of p"
  by (simp add: line_of_def)

lemma stream_lines: "stream inline_line (map to_owned ps) = stream line_of ps"
  by (induction ps) (simp_all add: line_of_def)

lemma chunks_fit_lines: "chunks_fit inline_line (map to_owned ps) chunks = chunks_fit line_of ps chunks"
  by (simp add: chunks_fit_def line_of_def)

text \<open>
  The lines on the fast path: a GET finds whatever is stored, expired or not, a SET stores its
  value without a time to live, and every other command is refused.
\<close>

fun fast_answers :: "'m entries \<Rightarrow> command list \<Rightarrow> 'm engine \<Rightarrow> bytes \<times> 'm engine" where
  "fast_answers D [] e = ([], e)"
| "fast_answers D (c # cs) e =
     (case c of
        CGet k \<Rightarrow> apfst (\<lambda>out. (case dm_get D (emap e) k of None \<Rightarrow> ''$-1'' | Some v \<Rightarrow> ''+'' @ data v) @ crlf @ out)
          (fast_answers D cs e)
      | CSet k v ttl \<Rightarrow> apfst (\<lambda>out. ''+OK'' @ crlf @ out)
          (fast_answers D cs
             (e\<lparr>emap := dm_insert D (emap e) k \<lparr>data = v, expires_at = None, created_at = None\<rparr>\<rparr>))
      | _ \<Rightarrow> apfst (\<lambda>out. ''-ERR unsupported'' @ crlf @ out) (fast_answers D cs e))"

lemma run_all_fast_lines:
  "fast_answers D (map to_owned ps) (store st) = (out, e) \<Longrightarrow>
     run_all (inline_fast_command D) ps st =
       Ret (st\<lparr>store := e, write_buf := write_buf st @ out, served := served st + length ps\<rparr>)"
proof (induction ps arbitrary: st out)
  case (Cons p ps)
  obtain buf e1 where d: "dispatch_fast D p (store st) [] = (buf, e1)" by fastforce
  let ?st = "st\<lparr>store := e1, write_buf := write_buf st @ buf, served := Suc (served st)\<rparr>"
  have step: "inline_fast_command D p st = Ret ?st"
    using dispatch_fast_appends [of D p "store st" "write_buf st"] d by (simp add: inline_fast_command_def)
  have "\<exists>out'. fast_answers D (map to_owned ps) e1 = (out', e) \<and> out = buf @ out'"
    using d Cons.prems
    by (cases p) (auto simp: dispatch_fast_def get_fast_def set_fast_str_def value_entry_new_fast_def null_bulk_def
        bytes_to_string_def apfst_def map_prod_def split: option.splits prod.splits)
  then obtain out' where out': "fast_answers D (map to_owned ps) (store ?st) = (out', e)" "out = buf @ out'" by auto
  with step Cons.IH [OF out'(1)] show ?case by simp
qed simp

text \<open>What a session sends for a list of lines, and its state afterwards, on either path.\<close>

definition serve_lines ::
    "crates \<Rightarrow> 'm entries \<Rightarrow> surroundings \<Rightarrow> bool \<Rightarrow> bool \<Rightarrow> command list \<Rightarrow> 'm session \<Rightarrow>
       (bytes \<times> 'm session) outcome" where
  "serve_lines X D V me fast cs st =
     (if fast then
        (case fast_answers D cs (store st) of (out, e) \<Rightarrow>
           Ret (out, st\<lparr>store := e, served := served st + length cs\<rparr>))
      else
        obind (answer_lines X D V me (served st) cs (counters st) (store st)) (\<lambda>(rs, m, e).
          Ret (line_replies X cs rs,
            st\<lparr>store := e, counters := m, aof := log_all V (served st) (map (\<lambda>c. (c, Ok)) cs) (aof st),
               served := served st + length cs\<rparr>)))"

lemma run_all_serve_lines:
  assumes "serve_lines X D V me fast (map to_owned ps) st = Ret (out, st')" and "write_buf st = []"
  shows "run_all (line_handler X D V me fast) ps st = Ret (st'\<lparr>write_buf := out\<rparr>)"
  using assms
  by (cases fast)
    (auto simp: serve_lines_def line_handler_def run_all_fast_lines run_all_lines answered_lines_def obind_eq_Ret_iff
      split: prod.splits)

lemma serve_lines_keeps:
  "serve_lines X D V me fast cs st = Ret (out, st') \<Longrightarrow> read_buf st' = read_buf st \<and> write_buf st' = write_buf st"
  by (auto simp: serve_lines_def obind_eq_Ret_iff split: if_splits prod.splits)

context crates_spec
begin

lemma session_lines:
  assumes "list_all line_fits ps" and "concat chunks = stream line_of ps" and "[] \<notin> set chunks"
    and "read_buf st = []" and "write_buf st = []" and "chunks_fit line_of ps chunks" and "path_ready me fast st"
    and "serve_lines X D V me fast (map to_owned ps) st = Ret (out, st')" and "length out \<le> max_write_buf"
  shows "session_loop (batch_handler X D V me fast) (map (\<lambda>b. (ReadOk b, WriteOk)) chunks) st =
    Some (Ret (Next (flushed_session st [] (st'\<lparr>write_buf := out\<rparr>))))"
proof -
  note run = run_all_serve_lines [OF assms(8,5)]
  have "output_fits line_of (line_handler X D V me fast) ps st"
    using assms(9) by (intro line_stream.output_fits_total [OF run]) simp
  with run assms show ?thesis
    by (intro line_stream.session_chunks) (simp_all add: partial_frame_def)
qed

end

text \<open>
  (C14) A session answers a stream of plain lines in order, whatever the chunks in which it
  arrives, as long as the buffer limits are respected; a plain line has words separated by
  single spaces and no SET option. On the full path (with a log, metrics or a write timeout) every command is
  dispatched once, in order, on the state its predecessors left, and the client receives the
  responses in the form of the inline protocol; unlike on RESP, the log takes every write
  command, also the failed ones, and the metrics do not count hits, misses and errors. On the
  fast path a GET is answered from what is stored, expired or not, a SET stores its value for
  good, and every other command is answered with an error and changes nothing.
\<close>

theorem inline_session_answers_in_order:
  assumes "crates_spec X" and "list_all plain_line cs" and "concat chunks = stream inline_line cs"
    and "[] \<notin> set chunks" and "read_buf st = []" and "write_buf st = []"
    and "chunks_fit inline_line cs chunks"
    and "serve_lines X D V me (fast_path wt me st) cs (opened me st) = Ret (out, st')"
    and "length out \<le> max_write_buf"
  shows "handle_session X D V wt me (map (\<lambda>b. (ReadOk b, WriteOk)) chunks) st =
    Some (Ret (Next (st'\<lparr>sent := sent st @ out\<rparr>)))"
proof -
  obtain ps where ps: "cs = map to_owned ps" using to_owned_surj [of cs] by blast
  have "session_loop (batch_handler X D V me (fast_path wt me st)) (map (\<lambda>b. (ReadOk b, WriteOk)) chunks) (opened me st) =
      Some (Ret (Next (flushed_session (opened me st) [] (st'\<lparr>write_buf := out\<rparr>))))"
    using assms fast_path_ready [of me wt st]
    by (intro crates_spec.session_lines [where ps = ps])
      (simp_all add: ps stream_lines chunks_fit_lines list.pred_map comp_def)
  moreover have "flushed_session (opened me st) [] (st'\<lparr>write_buf := out\<rparr>) = st'\<lparr>sent := sent st @ out\<rparr>"
    using serve_lines_keeps [OF assms(8)] assms(5,6) by (simp add: flushed_session_def)
  ultimately show ?thesis by (intro handle_session_loop) simp
qed

section \<open>Sessions as maps\<close>

text \<open>GET and SET on a map, and the engines that hold the data of a map for good.\<close>

fun map_command :: "command \<Rightarrow> bool" where
  "map_command (CGet k) = True"
| "map_command (CSet k v ttl) = (ttl = None)"
| "map_command _ = False"

fun map_answer :: "command \<Rightarrow> (key \<Rightarrow> bytes option) \<Rightarrow> response" where
  "map_answer (CGet k) d = Value (d k)"
| "map_answer _ d = Ok"

fun serve_map :: "command list \<Rightarrow> (key \<Rightarrow> bytes option) \<Rightarrow> response list" where
  "serve_map [] d = []"
| "serve_map (c # cs) d = map_answer c d # serve_map cs (apply_data c d)"

definition holds_data :: "'m entries \<Rightarrow> 'm engine \<Rightarrow> (key \<Rightarrow> bytes option) \<Rightarrow> bool" where
  "holds_data D e d \<longleftrightarrow> max_keys e = 0 \<and>
     (\<forall>k. map_option data (dm_get D (emap e) k) = d k) \<and>
     (\<forall>k v. dm_get D (emap e) k = Some v \<longrightarrow> expires_at v = None)"

lemma holds_data_live: "holds_data D e d \<Longrightarrow> map_option data (live D e t k) = d k"
  unfolding holds_data_def live_def
  by (cases "dm_get D (emap e) k") (auto simp: live_at_def is_expired_at_def dest: spec [of _ k])

lemma serve_map_append: "serve_map (us @ vs) d = serve_map us d @ serve_map vs (fold apply_data us d)"
  by (induction us arbitrary: d) auto

text \<open>A handler of commands \<open>cmd c\<close> whose replies are those of the map.\<close>

definition serves_as_map ::
    "'m entries \<Rightarrow> (response \<Rightarrow> bytes) \<Rightarrow> ('c \<Rightarrow> command) \<Rightarrow> ('c \<Rightarrow> 'm session \<Rightarrow> 'm session outcome) \<Rightarrow>
       ('m session \<Rightarrow> bool) \<Rightarrow> bool" where
  "serves_as_map D reply cmd run ready \<longleftrightarrow>
     (\<forall>c st d. map_command (cmd c) \<longrightarrow> holds_data D (store st) d \<longrightarrow> ready st \<longrightarrow>
        (\<exists>st'. run c st = Ret st' \<and> holds_data D (store st') (apply_data (cmd c) d) \<and>
           write_buf st' = write_buf st @ reply (map_answer (cmd c) d) \<and> ready st'))"

lemma run_all_serves:
  assumes "serves_as_map D reply cmd run ready" and "list_all map_command (map cmd cs)"
    and "holds_data D (store st) d" and "ready st"
  shows "\<exists>st'. run_all run cs st = Ret st' \<and> holds_data D (store st') (fold apply_data (map cmd cs) d) \<and>
    write_buf st' = write_buf st @ concat (map reply (serve_map (map cmd cs) d)) \<and> ready st'"
  using assms(2-4)
proof (induction cs arbitrary: st d)
  case (Cons c cs)
  obtain st1 where st1: "run c st = Ret st1" "holds_data D (store st1) (apply_data (cmd c) d)"
      "write_buf st1 = write_buf st @ reply (map_answer (cmd c) d)" "ready st1"
    using assms(1) Cons.prems unfolding serves_as_map_def by (auto simp: list_all_iff) blast
  from Cons.IH [OF _ st1(2,4)] Cons.prems(1) st1(1,3) show ?case by auto
qed simp

context framed_stream
begin

lemma session_serves_as_map:
  assumes "serves_as_map D reply cmd run ready" and "list_all map_command (map cmd cs)"
    and "holds_data D (store st) d" and "ready st" and "list_all fits cs"
    and "concat chunks = stream frame cs" and "[] \<notin> set chunks" and "read_buf st = []" and "write_buf st = []"
    and "chunks_fit frame cs chunks"
    and reply: "\<And>us ws vs. cs = us @ ws @ vs \<Longrightarrow> length (stream frame ws) \<le> max_read_buf \<Longrightarrow>
      length (concat (map reply (serve_map (map cmd ws) (fold apply_data (map cmd us) d)))) \<le> max_write_buf"
  shows "\<exists>st'. session_loop handle (map (\<lambda>b. (ReadOk b, WriteOk)) chunks) st = Some (Ret (Next st')) \<and>
    holds_data D (store st') (fold apply_data (map cmd cs) d) \<and>
    sent st' = sent st @ concat (map reply (serve_map (map cmd cs) d)) \<and> read_buf st' = [] \<and> write_buf st' = []"
proof -
  obtain st' where st': "run_all run cs st = Ret st'" "holds_data D (store st') (fold apply_data (map cmd cs) d)"
      "write_buf st' = concat (map reply (serve_map (map cmd cs) d))"
    using run_all_serves [OF assms(1-4)] assms(9) by auto
  have "output_fits frame run cs st"
    unfolding output_fits_def
  proof (intro allI impI)
    fix us ws vs st1 st2
    assume cs: "cs = us @ ws @ vs" and us: "run_all run us st = Ret st1"
      and ws: "run_all run ws (st1\<lparr>write_buf := []\<rparr>) = Ret st2" and len: "length (stream frame ws) \<le> max_read_buf"
    have st1: "holds_data D (store st1) (fold apply_data (map cmd us) d)" "ready (st1\<lparr>write_buf := []\<rparr>)"
      using run_all_serves [OF assms(1) _ assms(3,4), of us] us cs assms(2)
        ready_buffers [where st = st1 and b = "read_buf st1" and b' = "[]" and x = "sent st1"] by auto
    show "length (write_buf st2) \<le> max_write_buf"
      using run_all_serves [OF assms(1) _ _ st1(2), of ws] st1(1) ws cs assms(2) reply [OF cs len] by auto
  qed
  from session_chunks [OF _ _ assms(7,9,5,4,10) st'(1) this] assms(6,8) st' show ?thesis
    by (auto simp: partial_frame_def flushed_session_def)
qed

end

section \<open>Both protocols and both paths serve a map\<close>

context zet_engine
begin

lemma holds_data_new: "holds_data D (engine_new D) Map.empty"
  by (simp add: holds_data_def engine_new_def get_new)

lemma holds_data_insert:
  "holds_data D e d \<Longrightarrow> expires_at v = None \<Longrightarrow>
     holds_data D (e\<lparr>emap := dm_insert D (emap e) k v\<rparr>) (d(k \<mapsto> data v))"
  by (auto simp: holds_data_def get_insert)

lemma dispatch_map:
  assumes "map_command c" and "holds_data D e d"
  shows "\<exists>e'. dispatch (dashmap_engine X D) i clk m c e = Ret (map_answer c d, e') \<and> holds_data D e' (apply_data c d)"
proof (cases c)
  case (CGet k)
  have d: "map_option data (dm_get D (emap e) k) = d k" using assms(2) by (simp add: holds_data_def)
  have "\<not> is_expired_at v t" if "dm_get D (emap e) k = Some v" for v t
    using assms(2) that by (auto simp: holds_data_def is_expired_at_def)
  with CGet d assms(2) show ?thesis
    by (cases "dm_get D (emap e) k") (auto simp: dashmap_engine_def engine_get_def)
next
  case (CSet k v ttl)
  have "max_keys e = 0" using assms(2) by (simp add: holds_data_def)
  moreover have "holds_data D (e\<lparr>emap := dm_insert D (emap e) k (value_entry_new clk v)\<rparr>) (d(k \<mapsto> v))"
    using holds_data_insert [OF assms(2), of "value_entry_new clk v" k] by (simp add: value_entry_new_def)
  ultimately show ?thesis
    using CSet assms(1) by (simp add: set_entry_def dashmap_engine_def engine_set_def)
qed (use assms(1) in auto)

lemma serves_resp: "serves_as_map D (response_bytes X True) id (command_handler X D V me fast) (path_ready me fast)"
  unfolding serves_as_map_def
proof (intro allI impI)
  fix c and st :: "'m session" and d
  assume *: "map_command (id c)" "holds_data D (store st) d" "path_ready me fast st"
  obtain e' where "dispatch (dashmap_engine X D) (thread_at V (served st)) (clock_at V (served st)) (counters st) c (store st)
      = Ret (map_answer c d, e')" "holds_data D e' (apply_data c d)"
    using dispatch_map [of c "store st" d] * by (auto simp only: id_apply) metis
  with *(3) show "\<exists>st'. command_handler X D V me fast c st = Ret st' \<and> holds_data D (store st') (apply_data (id c) d) \<and>
      write_buf st' = write_buf st @ response_bytes X True (map_answer (id c) d) \<and> path_ready me fast st'"
    by (auto simp: command_handler_def resp_fast_command_def resp_full_command_def Let_def write_response_resp
        path_ready_def)
qed

lemma terse_map: "map_command c \<Longrightarrow> terse_bytes X b c (map_answer c d) = response_bytes X b (map_answer c d)"
  by (cases c) (simp_all add: terse_bytes_def)

lemma dispatch_fast_map:
  assumes "map_command (to_owned p)" and "holds_data D e d"
  shows "\<exists>e'. dispatch_fast D p e buf = (buf @ response_bytes X False (map_answer (to_owned p) d), e') \<and>
    holds_data D e' (apply_data (to_owned p) d)"
proof (cases p)
  case (PGet k)
  have "map_option data (dm_get D (emap e) k) = d k" using assms(2) by (simp add: holds_data_def)
  then show ?thesis
    using PGet assms(2) by (auto simp: dispatch_fast_def get_fast_def bytes_to_string_def split: option.splits)
next
  case (PSet k v ttl)
  then show ?thesis
    using assms holds_data_insert [OF assms(2), of "value_entry_new_fast v" k]
    by (simp add: dispatch_fast_def set_fast_str_def value_entry_new_fast_def bytes_to_string_def)
qed (use assms(1) in auto)

lemma serves_line: "serves_as_map D (response_bytes X False) to_owned (line_handler X D V me fast) (path_ready me fast)"
  unfolding serves_as_map_def
proof (intro allI impI)
  fix p and st :: "'m session" and d
  assume *: "map_command (to_owned p)" "holds_data D (store st) d" "path_ready me fast st"
  obtain e' where e': "dispatch (dashmap_engine X D) (thread_at V (served st)) (clock_at V (served st)) (counters st)
      (to_owned p) (store st) = Ret (map_answer (to_owned p) d, e')" "holds_data D e' (apply_data (to_owned p) d)"
    using dispatch_map [OF *(1,2)] by metis
  obtain e'' where e'': "dispatch_fast D p (store st) (write_buf st) =
      (write_buf st @ response_bytes X False (map_answer (to_owned p) d), e'')" "holds_data D e'' (apply_data (to_owned p) d)"
    using dispatch_fast_map [OF *(1,2)] by blast
  show "\<exists>st'. line_handler X D V me fast p st = Ret st' \<and> holds_data D (store st') (apply_data (to_owned p) d) \<and>
      write_buf st' = write_buf st @ response_bytes X False (map_answer (to_owned p) d) \<and> path_ready me fast st'"
    using e' e'' *(1,3)
    by (auto simp: line_handler_def inline_fast_command_def inline_full_command_def Let_def dispatch_to_buffer_dispatch
        terse_map path_ready_def)
qed

lemma session_map_resp:
  assumes "list_all map_command cs" and "list_all frame_fits cs" and "holds_data D (store st) d"
    and "concat chunks = stream (resp_frame X) cs" and "[] \<notin> set chunks" and "read_buf st = []" and "write_buf st = []"
    and "chunks_fit (resp_frame X) cs chunks"
    and "\<And>us ws vs. cs = us @ ws @ vs \<Longrightarrow> length (stream (resp_frame X) ws) \<le> max_read_buf \<Longrightarrow>
      length (concat (map (response_bytes X True) (serve_map ws (fold apply_data us d)))) \<le> max_write_buf"
  shows "\<exists>st'. handle_session X D V wt me (map (\<lambda>b. (ReadOk b, WriteOk)) chunks) st = Some (Ret (Next st')) \<and>
    holds_data D (store st') (fold apply_data cs d) \<and>
    sent st' = sent st @ concat (map (response_bytes X True) (serve_map cs d)) \<and> read_buf st' = [] \<and> write_buf st' = []"
  using resp_stream.session_serves_as_map [OF serves_resp, where cs = cs and st = "opened me st" and d = d
      and chunks = chunks, OF _ _ fast_path_ready] assms
  by (fastforce intro!: handle_session_loop)

lemma session_map_inline:
  assumes "list_all map_command cs" and "list_all plain_line cs" and "holds_data D (store st) d"
    and "concat chunks = stream inline_line cs" and "[] \<notin> set chunks" and "read_buf st = []" and "write_buf st = []"
    and "chunks_fit inline_line cs chunks"
    and reply: "\<And>us ws vs. cs = us @ ws @ vs \<Longrightarrow> length (stream inline_line ws) \<le> max_read_buf \<Longrightarrow>
      length (concat (map (response_bytes X False) (serve_map ws (fold apply_data us d)))) \<le> max_write_buf"
  shows "\<exists>st'. handle_session X D V wt me (map (\<lambda>b. (ReadOk b, WriteOk)) chunks) st = Some (Ret (Next st')) \<and>
    holds_data D (store st') (fold apply_data cs d) \<and>
    sent st' = sent st @ concat (map (response_bytes X False) (serve_map cs d)) \<and> read_buf st' = [] \<and> write_buf st' = []"
proof -
  obtain ps where ps: "cs = map to_owned ps" using to_owned_surj [of cs] by blast
  have "length (concat (map (response_bytes X False) (serve_map (map to_owned ws) (fold apply_data (map to_owned us) d))))
      \<le> max_write_buf" if "ps = us @ ws @ vs" "length (stream line_of ws) \<le> max_read_buf" for us ws vs
    using reply [of "map to_owned us" "map to_owned ws" "map to_owned vs"] that ps by (simp add: stream_lines)
  then show ?thesis
    using line_stream.session_serves_as_map [OF serves_line, where cs = ps and st = "opened me st" and d = d
      and chunks = chunks, OF _ _ fast_path_ready] assms
    by (fastforce simp: ps stream_lines chunks_fit_lines list.pred_map comp_def intro!: handle_session_loop)
qed

end

definition wire_frame :: "crates \<Rightarrow> bool \<Rightarrow> command \<Rightarrow> bytes" where
  "wire_frame X is_resp = (if is_resp then resp_frame X else inline_line)"

definition wire_fits :: "bool \<Rightarrow> command \<Rightarrow> bool" where
  "wire_fits is_resp = (if is_resp then frame_fits else plain_line)"

definition wire_replies :: "crates \<Rightarrow> bool \<Rightarrow> response list \<Rightarrow> bytes" where
  "wire_replies X is_resp rs = concat (map (response_bytes X is_resp) rs)"

text \<open>The replies to what fits in the read buffer fit in the write buffer.\<close>

definition wire_replies_fit :: "crates \<Rightarrow> bool \<Rightarrow> command list \<Rightarrow> (key \<Rightarrow> bytes option) \<Rightarrow> bool" where
  "wire_replies_fit X is_resp cs d \<longleftrightarrow>
     (\<forall>us ws vs. cs = us @ ws @ vs \<longrightarrow> length (stream (wire_frame X is_resp) ws) \<le> max_read_buf \<longrightarrow>
        length (wire_replies X is_resp (serve_map ws (fold apply_data us d))) \<le> max_write_buf)"

lemma session_serves_wire:
  assumes "zet_engine D X" and "list_all map_command cs" and "list_all (wire_fits is_resp) cs"
    and "holds_data D (store st) d" and "concat chunks = stream (wire_frame X is_resp) cs" and "[] \<notin> set chunks"
    and "read_buf st = []" and "write_buf st = []" and "chunks_fit (wire_frame X is_resp) cs chunks"
    and "wire_replies_fit X is_resp cs d"
  shows "\<exists>st'. handle_session X D V wt me (map (\<lambda>b. (ReadOk b, WriteOk)) chunks) st = Some (Ret (Next st')) \<and>
    holds_data D (store st') (fold apply_data cs d) \<and>
    sent st' = sent st @ wire_replies X is_resp (serve_map cs d) \<and> read_buf st' = [] \<and> write_buf st' = []"
proof (cases is_resp)
  case True
  with assms(2-10) show ?thesis
    unfolding wire_frame_def wire_fits_def wire_replies_def wire_replies_fit_def
    by simp (intro zet_engine.session_map_resp [OF assms(1)]; simp)
next
  case False
  with assms(2-10) show ?thesis
    unfolding wire_frame_def wire_fits_def wire_replies_def wire_replies_fit_def
    by simp (intro zet_engine.session_map_inline [OF assms(1)]; simp)
qed

text \<open>
  (C5) A session of GETs and SETs is a map. Whatever the protocol, the path, the chunks, the
  clock, the metrics and the log: on an engine without a key limit whose entries do not
  expire, the client is sent exactly the answers that a map with the engine's data gives to
  the commands in order, and the engine ends with the data of that map. So the fast path,
  which skips the expiry check, the limit and the response values, cannot be told from the
  full path.
\<close>

theorem session_serves_map:
  assumes "zet_engine D X" and "list_all map_command cs" and "list_all (wire_fits is_resp) cs"
    and "holds_data D (store st) d" and "concat chunks = stream (wire_frame X is_resp) cs" and "[] \<notin> set chunks"
    and "read_buf st = []" and "write_buf st = []" and "chunks_fit (wire_frame X is_resp) cs chunks"
    and "wire_replies_fit X is_resp cs d"
  shows "\<exists>st'. handle_session X D V wt me (map (\<lambda>b. (ReadOk b, WriteOk)) chunks) st = Some (Ret (Next st')) \<and>
    holds_data D (store st') (fold apply_data cs d) \<and>
    sent st' = sent st @ wire_replies X is_resp (serve_map cs d) \<and> read_buf st' = [] \<and> write_buf st' = []"
  using assms by (rule session_serves_wire)

definition demo_lines :: "command list" where
  "demo_lines = [CSet ''k'' ''1'' None, CGet ''k'', CGet ''x'']"

lemma demo_lines_plain: "list_all plain_line demo_lines" "list_all map_command demo_lines"
  by (simp_all add: demo_lines_def plain_line_def is_word_def is_whitespace_def)

lemma demo_lines_bytes: "stream inline_line demo_lines = ''SET k 1'' @ crlf @ ''GET k'' @ crlf @ ''GET x'' @ crlf"
  by (simp add: demo_lines_def inline_line_def crlf_def)

lemma demo_lines_fit: "chunks_fit inline_line demo_lines [take 3 (stream inline_line demo_lines), drop 3 (stream inline_line demo_lines)]"
  by (simp add: chunks_fit_def demo_lines_bytes) (simp add: demo_lines_def inline_line_def crlf_def max_read_buf_def)

theorem session_serves_map_witness:
  "\<exists>st'. handle_session reference_crates alist_dashmap demo_surroundings 0 False
     (map (\<lambda>b. (ReadOk b, WriteOk)) [take 3 (stream inline_line demo_lines), drop 3 (stream inline_line demo_lines)])
     demo_session = Some (Ret (Next st')) \<and>
   sent st' = ''+OK'' @ crlf @ ''+1'' @ crlf @ ''$-1'' @ crlf"
proof -
  let ?f = "stream inline_line demo_lines"
  have d: "holds_data alist_dashmap (store demo_session) Map.empty"
    using zet_engine.holds_data_new [OF reference_engine.zet_engine_axioms]
    by (simp add: demo_session_def demo_new)
  have r: "wire_replies reference_crates False (serve_map demo_lines Map.empty) = ''+OK'' @ crlf @ ''+1'' @ crlf @ ''$-1'' @ crlf"
    by (simp add: wire_replies_def demo_lines_def null_bulk_def)
  have "length (wire_replies reference_crates False (serve_map ws (fold apply_data us Map.empty))) \<le> max_write_buf"
    if "demo_lines = us @ ws @ vs" for us ws vs
  proof -
    have "wire_replies reference_crates False (serve_map demo_lines Map.empty) =
        wire_replies reference_crates False (serve_map us Map.empty) @
        wire_replies reference_crates False (serve_map ws (fold apply_data us Map.empty)) @
        wire_replies reference_crates False (serve_map vs (fold apply_data ws (fold apply_data us Map.empty)))"
      by (simp add: that serve_map_append wire_replies_def)
    from arg_cong [OF this, of length] r show ?thesis by (simp add: crlf_def max_write_buf_def)
  qed
  then have f: "wire_replies_fit reference_crates False demo_lines Map.empty"
    by (auto simp: wire_replies_fit_def)
  have w: "wire_frame reference_crates False = inline_line" "wire_fits False = plain_line"
    by (simp_all add: wire_frame_def wire_fits_def)
  have ne: "[] \<notin> set [take 3 ?f, drop 3 ?f]" by (simp add: demo_lines_bytes)
  from session_serves_map [OF reference_engine.zet_engine_axioms demo_lines_plain(2) _ d _ ne _ _ _ f,
      of demo_surroundings 0 False] demo_lines_plain(1) demo_lines_fit r show ?thesis
    by (fastforce simp: w demo_session_def)
qed

theorem inline_session_answers_in_order_witness:
  "handle_session reference_crates alist_dashmap demo_surroundings 0 True
     (map (\<lambda>b. (ReadOk b, WriteOk)) [''PI'', ''NG'' @ crlf]) demo_session =
   Some (Ret (Next (demo_session\<lparr>counters := record_command 0 TPing (connection_opened (metrics_init 0)),
     sent := ''+PONG'' @ crlf, served := 1\<rparr>)))"
proof -
  have p: "list_all plain_line [CPing]" "chunks_fit inline_line [CPing] [''PI'', ''NG'' @ crlf]"
    by (simp_all add: plain_line_def is_word_def is_whitespace_def chunks_fit_def inline_line_def crlf_def max_read_buf_def)
  have r: "line_replies reference_crates [CPing] [Pong] = ''+PONG'' @ crlf"
    by (simp add: line_replies_def terse_bytes_def)
  have "serve_lines reference_crates alist_dashmap demo_surroundings True (fast_path 0 True demo_session) [CPing]
      (opened True demo_session) =
    Ret (''+PONG'' @ crlf, demo_session\<lparr>counters := record_command 0 TPing (connection_opened (metrics_init 0)), served := 1\<rparr>)"
    using r by (simp add: serve_lines_def fast_path_def demo_session_def opened_def demo_surroundings_def)
  from inline_session_answers_in_order [OF reference_crates.crates_spec_axioms p(1) _ _ _ _ p(2) this]
  show ?thesis by (simp add: demo_session_def inline_line_def crlf_def max_write_buf_def)
qed

end
