(* ===== verification/Bench_Props.thy ===== *)
theory Bench_Props
  imports Bench Session_Inline "HOL-Library.Multiset"
begin

text \<open>
  What the load generators measure. The counting of operations is characterised exactly: it
  is right when the commands of a round divide the unit of the counter, and wrong otherwise.
  Against the model of the server, the clients stay in step with the replies: they read all
  of them and nothing else, and the keys they wrote are in the engine.
\<close>

section \<open>Counting\<close>

text \<open>What is reported after \<open>r\<close> rounds of \<open>n\<close> commands with the unit \<open>u\<close>.\<close>

definition counted :: "nat \<Rightarrow> nat \<Rightarrow> nat \<Rightarrow> nat" where
  "counted u n r = u * (r div (u div gcd u n)) + r * n mod u"

lemma multiples_sum: "(\<Sum>j\<in>{1..r}. if q dvd j then u else 0) = u * (r div q :: nat)"
proof (induction r)
  case (Suc r)
  then show ?case by (simp add: div_Suc dvd_eq_mod_eq_0)
qed simp

lemma gcd_parts:
  assumes "0 < (u :: nat)"
  obtains u' n' where "u = u' * gcd u n" and "n = n' * gcd u n" and "coprime u' n'" and "u div gcd u n = u'" and "0 < u'"
proof -
  obtain u' n' where *: "u = u' * gcd u n" "n = n' * gcd u n" "coprime u' n'"
    using gcd_coprime_exists [of u n] assms by auto
  have "u div gcd u n = u'" by (metis * assms gcd_pos_nat nonzero_mult_div_cancel_right not_gr_zero mult_is_0)
  with * that assms show ?thesis by (metis gr0I mult_is_0)
qed

lemma dvd_mult_gcd:
  assumes "0 < u"
  shows "u dvd j * n \<longleftrightarrow> u div gcd u n dvd (j :: nat)"
proof -
  obtain u' n' where *: "u = u' * gcd u n" "n = n' * gcd u n" "coprime u' n'" "u div gcd u n = u'"
    using assms by (rule gcd_parts)
  have "u dvd j * n \<longleftrightarrow> u' * gcd u n dvd (j * n') * gcd u n" by (metis *(1,2) mult.assoc)
  also have "\<dots> \<longleftrightarrow> u' dvd j * n'" using assms by (intro dvd_times_right_cancel_iff) simp
  also have "\<dots> \<longleftrightarrow> u' dvd j" using *(3) by (rule coprime_dvd_mult_left_iff)
  finally show ?thesis using *(4) by simp
qed

lemma counted_sum:
  "0 < u \<Longrightarrow> counted u n r = (\<Sum>j\<in>{1..r}. if u dvd j * n then u else 0) + r * n mod u"
  by (simp add: counted_def dvd_mult_gcd multiples_sum del: One_nat_def)

lemma counted_exact:
  assumes "n dvd u" and "0 < u"
  shows "counted u n r = r * n"
proof -
  obtain q where q: "u = n * q" "0 < n" "0 < q" using assms by (auto elim!: dvdE)
  then have "counted u n r = n * q * (r div q) + n * r mod (n * q)" by (simp add: counted_def mult.commute)
  also have "\<dots> = n * (q * (r div q) + r mod q)" by (simp only: mult_mod_right mult.assoc distrib_left)
  finally show ?thesis by simp
qed

lemma counted_le:
  assumes "0 < u" and "0 < n"
  shows "counted u n r \<le> r * n"
proof -
  obtain u' n' where *: "u = u' * gcd u n" "n = n' * gcd u n" "coprime u' n'" "u div gcd u n = u'" "0 < u'"
    using assms(1) by (rule gcd_parts)
  have un: "u' * n = u * n'" by (metis *(1,2) mult.assoc mult.commute)
  have "0 < n'" using *(2) assms(2) by (metis gr0I mult_is_0)
  have "r * n = (u' * (r div u') + r mod u') * n" by simp
  also have "\<dots> = u' * n * (r div u') + r mod u' * n" by (simp only: distrib_right distrib_left ac_simps)
  finally have r: "r * n = u * n' * (r div u') + r mod u' * n" by (simp add: un)
  have "r * n mod u = (r mod u' * n) mod u" by (simp add: r mult.assoc)
  then have "r * n mod u \<le> r mod u' * n" by simp
  moreover have "u * (r div u') \<le> u * n' * (r div u')" using \<open>0 < n'\<close> by simp
  ultimately have "u * (r div u') + r * n mod u \<le> u * n' * (r div u') + r mod u' * n" by (intro add_mono)
  then show ?thesis by (simp only: counted_def *(4) flip: r)
qed
text \<open>The counters after some rounds.\<close>

lemma u64_mod_eq_0: "(w :: u64) mod u = 0 \<longleftrightarrow> unat u dvd unat w"
  by (metis dvd_eq_mod_eq_0 unat_eq_0 unat_mod_distrib)

lemma unat_u64: "n < 2 ^ 64 \<Longrightarrow> unat (of_nat n :: u64) = n"
  by (subst unat_of_nat) simp

definition counted_sofar :: "nat \<Rightarrow> nat \<Rightarrow> nat \<Rightarrow> nat" where
  "counted_sofar u n r = (\<Sum>j\<in>{1..r}. if u dvd j * n then u else 0)"

lemma counted_sofar_Suc: "counted_sofar u n (Suc r) = counted_sofar u n r + (if u dvd Suc r * n then u else 0)"
  by (simp add: counted_sofar_def)

text \<open>A client that has counted \<open>j\<close> rounds.\<close>

definition has_counted :: "u64 \<Rightarrow> nat \<Rightarrow> nat \<Rightarrow> bench_client \<Rightarrow> bool" where
  "has_counted unit n j c \<longleftrightarrow>
     local_count c = of_nat (j * n) \<and> reported c = of_nat (counted_sofar (unat unit) n j)"

lemma has_counted_new: "has_counted unit n 0 (new_client arriving k)"
  by (simp add: has_counted_def new_client_def counted_sofar_def)

lemma has_counted_round:
  assumes "has_counted unit n j c" and "Suc j * n < 2 ^ 64"
  shows "has_counted unit n (Suc j) (count_round unit n c)"
proof -
  have count: "local_count c + of_nat n = of_nat (Suc j * n)" using assms(1) by (simp add: has_counted_def)
  have dvd: "of_nat (Suc j * n) mod unit = 0 \<longleftrightarrow> unat unit dvd Suc j * n"
    by (simp only: u64_mod_eq_0 unat_u64 [OF assms(2)])
  have "count_round unit n c = c\<lparr>local_count := of_nat (Suc j * n),
      reported := reported c + of_nat (if unat unit dvd Suc j * n then unat unit else 0)\<rparr>"
    unfolding count_round_def Let_def count dvd by simp
  with assms(1) show ?thesis by (simp add: has_counted_def counted_sofar_Suc)
qed

lemma has_counted_rest:
  assumes "has_counted unit n r c" and "r * n < 2 ^ 64" and "0 < unat unit"
  shows "reported (count_rest unit c) = of_nat (counted (unat unit) n r)"
proof -
  have "of_nat (r * n) mod unit = of_nat (r * n mod unat unit)"
    by (simp only: word_arith_nat_mod unat_u64 [OF assms(2)])
  with assms show ?thesis
    by (simp add: count_rest_def has_counted_def counted_sum counted_sofar_def del: One_nat_def of_nat_mult)
qed

lemma count_round_simps [simp]:
  "incoming (count_round unit n c) = incoming c" "outgoing (count_round unit n c) = outgoing c"
  "key_counter (count_round unit n c) = key_counter c"
  by (simp_all add: count_round_def Let_def)

lemma count_rest_simps [simp]:
  "incoming (count_rest unit c) = incoming c" "outgoing (count_rest unit c) = outgoing c"
  "key_counter (count_rest unit c) = key_counter c"
  by (simp_all add: count_rest_def)

section \<open>Reading replies\<close>

text \<open>A reply of one line.\<close>

definition reply_line :: "bytes \<Rightarrow> bool" where
  "reply_line b \<longleftrightarrow> valid_utf8 b \<and> (\<exists>l. b = l @ [CHR 0x0A] \<and> CHR 0x0A \<notin> set l)"

lemma read_line_reply:
  assumes "reply_line b"
  shows "read_line (b @ rest) = (Some b, rest)"
proof -
  obtain l where l: "b = l @ [CHR 0x0A]" "CHR 0x0A \<notin> set l" using assms by (auto simp: reply_line_def)
  have "takeWhile (\<lambda>b. b \<noteq> CHR 0x0A) (l @ CHR 0x0A # rest) = l"
    "dropWhile (\<lambda>b. b \<noteq> CHR 0x0A) (l @ CHR 0x0A # rest) = CHR 0x0A # rest"
    using l(2) by (subst takeWhile_append2 dropWhile_append2; auto)+
  with assms l(1) show ?thesis by (simp add: read_line_def reply_line_def)
qed

lemma smooth_simps [simp]: "write_fault smooth i = None" "flush_ok smooth" "read_ok smooth i"
  by (simp_all add: smooth_def)

lemma read_lines_replies:
  "list_all reply_line bs \<Longrightarrow> incoming c = concat bs @ rest \<Longrightarrow>
     read_lines smooth i (length bs) c = (True, c\<lparr>incoming := rest\<rparr>)"
  by (induction bs arbitrary: i c) (auto simp: read_line_reply)

text \<open>The requests of \<open>n\<close> commands from a key counter on.\<close>

definition requests :: "(u64 \<Rightarrow> 'a) \<Rightarrow> u64 \<Rightarrow> nat \<Rightarrow> 'a list" where
  "requests line k n = map (\<lambda>j. line (k + of_nat j)) [0..<n]"

lemma requests_0 [simp]: "requests line k 0 = []"
  by (simp add: requests_def)

lemma requests_Suc: "requests line k (Suc n) = line k # requests line (k + 1) n"
  by (simp add: requests_def upt_conv_Cons map_Suc_upt [symmetric] algebra_simps comp_def del: upt_Suc)

lemma requests_add: "requests line k (m + n) = requests line k m @ requests line (k + of_nat m) n"
  by (induction m arbitrary: k) (simp_all add: requests_Suc algebra_simps)

lemma length_requests [simp]: "length (requests line k n) = n"
  by (simp add: requests_def)

lemma send_lines_smooth:
  "send_lines line smooth i n c =
     (True, c\<lparr>key_counter := key_counter c + of_nat n, outgoing := outgoing c @ concat (requests line (key_counter c) n)\<rparr>)"
  by (induction n arbitrary: i c) (simp_all add: requests_Suc algebra_simps)

lemma line_round_smooth:
  assumes "list_all reply_line bs" and "length bs = n" and "incoming c = concat bs @ rest"
  shows "line_round line n unit smooth c =
    (True, count_round unit n (c\<lparr>key_counter := key_counter c + of_nat n,
       outgoing := outgoing c @ concat (requests line (key_counter c) n), incoming := rest\<rparr>))"
proof -
  let ?c = "c\<lparr>key_counter := key_counter c + of_nat n, outgoing := outgoing c @ concat (requests line (key_counter c) n)\<rparr>"
  have "read_lines smooth 0 n ?c = (True, ?c\<lparr>incoming := rest\<rparr>)"
    using read_lines_replies [OF assms(1), of ?c rest 0] assms(2,3) by simp
  then show ?thesis by (simp add: line_round_def send_lines_smooth)
qed

text \<open>A client that meets no fault and as many replies as it has sent commands.\<close>

lemma line_client_smooth:
  assumes "has_counted unit n j c" and "list_all reply_line bs" and "length bs = r * n" and "incoming c = concat bs"
    and "(j + r) * n < 2 ^ 64" and "0 < unat unit"
  shows "incoming (line_client line breaks n unit (replicate r smooth) c) = [] \<and>
    outgoing (line_client line breaks n unit (replicate r smooth) c) =
      outgoing c @ concat (requests line (key_counter c) (r * n)) \<and>
    reported (line_client line breaks n unit (replicate r smooth) c) = of_nat (counted (unat unit) n (j + r))"
  using assms(1-5)
proof (induction r arbitrary: j c bs)
  case 0
  then show ?case using has_counted_rest [OF 0(1) _ assms(6)] by simp
next
  case (Suc r)
  let ?c = "c\<lparr>key_counter := key_counter c + of_nat n,
      outgoing := outgoing c @ concat (requests line (key_counter c) n), incoming := concat (drop n bs)\<rparr>"
  have bs: "list_all reply_line (take n bs)" "list_all reply_line (drop n bs)" "length (take n bs) = n"
    "length (drop n bs) = r * n"
    using Suc.prems(2,3) by (auto simp: list_all_iff dest: in_set_takeD in_set_dropD)
  have "concat bs = concat (take n bs) @ concat (drop n bs)" by (simp flip: concat_append)
  then have round: "line_round line n unit smooth c = (True, count_round unit n ?c)"
    using line_round_smooth [OF bs(1,3)] Suc.prems(4) by simp
  have "Suc j * n \<le> (j + Suc r) * n" by (intro mult_le_mono1) simp
  then have "Suc j * n < 2 ^ 64" using Suc.prems(5) by (rule le_less_trans)
  then have "has_counted unit n (Suc j) (count_round unit n ?c)"
    using Suc.prems(1) by (intro has_counted_round) (simp_all add: has_counted_def)
  note IH = Suc.IH [OF this bs(2,4)]
  have "n + r * n = Suc r * n" by simp
  with IH Suc.prems(5) round show ?case by (simp add: requests_add algebra_simps)
qed

section \<open>Replies of the server to lines\<close>

text \<open>Values that fit in a line of reply which is no longer than the request.\<close>

definition line_value :: "key \<Rightarrow> bytes \<Rightarrow> bool" where
  "line_value k v \<longleftrightarrow> CHR 0x0A \<notin> set v \<and> valid_utf8 v \<and> length v \<le> length k + 3"

definition line_data :: "(key \<Rightarrow> bytes option) \<Rightarrow> bool" where
  "line_data d \<longleftrightarrow> (\<forall>k v. d k = Some v \<longrightarrow> line_value k v)"

fun line_command :: "command \<Rightarrow> bool" where
  "line_command (CSet k v ttl) = (ttl = None \<and> line_value k v)"
| "line_command (CGet k) = True"
| "line_command _ = False"

lemma line_command_map: "line_command c \<Longrightarrow> map_command c"
  by (cases c) auto

lemma line_data_apply: "line_data d \<Longrightarrow> line_command c \<Longrightarrow> line_data (apply_data c d)"
  by (cases c) (auto simp: line_data_def)

lemma line_data_fold: "line_data d \<Longrightarrow> list_all line_command cs \<Longrightarrow> line_data (fold apply_data cs d)"
  by (induction cs arbitrary: d) (auto simp: line_data_apply)

lemma reply_line_response:
  assumes "line_command c" and "line_data d"
  shows "reply_line (response_bytes X False (map_answer c d)) \<and>
    length (response_bytes X False (map_answer c d)) \<le> length (inline_line c)"
proof (cases c)
  case (CGet k)
  show ?thesis
  proof (cases "d k")
    case None
    have "valid_utf8 null_bulk" by code_simp
    with CGet None show ?thesis by (auto simp: reply_line_def null_bulk_def inline_line_def crlf_def)
  next
    case (Some v)
    with assms(2) have v: "CHR 0x0A \<notin> set v" "valid_utf8 v" "length v \<le> length k + 3"
      by (auto simp: line_data_def line_value_def)
    have "valid_utf8 ''+''" "valid_utf8 crlf" by code_simp+
    then have "valid_utf8 (''+'' @ v @ crlf)" using v(2) by (intro valid_utf8_append)
    with CGet Some v show ?thesis
      by (auto simp: reply_line_def inline_line_def crlf_def intro!: exI [of _ "CHR ''+'' # v @ [CHR 0x0D]"])
  qed
next
  case (CSet k v ttl)
  have "valid_utf8 (''+OK'' @ crlf)" by code_simp
  with CSet assms(1) show ?thesis by (auto simp: reply_line_def inline_line_def crlf_def)
qed (use assms(1) in auto)

lemma serve_map_reply_lines:
  "list_all line_command cs \<Longrightarrow> line_data d \<Longrightarrow>
     list_all reply_line (map (response_bytes X False) (serve_map cs d)) \<and>
     length (wire_replies X False (serve_map cs d)) \<le> length (stream inline_line cs)"
proof (induction cs arbitrary: d)
  case (Cons c cs)
  with reply_line_response [of c d X] line_data_apply [of d c] Cons.IH [of "apply_data c d"] show ?case
    by (auto simp: wire_replies_def intro!: add_mono)
qed (simp add: wire_replies_def)

lemma length_serve_map [simp]: "length (serve_map cs d) = length cs"
  by (induction cs arbitrary: d) auto

lemma line_replies_fit:
  assumes "list_all line_command cs" and "line_data d"
  shows "wire_replies_fit X False cs d"
  unfolding wire_replies_fit_def
proof (intro allI impI)
  fix us ws vs
  assume cs: "cs = us @ ws @ vs" and len: "length (stream (wire_frame X False) ws) \<le> max_read_buf"
  have "line_data (fold apply_data us d)" using assms cs by (intro line_data_fold) auto
  with serve_map_reply_lines [of ws "fold apply_data us d" X] assms(1) cs len
  show "length (wire_replies X False (serve_map ws (fold apply_data us d))) \<le> max_write_buf"
    by (simp add: wire_frame_def max_read_buf_def max_write_buf_def)
qed

section \<open>Clients and server in step\<close>

text \<open>A workload of lines: the line that is written for a key counter is that of a GET or a SET.\<close>

locale line_workload =
  fixes line :: "u64 \<Rightarrow> bytes"
    and cmd :: "u64 \<Rightarrow> command"
  assumes line_cmd: "line k = inline_line (cmd k)"
    and cmd_line: "line_command (cmd k)"
    and cmd_plain: "plain_line (cmd k)"
begin

lemma requests_stream: "concat (requests line k n) = stream inline_line (requests cmd k n)"
  by (induction n arbitrary: k) (simp_all add: requests_Suc line_cmd)

lemma requests_commands: "list_all line_command (requests cmd k n)" "list_all plain_line (requests cmd k n)"
  "list_all map_command (requests cmd k n)"
  using cmd_line cmd_plain line_command_map by (auto simp: requests_def list_all_iff)

lemma in_step:
  assumes "zet_engine D X" and "holds_data D (store st) d" and "line_data d"
    and "read_buf st = []" and "write_buf st = []" and "sent st = []"
    and "concat chunks = concat (requests line k (r * n))" and "[] \<notin> set chunks"
    and "chunks_fit inline_line (requests cmd k (r * n)) chunks"
    and "r * n < 2 ^ 64" and "0 < unat unit"
  shows "\<exists>st'. handle_session X D V wt me (map (\<lambda>b. (ReadOk b, WriteOk)) chunks) st = Some (Ret (Next st')) \<and>
    holds_data D (store st') (fold apply_data (requests cmd k (r * n)) d) \<and>
    outgoing (line_client line breaks n unit (replicate r smooth) (new_client (sent st') k)) = concat chunks \<and>
    incoming (line_client line breaks n unit (replicate r smooth) (new_client (sent st') k)) = [] \<and>
    reported (line_client line breaks n unit (replicate r smooth) (new_client (sent st') k)) =
      of_nat (counted (unat unit) n r)"
proof -
  let ?cs = "requests cmd k (r * n)"
  let ?bs = "map (response_bytes X False) (serve_map ?cs d)"
  have wire: "wire_frame X False = inline_line" "wire_fits False = plain_line"
    by (simp_all add: wire_frame_def wire_fits_def)
  obtain st' where st': "handle_session X D V wt me (map (\<lambda>b. (ReadOk b, WriteOk)) chunks) st = Some (Ret (Next st'))"
      "holds_data D (store st') (fold apply_data ?cs d)" "sent st' = wire_replies X False (serve_map ?cs d)"
    using session_serves_wire [where is_resp = False and cs = ?cs and d = d and st = st and chunks = chunks and V = V
        and wt = wt and me = me, OF assms(1)] line_replies_fit [OF requests_commands(1) assms(3), where X = X]
      requests_commands [of k "r * n"] assms by (auto simp: wire requests_stream)
  have "list_all reply_line ?bs" "length ?bs = r * n" "sent st' = concat ?bs"
    using serve_map_reply_lines [OF requests_commands(1) assms(3)] st'(3) by (auto simp: wire_replies_def)
  then have "incoming (line_client line breaks n unit (replicate r smooth) (new_client (sent st') k)) = [] \<and>
      outgoing (line_client line breaks n unit (replicate r smooth) (new_client (sent st') k)) = concat (requests line k (r * n)) \<and>
      reported (line_client line breaks n unit (replicate r smooth) (new_client (sent st') k)) = of_nat (counted (unat unit) n r)"
    using line_client_smooth [where unit = unit and n = n and j = 0 and c = "new_client (sent st') k" and bs = ?bs and r = r
        and line = line and breaks = breaks, OF has_counted_new] assms(10,11) by (simp add: new_client_def)
  with st' assms(7) show ?thesis by (intro exI [of _ st']) simp
qed

end

lemma show_u64_text:
  assumes "b \<in> set (show_u64 k)"
  shows "\<not> is_whitespace b" "b \<noteq> CHR 0x0A" "(of_char b :: nat) < 128"
  using assms show_nat_digits [of "unat k"] show_nat_ascii [of b "unat k"]
  by (auto simp: show_u64_def is_whitespace_def is_ascii_digit_def)

lemma show_u64_word: "list_all (\<lambda>b. \<not> is_whitespace b) (show_u64 k)" "CHR 0x0A \<notin> set (show_u64 k)"
  "valid_utf8 (show_u64 k)"
  using show_u64_text [of _ k] by (auto simp: list_all_iff intro: valid_utf8_ascii)

fun pipeline_command :: "bench_op \<Rightarrow> u64 \<Rightarrow> command" where
  "pipeline_command SetOp k = CSet (''pipe:'' @ show_u64 k) (''val:'' @ show_u64 k) None"
| "pipeline_command GetOp k = CGet (''pipe:'' @ show_u64 (k mod 1000))"

fun saturation_command :: "bench_op \<Rightarrow> u64 \<Rightarrow> command" where
  "saturation_command SetOp k = CSet (''sat:'' @ show_u64 k) (''val:'' @ show_u64 k) None"
| "saturation_command GetOp k = CGet (''sat:'' @ show_u64 (k mod 1000))"

text \<open>Keys and values made of a prefix and a number.\<close>

definition tag :: "bytes \<Rightarrow> bool" where
  "tag p \<longleftrightarrow> p \<noteq> [] \<and> list_all (\<lambda>b. \<not> is_whitespace b \<and> (of_char b :: nat) < 128) p"

lemma tagged_word: "tag p \<Longrightarrow> is_word (p @ show_u64 k)"
  using show_u64_word(1) [of k] by (auto simp: tag_def is_word_def list_all_iff)

lemma tagged_value:
  assumes "tag p" and "length p \<le> length q + 3"
  shows "line_value (q @ show_u64 k) (p @ show_u64 k)"
proof -
  have "valid_utf8 p" "CHR 0x0A \<notin> set p"
    using assms(1) by (auto simp: tag_def list_all_iff is_whitespace_def intro!: valid_utf8_ascii)
  with assms(2) show_u64_word [of k] show ?thesis
    by (auto simp: line_value_def simp del: valid_utf8.simps intro: valid_utf8_append)
qed

lemma tagged_get: "tag p \<Longrightarrow> plain_line (CGet (p @ show_u64 k))"
  using tagged_word [of p k] by (simp add: plain_line_def) (simp add: is_word_def is_whitespace_def)

lemma tagged_set: "tag p \<Longrightarrow> tag q \<Longrightarrow> plain_line (CSet (p @ show_u64 k) (q @ show_u64 j) None)"
  using tagged_word [of p k] tagged_word [of q j]
  by (simp add: plain_line_def) (simp add: is_word_def is_whitespace_def)

lemma bench_tags:
  "tag ''pipe:''" "tag ''val:''" "tag ''sat:''" "tag ''pw:''" "tag ''v:''" "tag ''pp:''" "tag ''w:''" "tag ''p:''" "tag ''k:''"
  by (simp_all add: tag_def is_whitespace_def)

lemmas tagged_rules = tagged_get tagged_set tagged_value bench_tags

lemma get_line: "inline_line (CGet k) = ''GET '' @ k @ crlf"
  by (simp add: inline_line_def)

lemma set_line: "inline_line (CSet k v None) = ''SET '' @ k @ '' '' @ v @ crlf"
  by (simp add: inline_line_def)

interpretation pipeline_load: line_workload "pipeline_line op" "pipeline_command op" for op
  by unfold_locales (cases op; simp only: pipeline_line.simps pipeline_command.simps get_line set_line line_command.simps;
      simp add: tagged_rules del: append_Cons)+

interpretation saturation_load: line_workload "saturation_line op" "saturation_command op" for op
  by unfold_locales (cases op; simp only: saturation_line.simps saturation_command.simps get_line set_line line_command.simps;
      simp add: tagged_rules del: append_Cons)+

interpretation mixed_write_load: line_workload mixed_write_line
    "\<lambda>k. CSet (''pw:'' @ show_u64 k) (''v:'' @ show_u64 k) None"
  by unfold_locales ((simp only: mixed_write_line_def set_line line_command.simps)?; simp add: tagged_rules del: append_Cons)+

interpretation mixed_read_load: line_workload "mixed_read_line n_keys" "\<lambda>k. CGet (''pp:'' @ show_u64 (k mod n_keys))"
  for n_keys
  by unfold_locales ((simp only: mixed_read_line_def get_line line_command.simps)?; simp add: tagged_rules del: append_Cons)+

interpretation throughput_write_load: line_workload throughput_write_line
    "\<lambda>k. CSet (''w:'' @ show_u64 k) (''v:'' @ show_u64 k) None"
  by unfold_locales ((simp only: throughput_write_line_def set_line line_command.simps)?; simp add: tagged_rules del: append_Cons)+

interpretation throughput_read_load: line_workload "throughput_read_line n_keys" "\<lambda>k. CGet (''p:'' @ show_u64 (k mod n_keys))"
  for n_keys
  by unfold_locales ((simp only: throughput_read_line_def get_line line_command.simps)?; simp add: tagged_rules del: append_Cons)+

lemma pipeline_sizes: "OneOp op n clients \<in> set pipeline_tests \<Longrightarrow> n dvd 10000"
  by (auto simp: pipeline_tests_def)

text \<open>
  (C30) The pipelined clients of \<open>pipeline.rs\<close> and the server stay in step, and the count is
  right. A client that runs any number of rounds of a test of the program, against a session
  with the configuration of the program that meets no I/O fault, receives exactly one line
  for every command it wrote, has read them all when it stops, and reports the exact number
  of its commands; the engine then holds what a map would after the same commands.
\<close>

theorem pipeline_client_in_step:
  assumes "zet_engine D X" and "OneOp op n clients \<in> set pipeline_tests" and "r * n < 2 ^ 64"
    and "holds_data D (store st) d" and "line_data d"
    and "read_buf st = []" and "write_buf st = []" and "sent st = []"
    and "concat chunks = concat (requests (pipeline_line op) k (r * n))" and "[] \<notin> set chunks"
    and "chunks_fit inline_line (requests (pipeline_command op) k (r * n)) chunks"
  shows "\<exists>st'.
    serve_connection X D V (run_server_with_shutdown (pipeline_config p))
      (map (\<lambda>b. (ReadOk b, WriteOk)) chunks) st = Some (Ret (Next st')) \<and>
    holds_data D (store st') (fold apply_data (requests (pipeline_command op) k (r * n)) d) \<and>
    outgoing (pipeline_client op n (replicate r smooth) (new_client (sent st') k)) = concat chunks \<and>
    incoming (pipeline_client op n (replicate r smooth) (new_client (sent st') k)) = [] \<and>
    reported (pipeline_client op n (replicate r smooth) (new_client (sent st') k)) = of_nat (r * n)"
  using pipeline_load.in_step [OF assms(1,4-11,3), of 10000] counted_exact [OF pipeline_sizes [OF assms(2)]]
  by (simp add: pipeline_client_def serve_connection_def run_server_with_shutdown_def)

definition demo_pipeline_requests :: bytes where
  "demo_pipeline_requests = concat (requests (pipeline_line SetOp) 7 1)"

theorem pipeline_client_in_step_witness:
  "\<exists>st'.
    serve_connection reference_crates alist_dashmap demo_surroundings (run_server_with_shutdown (pipeline_config 7000))
      [(ReadOk demo_pipeline_requests, WriteOk)] demo_session = Some (Ret (Next st')) \<and>
    reported (pipeline_client SetOp 1 (replicate 1 smooth) (new_client (sent st') 7)) = 1"
proof -
  have d: "holds_data alist_dashmap (store demo_session) Map.empty" "line_data Map.empty"
    using zet_engine.holds_data_new [OF reference_engine.zet_engine_axioms]
    by (simp_all add: demo_session_def demo_new line_data_def)
  have b: "demo_pipeline_requests = ''SET pipe:7 val:7'' @ crlf"
    by code_simp
  have f: "chunks_fit inline_line (requests (pipeline_command SetOp) 7 (1 * 1)) [demo_pipeline_requests]"
    by (simp add: b chunks_fit_def requests_def set_line crlf_def show_u64_def show_nat.simps max_read_buf_def
        del: join_words.simps)
  have t: "OneOp SetOp 1 1 \<in> set pipeline_tests" "1 * 1 < (2 ^ 64 :: nat)" by (simp_all add: pipeline_tests_def)
  have s: "read_buf demo_session = []" "write_buf demo_session = []" "sent demo_session = []"
    by (simp_all add: demo_session_def)
  have c: "concat [demo_pipeline_requests] = concat (requests (pipeline_line SetOp) 7 (1 * 1))"
      "[] \<notin> set [demo_pipeline_requests]"
    using b by (simp_all add: demo_pipeline_requests_def)
  from pipeline_client_in_step [OF reference_engine.zet_engine_axioms t d s c f, of demo_surroundings 7000]
  obtain st' where "serve_connection reference_crates alist_dashmap demo_surroundings
      (run_server_with_shutdown (pipeline_config 7000)) [(ReadOk demo_pipeline_requests, WriteOk)] demo_session =
        Some (Ret (Next st'))"
      "reported (pipeline_client SetOp 1 (replicate 1 smooth) (new_client (sent st') 7)) = of_nat (1 * 1)"
    by (auto simp only: list.map)
  then show ?thesis by auto
qed

section \<open>The quick pipeline\<close>

lemma newlines_simps [simp]:
  "newlines [] = 0" "newlines (b # bs) = (if b = CHR 0x0A then 1 else 0) + newlines bs"
  "newlines (bs @ bs') = newlines bs + newlines bs'"
  by (simp_all add: newlines_def)

text \<open>The chunks in which the replies of a round arrive: the last one has the last newline.\<close>

definition arrives_in :: "nat \<Rightarrow> bytes list \<Rightarrow> bool" where
  "arrives_in m g \<longleftrightarrow>
     g \<noteq> [] \<and> [] \<notin> set g \<and> newlines (concat (butlast g)) < m \<and> newlines (concat g) = m"

lemma count_responses_arrive:
  assumes "g \<noteq> []" and "[] \<notin> set g" and "k + newlines (concat (butlast g)) < m" and "k + newlines (concat g) = m"
  shows "count_responses m k 0 (map Some g @ rest) = Some (0, rest)"
  using assms
proof (induction g arbitrary: k)
  case (Cons b g)
  show ?case
  proof (cases "g = []")
    case True
    with Cons.prems show ?thesis
      by (subst count_responses.simps) (simp, subst count_responses.simps, simp)
  next
    case False
    with Cons.IH [of "k + newlines b"] Cons.prems show ?thesis
      by (subst count_responses.simps) auto
  qed
qed simp

text \<open>The batches are the lines of \<open>pipeline.rs\<close>, and each line has one newline.\<close>

context crates_spec
begin

lemma build_batch_requests: "build_batch X op n k = (concat (requests (pipeline_line op) k n), k + of_nat n)"
  by (induction n arbitrary: k)
    (simp_all add: requests_Suc itoa_decimal show_int_def show_u64_def Let_def algebra_simps split: bench_op.split)

lemma build_batches_requests:
  "build_batches X op m n k = (concat (requests (pipeline_line op) k (m * n)), k + of_nat (m * n))"
  by (induction m arbitrary: k) (simp_all add: build_batch_requests requests_add algebra_simps)

end

lemma newlines_digits: "newlines (show_u64 k) = 0"
  using show_u64_word(2) [of k] by (auto simp: newlines_def filter_empty_conv)

lemma newlines_requests: "newlines (concat (requests (pipeline_line op) k n)) = n"
proof (induction n arbitrary: k)
  case (Suc n)
  then show ?case by (cases op) (simp_all add: requests_Suc newlines_digits crlf_def)
qed simp

lemma quick_rounds_smooth:
  assumes "crates_spec X" and "has_counted 10000 (n * m) j (base c)" and "\<forall>g \<in> set gs. arrives_in (n * m) g"
    and "(j + length gs) * (n * m) < 2 ^ 64" and "reads c = map Some (concat gs)" and "read_pos c = 0"
  shows "reported (base (quick_rounds X op m n (replicate (length gs) smooth) c)) =
      of_nat (counted 10000 (n * m) (j + length gs)) \<and>
    outgoing (base (quick_rounds X op m n (replicate (length gs) smooth) c)) =
      outgoing (base c) @ concat (requests (pipeline_line op) (key_counter (base c)) (length gs * (m * n)))"
  using assms(2-6)
proof (induction gs arbitrary: j c)
  case Nil
  then show ?case using has_counted_rest [of 10000 "n * m" j "base c"] by simp
next
  case (Cons g gs)
  let ?k = "key_counter (base c)"
  let ?b = "(base c)\<lparr>key_counter := ?k + of_nat (m * n),
      outgoing := outgoing (base c) @ concat (requests (pipeline_line op) ?k (m * n))\<rparr>"
  let ?c = "c\<lparr>reads := map Some (concat gs), read_pos := 0, base := count_round 10000 (n * m) ?b\<rparr>"
  have "count_responses (n * m) 0 0 (map Some g @ map Some (concat gs)) = Some (0, map Some (concat gs))"
    using Cons.prems(2) by (intro count_responses_arrive) (simp_all add: arrives_in_def)
  then have round: "quick_round X op m n smooth c = (True, ?c)"
    using Cons.prems(4,5) crates_spec.build_batches_requests [OF assms(1), of op m n ?k]
    by (simp add: quick_round_def Let_def)
  have "Suc j * (n * m) \<le> (j + length (g # gs)) * (n * m)" by (intro mult_le_mono1) simp
  then have "Suc j * (n * m) < 2 ^ 64" using Cons.prems(3) by (rule le_less_trans)
  then have "has_counted 10000 (n * m) (Suc j) (base ?c)"
    using Cons.prems(1) has_counted_round [of 10000 "n * m" j ?b] by (simp add: has_counted_def)
  note IH = Cons.IH [OF this]
  have "length (g # gs) * (m * n) = m * n + length gs * (m * n)" by simp
  with IH Cons.prems(2,3) round show ?case by (simp add: requests_add)
qed

text \<open>
  The quick pipeline reports half of its operations. Its clients send four batches per
  round, so with batches of 200 a round is 800 commands and the count meets a multiple of
  10000 only every 25 rounds, after 20000 commands, when 10000 are reported. After \<open>25 * q\<close>
  rounds, whatever the chunks in which the replies of each round arrive, the client has
  written \<open>20000 * q\<close> commands and reports \<open>10000 * q\<close>.
\<close>

theorem quick_client_undercounts:
  assumes "crates_spec X" and "\<forall>g \<in> set gs. arrives_in 800 g" and "length gs = 25 * q" and "20000 * q < 2 ^ 64"
    and "c = quick_rounds X op 4 200 (replicate (25 * q) smooth)
           \<lparr>reads = map Some (concat gs), read_pos = 0, base = new_client [] k\<rparr>"
  shows "OneOp op 200 16 \<in> set quick_tests \<and> newlines (outgoing (base c)) = 20000 * q \<and>
    reported (base c) = of_nat (10000 * q)"
proof -
  have "gcd 10000 800 = (400 :: nat)" by code_simp
  then have "counted 10000 800 (25 * q) = 10000 * q" by (simp add: counted_def)
  moreover have "OneOp op 200 16 \<in> set quick_tests" by (cases op) (simp_all add: quick_tests_def)
  ultimately show ?thesis
    using quick_rounds_smooth [OF assms(1), of 200 4 0 "\<lparr>reads = map Some (concat gs), read_pos = 0, base = new_client [] k\<rparr>" gs op]
      has_counted_new [of 10000 800 "[]" k] assms(2-5)
    by (simp add: newlines_requests new_client_def)
qed

definition demo_quick_chunk :: bytes where
  "demo_quick_chunk = concat (replicate 800 (''+OK'' @ crlf))"

theorem quick_client_undercounts_witness:
  "reported (base (quick_rounds reference_crates SetOp 4 200 (replicate 25 smooth)
     \<lparr>reads = map Some (replicate 25 demo_quick_chunk), read_pos = 0, base = new_client [] 0\<rparr>)) = 10000"
proof -
  have n: "newlines (concat (replicate n (''+OK'' @ crlf))) = n" for n
    by (induction n) (simp_all add: crlf_def)
  have "demo_quick_chunk \<noteq> []" using n [of 800] by (auto simp: demo_quick_chunk_def)
  then have g: "arrives_in 800 [demo_quick_chunk]"
    using n [of 800] by (simp add: arrives_in_def demo_quick_chunk_def)
  have c: "concat (replicate 25 [demo_quick_chunk]) = replicate 25 demo_quick_chunk"
    by (simp add: numeral_eq_Suc)
  from quick_client_undercounts [OF reference_crates.crates_spec_axioms, of "replicate 25 [demo_quick_chunk]" 1, OF _ _ _ refl,
      of SetOp 0] g c show ?thesis by simp
qed

section \<open>RESP clients\<close>

lemma resp_set_frame: "crates_spec X \<Longrightarrow> resp_set k v = resp_frame X (CSet k v None)"
  by (simp add: resp_set_def bench_resp_frame_def resp_frame_def write_array_def write_bulk_def
      crates_spec.itoa_decimal show_int_def numeral_3_eq_3)

lemma resp_get_frame: "crates_spec X \<Longrightarrow> resp_get k = resp_frame X (CGet k)"
  by (simp add: resp_get_def bench_resp_frame_def resp_frame_def write_array_def write_bulk_def
      crates_spec.itoa_decimal show_int_def numeral_2_eq_2 numeral_3_eq_3)

lemma show_nat_no_line_end: "b \<in> set (show_nat n) \<Longrightarrow> b \<noteq> CHR 0x0A \<and> b \<noteq> CHR 0x0D"
  using show_nat_digits [of n] by (auto simp: is_ascii_digit_def)

lemma trim_line_end_digits: "trim_line_end (show_nat n @ crlf) = show_nat n"
  using show_nat_no_line_end [of _ n] by (cases "show_nat n" rule: rev_cases) (auto simp: trim_line_end_def crlf_def)

text \<open>The replies that a client of GETs and SETs gets.\<close>

fun map_reply :: "response \<Rightarrow> bool" where
  "map_reply Ok = True"
| "map_reply (Value None) = True"
| "map_reply (Value (Some v)) = (length v < 2 ^ 63 - 2)"
| "map_reply _ = False"

lemma read_resp_response_reply:
  assumes "crates_spec X" and "map_reply r"
  shows "read_resp_response (response_bytes X True r @ rest) = Ret (Inr rest)"
proof (cases r rule: map_reply.cases)
  case 1
  have "reply_line (''+OK'' @ crlf)"
    unfolding reply_line_def by (rule conjI, code_simp, auto simp: crlf_def)
  from read_line_reply [OF this, of rest] 1 show ?thesis by (simp add: read_resp_response_def)
next
  case 2
  have "reply_line null_bulk"
    unfolding reply_line_def by (rule conjI, code_simp, auto simp: null_bulk_def crlf_def)
  moreover have "parse_i64 (trim_line_end (''-1'' @ crlf)) = Some (- 1)" by code_simp
  ultimately show ?thesis
    using 2 read_line_reply [of null_bulk rest] by (simp add: read_resp_response_def null_bulk_def)
next
  case (3 v)
  let ?l = "''$'' @ show_nat (length v) @ crlf"
  have "valid_utf8 ''$''" "valid_utf8 crlf" by code_simp+
  then have "valid_utf8 ?l" by (intro valid_utf8_append valid_utf8_show_nat)
  then have "reply_line ?l"
    using show_nat_no_line_end [of _ "length v"]
    by (auto simp: reply_line_def crlf_def intro!: exI [of _ "CHR ''$'' # show_nat (length v) @ [CHR 0x0D]"])
  moreover have len: "int (length v) + 2 < 2 ^ 63" using assms(2) 3 by simp
  then have "parse_i64 (show_nat (length v)) = Some (int (length v))"
    using parse_i64_show_int [of "int (length v)"] by (simp add: in_i64_def show_int_def)
  ultimately show ?thesis
    using 3 assms(1) len read_line_reply [of ?l "v @ crlf @ rest"] trim_line_end_digits [of "length v"]
    by (simp add: read_resp_response_def write_bulk_def crates_spec.itoa_decimal show_int_def) (simp add: crlf_def)
qed (use assms(2) in simp_all)

lemma read_replies_all:
  "crates_spec X \<Longrightarrow> list_all map_reply rs \<Longrightarrow>
     read_replies smooth i (length rs) (wire_replies X True rs @ rest) = Ret rest"
  by (induction rs arbitrary: i) (simp_all add: wire_replies_def read_resp_response_reply)

fun redis_command :: "bench_op \<Rightarrow> u64 \<Rightarrow> command" where
  "redis_command SetOp k = CSet (''k:'' @ show_u64 k) (''k:'' @ show_u64 k) None"
| "redis_command GetOp k = CGet (''k:'' @ show_u64 k)"

text \<open>A key fits in the buffer, so neither the cut nor the modulus of its length changes it.\<close>

lemma length_show_u64: "length (show_u64 k) \<le> 20"
proof -
  have "unat k < 2 ^ LENGTH(64)" by (rule unsigned_less)
  then have "unat k < 10 ^ 20" by simp
  then show ?thesis using length_show_nat [of "unat k" 20] by (simp add: show_u64_def)
qed

lemma write_key_whole:
  assumes "length buf = 32"
  obtains n buf' where "write_key buf k = (n, buf')" and "length buf' = 32" and "take n buf' = ''k:'' @ show_u64 k"
    and "take (n mod 1000) buf' = ''k:'' @ show_u64 k"
proof -
  let ?bs = "''k:'' @ show_u64 k"
  have "min (length ?bs) (length buf) = length ?bs" using assms length_show_u64 [of k] by simp
  then have "write_key buf k = (length ?bs, ?bs @ drop (length ?bs) buf)" by (simp add: write_key_def)
  moreover have "length ?bs mod 1000 = length ?bs" using length_show_u64 [of k] by simp
  ultimately show ?thesis using that assms length_show_u64 [of k] by simp
qed

definition redis_ready :: "redis_client \<Rightarrow> bool" where
  "redis_ready c \<longleftrightarrow> length (key_buf c) = 32 \<and> length (val_buf c) = 32"

lemma redis_batch_requests:
  assumes "crates_spec X" and "redis_ready c"
  shows "\<exists>kb vb. redis_batch op n c =
    (stream (resp_frame X) (requests (redis_command op) (key_counter (redis_base c)) n),
     \<lparr>key_buf = kb, val_buf = vb,
      redis_base = (redis_base c)\<lparr>key_counter := key_counter (redis_base c) + of_nat n\<rparr>\<rparr>) \<and>
    length kb = 32 \<and> length vb = 32"
  using assms(2)
proof (induction n arbitrary: c)
  case 0
  then show ?case by (cases c) (simp add: redis_ready_def)
next
  case (Suc n)
  let ?k = "key_counter (redis_base c)"
  obtain m kb where kb: "write_key (key_buf c) ?k = (m, kb)" "length kb = 32" "take m kb = ''k:'' @ show_u64 ?k"
      "take (m mod 1000) kb = ''k:'' @ show_u64 ?k"
    using Suc.prems unfolding redis_ready_def by (elim conjE) (rule write_key_whole)
  obtain j vb where vb: "write_key (val_buf c) ?k = (j, vb)" "length vb = 32" "take j vb = ''k:'' @ show_u64 ?k"
    using Suc.prems unfolding redis_ready_def by (elim conjE) (rule write_key_whole)
  let ?c = "\<lparr>key_buf = kb, val_buf = (case op of SetOp \<Rightarrow> vb | GetOp \<Rightarrow> val_buf c),
      redis_base = (redis_base c)\<lparr>key_counter := ?k + 1\<rparr>\<rparr>"
  have "redis_batch op (Suc n) c = apfst ((@) (resp_frame X (redis_command op ?k))) (redis_batch op n ?c)"
    using kb vb by (cases op; cases c)
      (simp_all add: resp_set_frame [OF assms(1)] resp_get_frame [OF assms(1)] del: append_Cons)
  moreover have "redis_ready ?c" using kb vb Suc.prems by (simp add: redis_ready_def split: bench_op.split)
  ultimately show ?case using Suc.IH [of ?c] by (auto simp: requests_Suc algebra_simps)
qed

lemma redis_round_smooth:
  assumes "crates_spec X" and "redis_ready c" and "list_all map_reply rs" and "length rs = n"
    and "incoming (redis_base c) = wire_replies X True rs @ rest"
  shows "\<exists>kb vb. redis_round op n smooth c =
    Ret \<lparr>key_buf = kb, val_buf = vb, redis_base = count_round 10000 n
      ((redis_base c)\<lparr>key_counter := key_counter (redis_base c) + of_nat n,
        outgoing := outgoing (redis_base c) @ stream (resp_frame X) (requests (redis_command op) (key_counter (redis_base c)) n),
        incoming := rest\<rparr>)\<rparr> \<and>
    length kb = 32 \<and> length vb = 32"
  using redis_batch_requests [OF assms(1,2), of op n] read_replies_all [OF assms(1,3), of 0 rest] assms(4,5)
  by (auto simp: redis_round_def Let_def)

lemma redis_rounds_smooth:
  assumes "crates_spec X" and "redis_ready c" and "has_counted 10000 n j (redis_base c)" and "list_all map_reply rs"
    and "length rs = r * n" and "incoming (redis_base c) = wire_replies X True rs" and "(j + r) * n < 2 ^ 64"
  shows "\<exists>c'. redis_rounds op n (replicate r smooth) c = Ret c' \<and> incoming (redis_base c') = [] \<and>
    outgoing (redis_base c') =
      outgoing (redis_base c) @ stream (resp_frame X) (requests (redis_command op) (key_counter (redis_base c)) (r * n)) \<and>
    reported (redis_base c') = of_nat (counted 10000 n (j + r))"
  using assms(2-7)
proof (induction r arbitrary: j c rs)
  case 0
  then show ?case using has_counted_rest [of 10000 n j "redis_base c"] by (simp add: wire_replies_def)
next
  case (Suc r)
  have rs: "list_all map_reply (take n rs)" "list_all map_reply (drop n rs)" "length (take n rs) = n"
    "length (drop n rs) = r * n"
    using Suc.prems(3,4) by (auto simp: list_all_iff dest: in_set_takeD in_set_dropD)
  have "wire_replies X True rs = wire_replies X True (take n rs) @ wire_replies X True (drop n rs)"
    by (simp add: wire_replies_def flip: concat_append map_append)
  then have inc: "incoming (redis_base c) = wire_replies X True (take n rs) @ wire_replies X True (drop n rs)"
    using Suc.prems(5) by simp
  obtain kb vb where round: "redis_round op n smooth c =
      Ret \<lparr>key_buf = kb, val_buf = vb, redis_base = count_round 10000 n
        ((redis_base c)\<lparr>key_counter := key_counter (redis_base c) + of_nat n,
          outgoing := outgoing (redis_base c) @ stream (resp_frame X) (requests (redis_command op) (key_counter (redis_base c)) n),
          incoming := wire_replies X True (drop n rs)\<rparr>)\<rparr>" (is "_ = Ret ?c") and "length kb = 32" "length vb = 32"
    using redis_round_smooth [OF assms(1) Suc.prems(1) rs(1,3) inc, of op] by blast
  then have ready: "redis_ready ?c" by (simp add: redis_ready_def)
  have "Suc j * n \<le> (j + Suc r) * n" by (intro mult_le_mono1) simp
  then have "Suc j * n < 2 ^ 64" using Suc.prems(6) by (rule le_less_trans)
  then have counted: "has_counted 10000 n (Suc j) (redis_base ?c)"
    using Suc.prems(2) by (simp only: redis_client.simps) (intro has_counted_round; simp add: has_counted_def)
  have "n + r * n = Suc r * n" by simp
  with Suc.IH [OF ready counted rs(2,4)] Suc.prems(6) round show ?case
    by (auto simp: requests_add)
qed

text \<open>Values that make replies no longer than the request.\<close>

definition short_data :: "(key \<Rightarrow> bytes option) \<Rightarrow> bool" where
  "short_data d \<longleftrightarrow> (\<forall>k v. d k = Some v \<longrightarrow> length v \<le> length k \<and> length v < 2 ^ 63 - 2)"

lemma length_show_nat_mono: "m \<le> n \<Longrightarrow> length (show_nat m) \<le> length (show_nat n)"
proof (induction n arbitrary: m rule: show_nat.induct)
  case (1 n)
  show ?case
  proof (cases "m < 10")
    case True
    then have "length (show_nat m) = 1" by (simp add: show_nat.simps)
    then show ?thesis by (simp add: Suc_leI)
  next
    case False
    then have "\<not> n < 10" using 1(2) by simp
    with 1(1) [of "m div 10"] 1(2) False show ?thesis
      by (simp add: show_nat.simps [of m] show_nat.simps [of n] div_le_mono)
  qed
qed

lemma write_bulk_mono:
  assumes "crates_spec X" and "length v \<le> length w"
  shows "length (write_bulk X (Some v)) \<le> length (write_bulk X (Some w))"
  using assms(2) length_show_nat_mono [OF assms(2)]
  by (simp add: write_bulk_def crates_spec.itoa_decimal [OF assms(1)] show_int_def)

lemma short_data_redis: "short_data d \<Longrightarrow> short_data (apply_data (redis_command op k) d)"
  using length_show_u64 [of k] by (cases op) (auto simp: short_data_def)

lemma redis_reply:
  assumes "crates_spec X" and "short_data d"
  shows "map_reply (map_answer (redis_command op k) d) \<and>
    length (response_bytes X True (map_answer (redis_command op k) d)) \<le> length (resp_frame X (redis_command op k))"
proof (cases op)
  case SetOp
  then show ?thesis by (simp add: resp_frame_def write_array_def write_bulk_def crlf_def)
next
  case GetOp
  let ?k = "''k:'' @ show_u64 k"
  show ?thesis
  proof (cases "d ?k")
    case None
    with GetOp show ?thesis by (simp add: resp_frame_def write_array_def write_bulk_def crlf_def null_bulk_def)
  next
    case (Some v)
    with assms(2) have "length v \<le> length ?k" "length v < 2 ^ 63 - 2" unfolding short_data_def by blast+
    with GetOp Some write_bulk_mono [OF assms(1), of v ?k] show ?thesis
      by (simp add: resp_frame_def write_array_def del: append_Cons)
  qed
qed

lemma redis_replies:
  assumes "crates_spec X" and "short_data d"
  shows "list_all map_reply (serve_map (requests (redis_command op) k n) d) \<and>
    length (wire_replies X True (serve_map (requests (redis_command op) k n) d)) \<le>
      length (stream (resp_frame X) (requests (redis_command op) k n))"
  using assms(2)
proof (induction n arbitrary: k d)
  case (Suc n)
  from redis_reply [OF assms(1) Suc.prems, of op k]
    Suc.IH [OF short_data_redis [OF Suc.prems, of op k], of "k + 1"] show ?case
    by (auto simp: requests_Suc wire_replies_def intro!: add_mono)
qed (simp add: wire_replies_def)

lemma short_data_fold: "short_data d \<Longrightarrow> short_data (fold apply_data (requests (redis_command op) k n) d)"
  by (induction n arbitrary: k d) (simp_all add: requests_Suc short_data_redis)

lemma requests_infix:
  assumes "requests line k n = us @ ws @ vs"
  shows "us = requests line k (length us)" and "ws = requests line (k + of_nat (length us)) (length ws)"
proof -
  have n: "n = length us + (length ws + length vs)" using arg_cong [OF assms, of length] by simp
  then have *: "requests line k n = requests line k (length us) @
      requests line (k + of_nat (length us)) (length ws) @ requests line (k + of_nat (length us) + of_nat (length ws)) (length vs)"
    by (simp only: requests_add)
  with assms show "us = requests line k (length us)" and "ws = requests line (k + of_nat (length us)) (length ws)"
    by (simp_all add: append_eq_append_conv)
qed

lemma redis_replies_fit:
  assumes "crates_spec X" and "short_data d"
  shows "wire_replies_fit X True (requests (redis_command op) k n) d"
  unfolding wire_replies_fit_def
proof (intro allI impI)
  fix us ws vs
  assume cs: "requests (redis_command op) k n = us @ ws @ vs"
    and len: "length (stream (wire_frame X True) ws) \<le> max_read_buf"
  have "short_data (fold apply_data us d)"
    using short_data_fold [OF assms(2), of op k "length us"] requests_infix(1) [OF cs] by simp
  from redis_replies [OF assms(1) this, of op "k + of_nat (length us)" "length ws"] requests_infix(2) [OF cs] len
  show "length (wire_replies X True (serve_map ws (fold apply_data us d))) \<le> max_write_buf"
    by (simp add: wire_frame_def max_read_buf_def max_write_buf_def)
qed

lemma redis_commands: "list_all map_command (requests (redis_command op) k n)"
  "list_all frame_fits (requests (redis_command op) k n)"
proof -
  have "frame_fits (redis_command op k)" for k
  proof -
    have "Suc (Suc (length (show_u64 k))) < 2 ^ 63" using length_show_u64 [of k] by simp
    then show ?thesis by (cases op) (simp_all add: frame_fits_def)
  qed
  moreover have "map_command (redis_command op k)" for k by (cases op) simp_all
  ultimately show "list_all map_command (requests (redis_command op) k n)"
    "list_all frame_fits (requests (redis_command op) k n)"
    by (simp_all add: requests_def list_all_iff)
qed

lemma compare_sizes: "OneOp op n clients \<in> set compare_tests \<Longrightarrow> n dvd 10000"
  by (auto simp: compare_tests_def)

text \<open>
  (C31) The RESP client of \<open>redis_compare.rs\<close> understands the server: against a session of the
  server, a client that runs any number of rounds of a test of the program and meets no I/O
  fault does not panic; its reader cuts the stream of replies at exactly the replies, so
  that none is left when it stops, and it reports the exact number of its commands. The
  frames it writes are read by the server as the intended commands, and the engine then
  holds what a map would after them.
\<close>

theorem redis_client_in_step:
  assumes "zet_engine D X" and "OneOp op n clients \<in> set compare_tests" and "r * n < 2 ^ 64"
    and "holds_data D (store st) d" and "short_data d"
    and "read_buf st = []" and "write_buf st = []" and "sent st = []" and "k = of_nat client_id * 1000000"
    and "concat chunks = stream (resp_frame X) (requests (redis_command op) k (r * n))" and "[] \<notin> set chunks"
    and "chunks_fit (resp_frame X) (requests (redis_command op) k (r * n)) chunks"
  shows "\<exists>st' c.
    handle_session X D V wt me (map (\<lambda>b. (ReadOk b, WriteOk)) chunks) st = Some (Ret (Next st')) \<and>
    holds_data D (store st') (fold apply_data (requests (redis_command op) k (r * n)) d) \<and>
    redis_rounds op n (replicate r smooth) (new_redis_client (sent st') client_id) = Ret c \<and>
    outgoing (redis_base c) = concat chunks \<and> incoming (redis_base c) = [] \<and>
    reported (redis_base c) = of_nat (r * n)"
proof -
  let ?cs = "requests (redis_command op) k (r * n)"
  have X: "crates_spec X" using assms(1) by (simp add: zet_engine_def)
  have wire: "wire_frame X True = resp_frame X" "wire_fits True = frame_fits"
    by (simp_all add: wire_frame_def wire_fits_def)
  obtain st' where st': "handle_session X D V wt me (map (\<lambda>b. (ReadOk b, WriteOk)) chunks) st = Some (Ret (Next st'))"
      "holds_data D (store st') (fold apply_data ?cs d)" "sent st' = wire_replies X True (serve_map ?cs d)"
    using session_serves_wire [where is_resp = True and cs = ?cs and d = d and st = st and chunks = chunks and V = V
        and wt = wt and me = me, OF assms(1)] redis_replies_fit [OF X assms(5), of op k "r * n"]
      redis_commands [of op k "r * n"] assms by (auto simp: wire)
  let ?c = "new_redis_client (sent st') client_id"
  have "redis_ready ?c" "incoming (redis_base ?c) = wire_replies X True (serve_map ?cs d)"
    by (simp_all add: redis_ready_def new_redis_client_def new_client_def st'(3))
  moreover have "has_counted 10000 n 0 (redis_base ?c)" by (simp add: new_redis_client_def has_counted_new)
  moreover have "list_all map_reply (serve_map ?cs d)" using redis_replies [OF X assms(5)] by blast
  ultimately obtain c where "redis_rounds op n (replicate r smooth) ?c = Ret c" "incoming (redis_base c) = []"
      "outgoing (redis_base c) = stream (resp_frame X) ?cs" "reported (redis_base c) = of_nat (counted 10000 n r)"
    using redis_rounds_smooth [OF X, of ?c n 0 "serve_map ?cs d" r op] assms(3,9)
    by (auto simp: new_redis_client_def new_client_def)
  with st' assms(10) counted_exact [OF compare_sizes [OF assms(2)]] show ?thesis by auto
qed

theorem redis_client_in_step_witness:
  "\<exists>st' c.
    handle_session reference_crates alist_dashmap demo_surroundings 0 False
      [(ReadOk (resp_get ''k:0''), WriteOk)] demo_session = Some (Ret (Next st')) \<and>
    redis_rounds GetOp 1 (replicate 1 smooth) (new_redis_client (sent st') 0) = Ret c \<and>
    incoming (redis_base c) = [] \<and> reported (redis_base c) = 1"
proof -
  have d: "holds_data alist_dashmap (store demo_session) Map.empty" "short_data Map.empty"
    using zet_engine.holds_data_new [OF reference_engine.zet_engine_axioms]
    by (simp_all add: demo_session_def demo_new short_data_def)
  have t: "OneOp GetOp 1 1 \<in> set compare_tests" "1 * 1 < (2 ^ 64 :: nat)" by (simp_all add: compare_tests_def)
  have s: "read_buf demo_session = []" "write_buf demo_session = []" "sent demo_session = []"
    by (simp_all add: demo_session_def)
  have r: "requests (redis_command GetOp) 0 (1 * 1) = [CGet ''k:0'']"
    by code_simp
  have k: "(0 :: u64) = of_nat 0 * 1000000" by simp
  have c: "concat [resp_get ''k:0''] = stream (resp_frame reference_crates) (requests (redis_command GetOp) 0 (1 * 1))"
      "[] \<notin> set [resp_get ''k:0'']"
    by (simp_all only: r) (simp_all add: resp_get_frame [OF reference_crates.crates_spec_axioms] resp_frame_not_Nil [THEN not_sym])
  have f: "chunks_fit (resp_frame reference_crates) (requests (redis_command GetOp) 0 (1 * 1)) [resp_get ''k:0'']"
    unfolding r resp_get_frame [OF reference_crates.crates_spec_axioms]
    by (simp add: chunks_fit_def resp_frame_def write_array_def write_bulk_def crlf_def max_read_buf_def
        reference_crates.itoa_decimal show_int_def show_nat.simps)
  from redis_client_in_step [OF reference_engine.zet_engine_axioms t d s k c f, of demo_surroundings 0 False]
  obtain st' c where "handle_session reference_crates alist_dashmap demo_surroundings 0 False
      [(ReadOk (resp_get ''k:0''), WriteOk)] demo_session = Some (Ret (Next st'))"
      "redis_rounds GetOp 1 (replicate 1 smooth) (new_redis_client (sent st') 0) = Ret c"
      "incoming (redis_base c) = []" "reported (redis_base c) = of_nat (1 * 1)"
    by (auto simp only: list.map)
  then show ?thesis by auto
qed

section \<open>Reports\<close>

lemma length_filter_sort: "length (filter P (sort xs)) = length (filter P xs)"
proof -
  have "mset (filter P (sort xs)) = mset (filter P xs)" by simp
  then show ?thesis by (metis size_mset)
qed

lemma sorted_rank:
  assumes "sorted xs" and "i < length xs"
  shows "length (filter (\<lambda>y. y < xs ! i) xs) \<le> i" and "i < length (filter (\<lambda>y. y \<le> xs ! i) xs)"
proof -
  have "filter (\<lambda>y. y < xs ! i) (drop i xs) = []"
    using assms by (auto simp: filter_empty_conv in_set_conv_nth not_less intro!: sorted_nth_mono)
  then have "filter (\<lambda>y. y < xs ! i) xs = filter (\<lambda>y. y < xs ! i) (take i xs)"
    by (metis append_Nil2 append_take_drop_id filter_append)
  then show "length (filter (\<lambda>y. y < xs ! i) xs) \<le> i"
    by (metis length_filter_le length_take min.boundedE)
  have "filter (\<lambda>y. y \<le> xs ! i) (take (Suc i) xs) = take (Suc i) xs"
    using assms by (auto simp: filter_id_conv in_set_conv_nth intro!: sorted_nth_mono)
  moreover have "length (filter (\<lambda>y. y \<le> xs ! i) (take (Suc i) xs)) \<le> length (filter (\<lambda>y. y \<le> xs ! i) xs)"
    by (metis append_take_drop_id filter_append length_append le_add1)
  ultimately show "i < length (filter (\<lambda>y. y \<le> xs ! i) xs)" using assms(2) by simp
qed

text \<open>
  A reported percentile is one of the measured latencies, at the rank that was asked
  for: at most as many latencies as the rank are smaller, and more than that are not greater.
  The rank is that of the floating-point product, cut to the last latency; without a
  latency the program panics.
\<close>

theorem percentile_rank:
  assumes "idx = min (rank (length latencies)) (length latencies - 1)"
  shows "if latencies = [] then percentile rank latencies = Panic
    else \<exists>x. percentile rank latencies = Ret x \<and> x \<in> set latencies \<and>
      length (filter (\<lambda>y. y < x) latencies) \<le> idx \<and> idx < length (filter (\<lambda>y. y \<le> x) latencies)"
proof (cases "latencies = []")
  case False
  then have "length latencies - 1 < length latencies" by (cases latencies) simp_all
  then have i: "idx < length (sort latencies)" using assms by (simp add: min.strict_coboundedI2)
  have "sort latencies ! idx \<in> set latencies" using nth_mem [OF i] by simp
  with i False sorted_rank [OF sorted_sort i] assms show ?thesis
    by (simp add: percentile_def Let_def length_filter_sort)
qed (simp add: percentile_def)

theorem percentile_rank_witness:
  "\<exists>x. percentile (\<lambda>n. n * 95 div 100) [7, 3, 9, 5] = Ret x \<and> x \<in> {7, 3, 9, 5} \<and> length (filter (\<lambda>y. y < x) [7, 3, 9, 5]) \<le> 3"
proof -
  have "3 = min ((\<lambda>n. n * 95 div 100) (length [7, 3, 9, 5 :: nat])) (length [7, 3, 9, 5 :: nat] - 1)" by simp
  from percentile_rank [where rank = "\<lambda>n. n * 95 div 100" and latencies = "[7, 3, 9, 5]", OF this] obtain x where "percentile (\<lambda>n. n * 95 div 100) [7, 3, 9, 5] = Ret x"
      "x \<in> set [7, 3, 9, 5]" "length (filter (\<lambda>y. y < x) [7, 3, 9, 5]) \<le> 3"
    by (auto simp only: if_False list.distinct simp_thms)
  then show ?thesis by (intro exI [of _ x]) simp
qed

text \<open>The peak is the greatest total, and its label that of a configuration which reached it.\<close>

lemma peak_scan_greatest:
  assumes "peak_scan (t0, l0) results = (marks, t, l)"
  shows "t0 \<le> t \<and> (\<forall>(wr, w, r) \<in> set results. w + r \<le> t) \<and>
    ((t, l) = (t0, l0) \<or> (\<exists>w r writes reads. ((w, r), (writes, reads)) \<in> set results \<and>
       t = writes + reads \<and> l = throughput_label w r))"
  using assms
proof (induction "(t0, l0)" results arbitrary: t0 l0 marks rule: peak_scan.induct)
  case (2 t0 l0 w r writes reads results)
  let ?t = "writes + reads" and ?l = "throughput_label w r"
  show ?case
  proof (cases "t0 < ?t")
    case True
    obtain marks' where "peak_scan (?t, ?l) results = (marks', t, l)"
      using 2(2) True by (auto simp: Let_def apfst_def map_prod_def split: prod.splits)
    from 2(1) [OF refl refl refl _ this] True show ?thesis by fastforce
  next
    case False
    obtain marks' where "peak_scan (t0, l0) results = (marks', t, l)"
      using 2(2) False by (auto simp: Let_def apfst_def map_prod_def split: prod.splits)
    from 2(1) [OF refl refl refl _ this] False show ?thesis by fastforce
  qed
qed simp

text \<open>The populations write one SET per key, however they are cut, and read one reply for each.\<close>

lemma concat_chunks_of: "0 < m \<Longrightarrow> concat (chunks_of m xs) = xs"
proof (induction m xs rule: chunks_of.induct)
  case (1 m xs)
  then show ?case by (subst chunks_of.simps) simp
qed

lemma skip_lines_replies:
  "list_all reply_line bs \<Longrightarrow> skip_lines smooth i (length bs) (concat bs @ rest) = rest"
  by (induction bs arbitrary: i) (auto simp: read_line_reply)

lemma populate_smooth:
  assumes "list_all reply_line bs" and "length bs = length (concat chunks)" and "incoming c = concat bs"
  shows "populate line (\<lambda>_. smooth) i chunks c =
    Ret (c\<lparr>outgoing := outgoing c @ concat (map line (concat chunks)), incoming := []\<rparr>)"
  using assms
proof (induction chunks arbitrary: i c bs)
  case Nil
  then show ?case by (cases c) simp
next
  case (Cons chunk chunks)
  let ?n = "length chunk"
  have bs: "list_all reply_line (take ?n bs)" "list_all reply_line (drop ?n bs)" "length (take ?n bs) = ?n"
    "length (drop ?n bs) = length (concat chunks)"
    using Cons.prems(1,2) by (auto simp: list_all_iff dest: in_set_takeD in_set_dropD)
  have "concat bs = concat (take ?n bs) @ concat (drop ?n bs)" by (simp flip: concat_append)
  then have "skip_lines smooth 0 ?n (incoming c) = concat (drop ?n bs)"
    using skip_lines_replies [OF bs(1), of 0 "concat (drop ?n bs)"] bs(3) Cons.prems(3) by simp
  with Cons.IH [OF bs(2,4)] show ?case by (simp add: list_ex_iff)
qed

lemma pipeline_prepopulate_lines:
  assumes "list_all reply_line bs" and "length bs = n" and "incoming c = concat bs"
  shows "pipeline_prepopulate (\<lambda>_. smooth) n c =
    Ret (c\<lparr>outgoing := outgoing c @ concat (map (\<lambda>k. ''SET pp:'' @ show_nat k @ '' val:'' @ show_nat k @ crlf) [0..<n]),
      incoming := []\<rparr>)"
  using populate_smooth [OF assms(1) _ assms(3), of "chunks_of 500 [0..<n]"] assms(2)
  by (simp add: pipeline_prepopulate_def concat_chunks_of)

lemma populate_writes_lines: "concat (populate_writes line b ks) = b @ concat (map line ks)"
  by (induction line b ks rule: populate_writes.induct) (simp_all add: Let_def)

lemma redis_prepopulate_in_step:
  assumes "crates_spec X" and "incoming c = wire_replies X True (replicate n Ok)"
  shows "\<exists>c'. redis_prepopulate (\<lambda>_. smooth) i n idx c = Ret c' \<and> incoming c' = [] \<and>
    outgoing c' = outgoing c @
      stream (resp_frame X) (map (\<lambda>j. CSet (''k:'' @ show_nat j) (''v:'' @ show_nat j) None) [idx..<idx + n])"
  using assms(2)
proof (induction n arbitrary: i idx c rule: less_induct)
  case (less n)
  show ?case
  proof (cases "n = 0")
    case True
    with less.prems show ?thesis by (subst redis_prepopulate.simps) (simp add: wire_replies_def)
  next
    case False
    let ?m = "min n 500"
    let ?cmds = "map (\<lambda>j. CSet (''k:'' @ show_nat j) (''v:'' @ show_nat j) None)"
    let ?c = "c\<lparr>outgoing := outgoing c @ stream (resp_frame X) (?cmds [idx..<idx + ?m]),
        incoming := wire_replies X True (replicate (n - ?m) Ok)\<rparr>"
    have n: "n = ?m + (n - ?m)" "n - ?m < n" using False by auto
    have inc: "incoming c = wire_replies X True (replicate ?m Ok) @ wire_replies X True (replicate (n - ?m) Ok)"
      using less.prems n(1) by (metis concat_append map_append replicate_add wire_replies_def)
    have "read_replies smooth 0 ?m (incoming c) = Ret (wire_replies X True (replicate (n - ?m) Ok))"
      using read_replies_all [OF assms(1), of "replicate ?m Ok" 0] inc by (simp add: list_all_iff)
    moreover have "concat (map (\<lambda>j. resp_set (''k:'' @ show_nat j) (''v:'' @ show_nat j)) js) = stream (resp_frame X) (?cmds js)" for js
      by (induction js) (simp_all add: resp_set_frame [OF assms(1)])
    ultimately have step: "redis_prepopulate (\<lambda>_. smooth) i n idx c =
        redis_prepopulate (\<lambda>_. smooth) (Suc i) (n - ?m) (idx + ?m) ?c"
      using False by (subst redis_prepopulate.simps) (simp add: Let_def)
    have "[idx..<idx + n] = [idx..<idx + ?m] @ [idx + ?m..<idx + n]"
      using upt_add_eq_append [of idx "idx + ?m" "n - ?m"] by simp
    then have split: "?cmds [idx..<idx + n] = ?cmds [idx..<idx + ?m] @ ?cmds [idx + ?m..<idx + ?m + (n - ?m)]" by simp
    obtain c' where c': "redis_prepopulate (\<lambda>_. smooth) (Suc i) (n - ?m) (idx + ?m) ?c = Ret c'" "incoming c' = []"
        "outgoing c' = outgoing ?c @ stream (resp_frame X) (?cmds [idx + ?m..<idx + ?m + (n - ?m)])"
      using less.IH [OF n(2), of ?c "Suc i" "idx + ?m"] by auto
    then show ?thesis
      unfolding step split stream_simps by (intro exI [of _ c']) simp
  qed
qed

text \<open>
  The keys that \<open>pipeline.rs\<close> populates before its GET tests are not those the tests read:
  these are found only where the SET tests before them wrote them.
\<close>

lemma pipeline_prepopulate_misses:
  assumes "c = pipeline_command GetOp j"
  shows "map_answer c (fold apply_data (map (\<lambda>k. CSet (''pp:'' @ show_nat k) (''val:'' @ show_nat k) None) [0..<n]) Map.empty) =
    Value None"
proof -
  have "fold apply_data (map (\<lambda>k. CSet (''pp:'' @ show_nat k) (''val:'' @ show_nat k) None) ks) d (''pipe:'' @ b) =
      d (''pipe:'' @ b)" for ks d b
    by (induction ks arbitrary: d) simp_all
  with assms show ?thesis by (simp del: append_Cons)
qed

end
