(* ===== verification/Spec2Isabelle.thy ===== *)
theory Spec2Isabelle
  imports Server_Props Concurrency_Multi Key_Limit Shared_Log Bench_Props
begin

text \<open>
  A verification library for ZetDB, an in-memory key-value server with a Redis-like
  protocol (the Rust crate under \<open>src/\<close>). All paths below are relative to \<open>src/src/\<close>.

  \<^bold>\<open>The program.\<close> A client connects to the TCP server (\<open>server/tcp.rs\<close>), which starts a
  session task per connection (\<open>server/session.rs\<close>). A session collects bytes, cuts frames
  off its buffer with one of two parsers (\<open>protocol/parser.rs\<close> for RESP and lines,
  \<open>protocol/parser_borrowed.rs\<close> for lines without copying), hands each command to a
  dispatcher (\<open>application/\<close>), and sends the responses (\<open>protocol/response.rs\<close>) of a batch
  at once. The dispatchers call the storage engine (\<open>storage/dashmap_engine.rs\<close>), a concurrent
  hash map of values with expiry times and an optional limit on the number of keys. Writes
  are appended to a log (\<open>storage/aof.rs\<close>), and snapshots are dumped (\<open>storage/snapshot.rs\<close>);
  \<open>main.rs\<close> restores both at startup and starts the background tasks: the sweeper
  (\<open>storage/ttl.rs\<close>), the snapshotter, the fsync ticker and the log rewriter.

  \<^bold>\<open>Conventions.\<close> Bytes are characters, byte strings are lists of them. An operation of the
  program is a function that takes the state and returns the new one; what it reads from
  outside is an argument: a clock (the sequence of readings of \<open>Instant::now\<close> that the
  operation takes), the result of the I/O calls (\<open>disk\<close>), the events of a socket, the
  worker thread. A result of type \<open>outcome\<close> says that the operation returns, panics, or
  waits forever for a lock that its own task holds. Errors are values of a sum type. The
  external crates are parameters: \<open>crates\<close> (memchr, itoa, crc32fast) and \<open>dashmap\<close>, with
  their documented behaviour as the locales \<open>crates_spec\<close> and \<open>dashmap_spec\<close>, interpreted
  on reference implementations for the witnesses. Numbers are kept at their width where
  overflow matters: the counters of the metrics are 64-bit words, \<open>i64\<close> and \<open>u64\<close> values
  are integers with the wrap-around written out. Loops are recursive functions that
  terminate; where the code alone does not show that (the frame loops of a session, the
  drain loop) they are partial functions into options, and a theorem says that they end. No
  fuel is used.

  \<^bold>\<open>Theories.\<close>
  \<^item> \<open>Prelude\<close>, \<open>Rust_Std\<close>, \<open>Crates\<close>: outcomes, clocks, slices; what the code uses of the
    standard library (integers, decimal text, little-endian bytes, UTF-8, durations); the
    external crates.
  \<^item> \<open>Domain\<close>: values, commands, errors, the log entry of a command (\<open>domain/\<close>).
  \<^item> \<open>Engine\<close>, \<open>Engine_Spec\<close>, \<open>Engine_Props\<close>: the engine, operation by operation, and the
    trait \<open>KvEngine\<close> as a record. The contract \<open>kv_engine_spec\<close> says what each operation
    does to the view of the live entries at every time, and what to the stored keys, which
    \<open>len\<close> counts whether or not they have expired; the engine without a key limit fulfils it.
    With a limit, the eviction of one operation and its failure are characterised.
  \<^item> \<open>Concurrency\<close>, \<open>Concurrency_Props\<close>, \<open>Concurrency_Multi\<close>: the engine shared by any number of
    tasks and the sweeper. The operations on one key are cut where they give up the lock of a shard, and
    the sections interleave. The effects of a run, in their order, are a sequence of the
    operations in one piece with the same answers; removals of expired entries cannot be
    seen; increments of a counter that does not expire are never lost. INCR of an expired
    key is the one operation on a key that is not atomic. An MGET among them reads values
    that were live, one state after the other, but not always those of one state.
  \<^item> \<open>Key_Limit\<close>: the key limit of an engine that tasks share. SET and INCR are cut where they
    look at the number of keys, evict, look again and insert; \<open>N\<close> tasks exceed the limit by
    less than \<open>N\<close> keys and one for every fast SET, and a race of two does exceed it.
  \<^item> \<open>Response\<close>, \<open>Parser\<close>, \<open>Parser_Inline\<close>, \<open>Parser_Resp\<close>, \<open>Wire\<close>, \<open>Parser_Borrowed\<close>: the
    protocol. The line parser is its specification on lists of words; a frame consumes what
    it should and is not changed by later bytes; commands survive the wire, and so do
    responses, except errors whose text holds a line end, which a client reads as two;
    the two line parsers agree on plain lines, and where they do not.
  \<^item> \<open>Metrics\<close>: thread-local and global counters together count every event.
  \<^item> \<open>Dispatcher\<close>, \<open>Dispatcher_Props\<close>: the four dispatchers. Each command answers from the
    view and changes it as its meaning says, DBSIZE and INFO from the stored keys; what the
    dispatchers that write bytes directly send, compared with the one that returns a
    response, for every command; a reply has the type of its command.
  \<^item> \<open>Aof\<close>, \<open>Aof_Props\<close>, \<open>Snapshot\<close>, \<open>Recovery\<close>, \<open>Aof_Faults\<close>: the files. Replaying a log
    executes the logged commands, whatever prefix of a last entry other than an MSET follows;
    a snapshot or a rewritten log restores the live data, times to live in whole
    milliseconds; and the cases in which data are lost, doubled, made permanent or taken for
    commands.
  \<^item> \<open>Aof_Locks\<close>: the order of the mutexes of the log writer as a step relation over any
    number of tasks. The locale \<open>lock_discipline\<close> shows that ordered locks do not deadlock;
    two fsync policies follow an order, the third deadlocks.
  \<^item> \<open>Session\<close>, \<open>Session_Stream\<close>, \<open>Session_Props\<close>, \<open>Session_Inline\<close>, \<open>Durability\<close>,
    \<open>Session_Faults\<close>: sessions. The loops over frames end on every input (locale
    \<open>decreasing_loop\<close>); a stream of commands, in whatever chunks it arrives, is answered in
    order by the dispatcher. The locale \<open>framed_stream\<close> carries that proof and is interpreted
    on the handlers of RESP arrays and of plain lines, on both paths of a session. A session
    of GETs and SETs serves a finite map. The log of a RESP session, flushed and replayed,
    restores its data as long as it fits one batch, or without INCRs and disk faults at any
    length; what malformed input does.
  \<^item> \<open>Shared_Log\<close>: any number of sessions on one engine and one log, with the execution of a
    command, its entry in the batch and the flush of the batch as separate actions. Sessions
    that write keys of their own recover them from the log, INCRs while the log fits one
    batch; two sessions that write the same key may leave a log that restores another value.
  \<^item> \<open>Server\<close>, \<open>Server_Props\<close>: configuration, the socket options, accept loop, drain, the
    threads and their cores (\<open>observability/cpu_affinity.rs\<close>), startup and shutdown. The
    connection limit holds and panics use it up; the drain ends; what a restart finds; which
    cores the threads are pinned to.
  \<^item> \<open>Bench\<close>, \<open>Bench_Props\<close>: the load generators (\<open>bin/\<close>): how they fill the store, build
    their rounds, recognise the replies, count operations and compute percentiles. Composed
    with the session of the server, the clients read exactly the replies to what they sent;
    one of them counts too few operations when its rounds do not divide its unit.

  \<^bold>\<open>Limits of the model.\<close> A session acts on the engine, the metrics and the log without
  interference from other sessions between two of its steps; concurrent access is modelled
  for the operations of the engine on one key and for MGET, for the key limit, for the commands on one key with
  their log entries, for the locks of the log writer, for the metrics of several threads and
  for the connection count. KEYS, DBSIZE and FLUSHDB, single calls of DashMap, which locks one
  shard after the other, are atomic in the model. DashMap's shards appear only where they
  matter: an operation that locks a shard it already holds is \<open>Blocked\<close>. Memory-mapped and
  plain reads of a snapshot give the same bytes. The read buffer's capacity and the reservation of the
  write buffer have no effect. Timeouts are events; the fast path of a session never meets one.

  \<^bold>\<open>Not modelled.\<close> Sockets, file system and signal handling beyond their results; argument
  parsing by clap (the configuration is its result); logging; the allocator; of the benchmark
  programs the elapsed times, the rates computed from them in floating point, and the
  printing; the tests. KEYS, DBSIZE and FLUSHDB are not cut into their visits of shards, since
  the loop over the shards is DashMap's own; and the recovery theorems of sessions are about
  keys that do not expire, because the log stores a time to live as a duration and a replay
  counts it from the time of the restart.
\<close>

end
